(* ===== verification/Go_Prelude.thy ===== *)
theory Go_Prelude
  imports Main "HOL-Library.Word" "HOL-Library.AList"
begin

unbundle bit_operations_syntax

text \<open>
  What every theory of the development shares: the machine types of the Go sources, byte
  strings read and written in big-endian order, results of fallible calls, Go maps, and the
  interfaces (locales) several components provide.

  Conventions.  A Go \<open>byte\<close> is an \<open>8 word\<close>, a \<open>uint64\<close> a \<open>64 word\<close> (its arithmetic wraps),
  a \<open>[]byte\<close> a list of bytes, a \<open>*big.Int\<close> an \<open>int\<close>.  A call that may return an error is a
  function into \<open>'e + 'a\<close>, the error on the left.  A Go map is an association list: \<open>range\<close>
  visits the entries in the order of the list, and since Go does not fix that order, a lemma
  that holds for every list holds for every order the runtime may choose.
\<close>

section \<open>Machine types\<close>

type_synonym byte = "8 word"
type_synonym bytes = "8 word list"
type_synonym u64 = "64 word"
type_synonym hash = "256 word"
type_synonym address = "160 word"

named_theorems be_simps \<open>big-endian encodings\<close>
named_theorems gomap_simps \<open>lookup after an update of a Go map\<close>

text \<open>\<open>(*big.Int).Uint64\<close>: the low 64 bits of the absolute value.\<close>

definition big_Uint64 :: "int \<Rightarrow> u64" where
  "big_Uint64 x = word_of_int \<bar>x\<bar>"

text \<open>\<open>(*big.Int).Int64\<close>.\<close>

definition big_Int64 :: "int \<Rightarrow> int" where
  "big_Int64 x = sint (word_of_int x :: u64)"

lemma big_Int64_id: "0 \<le> x \<Longrightarrow> x < 2 ^ 63 \<Longrightarrow> big_Int64 x = x"
  by (simp add: big_Int64_def sint_uint uint_word_of_int take_bit_int_eq_self signed_take_bit_int_eq_self)

text \<open>\<open>byte(i >> k)\<close> on a \<open>uint64\<close>.\<close>

definition byte_of :: "u64 \<Rightarrow> nat \<Rightarrow> byte" where
  "byte_of i k = ucast (drop_bit k i)"

lemma unat_byte_of: "unat (byte_of i k) = unat i div 2 ^ k mod 256"
proof -
  have "unat (drop_bit k i) = unat i div 2 ^ k"
    unfolding unsigned_drop_bit_eq
    using unsigned_less [of i, where ?'a = nat] by (simp add: drop_bit_eq_div take_bit_nat_eq_self)
  then show ?thesis
    by (simp add: byte_of_def unsigned_ucast_eq take_bit_eq_mod)
qed

lemma unat_drop_bit_u64: "unat (drop_bit k (i :: u64)) = unat i div 2 ^ k"
  unfolding unsigned_drop_bit_eq
  using unsigned_less [of i, where ?'a = nat] by (simp add: drop_bit_eq_div take_bit_nat_eq_self)

section \<open>Results of fallible calls\<close>

definition bindE :: "'e + 'a \<Rightarrow> ('a \<Rightarrow> 'e + 'b) \<Rightarrow> 'e + 'b" where
  "bindE m f = (case m of Inl e \<Rightarrow> Inl e | Inr x \<Rightarrow> f x)"

lemma bindE_simps [simp]:
  "bindE (Inl e) f = Inl e"
  "bindE (Inr x) f = f x"
  by (simp_all add: bindE_def)

lemma bindE_Inr_iff: "bindE m f = Inr y \<longleftrightarrow> (\<exists>x. m = Inr x \<and> f x = Inr y)"
  by (cases m) auto

lemma bindE_InrE [elim!]:
  assumes "bindE m f = Inr y"
  obtains x where "m = Inr x" "f x = Inr y"
  using assms by (auto simp: bindE_Inr_iff)

lemma bindE_assoc: "bindE (bindE m f) g = bindE m (\<lambda>x. bindE (f x) g)"
  by (cases m) auto

section \<open>State and errors\<close>

text \<open>A method that mutates its receiver and may return an error: the state of the receiver is
  kept when the method fails, since Go does not roll anything back.\<close>

type_synonym ('s, 'e, 'a) stm = "'s \<Rightarrow> ('e + 'a) \<times> 's"

definition returnS :: "'a \<Rightarrow> ('s, 'e, 'a) stm" where
  "returnS x s = (Inr x, s)"

definition failS :: "'e \<Rightarrow> ('s, 'e, 'a) stm" where
  "failS e s = (Inl e, s)"

definition bindS :: "('s, 'e, 'a) stm \<Rightarrow> ('a \<Rightarrow> ('s, 'e, 'b) stm) \<Rightarrow> ('s, 'e, 'b) stm" where
  "bindS m f s = (case m s of (Inl e, s') \<Rightarrow> (Inl e, s') | (Inr x, s') \<Rightarrow> f x s')"

definition liftS :: "'e + 'a \<Rightarrow> ('s, 'e, 'a) stm" where
  "liftS r s = (r, s)"

lemma bindS_Inr: "bindS m f s = (Inr y, s') \<longleftrightarrow> (\<exists>x s1. m s = (Inr x, s1) \<and> f x s1 = (Inr y, s'))"
  by (auto simp: bindS_def split: prod.splits sum.splits)

lemma bindS_Inl: "bindS m f s = (Inl e, s') \<longleftrightarrow>
    m s = (Inl e, s') \<or> (\<exists>x s1. m s = (Inr x, s1) \<and> f x s1 = (Inl e, s'))"
  by (auto simp: bindS_def split: prod.splits sum.splits)

lemma bindS_liftS [simp]:
  "bindS (liftS (Inr x)) f = f x"
  "bindS (liftS (Inl e)) f = failS e"
  by (simp_all add: fun_eq_iff bindS_def liftS_def failS_def)

lemma bindS_returnS [simp]: "bindS (returnS x) f = f x" "bindS (failS e) f = failS e"
  by (simp_all add: fun_eq_iff bindS_def returnS_def failS_def)

text \<open>\<open>for _, x := range xs\<close> whose body updates \<open>a\<close> and returns on an error.\<close>

primrec foldS :: "('x \<Rightarrow> 'a \<Rightarrow> ('s, 'e, 'a) stm) \<Rightarrow> 'x list \<Rightarrow> 'a \<Rightarrow> ('s, 'e, 'a) stm" where
  "foldS f [] a = returnS a"
| "foldS f (x # xs) a = bindS (f x a) (foldS f xs)"

lemma foldS_append: "foldS f (xs @ ys) a = bindS (foldS f xs a) (foldS f ys)"
  by (induction xs arbitrary: a)
     (auto simp: fun_eq_iff bindS_def returnS_def split: prod.split sum.split)

section \<open>Big-endian byte strings\<close>

text \<open>The value of a big-endian byte string (\<open>big.Int.SetBytes\<close>, \<open>binary.BigEndian\<close>), and
  the shortest byte string with a given value (\<open>big.Int.Bytes\<close>).\<close>

definition be_nat :: "bytes \<Rightarrow> nat" where
  "be_nat bs = foldl (\<lambda>acc b. acc * 256 + unat b) 0 bs"

fun nat_be :: "nat \<Rightarrow> bytes" where
  "nat_be n = (if n = 0 then [] else nat_be (n div 256) @ [of_nat (n mod 256)])"

declare nat_be.simps [simp del]

lemma be_nat_Nil [simp]: "be_nat [] = 0"
  by (simp add: be_nat_def)

lemma be_nat_snoc [be_simps]: "be_nat (bs @ [b]) = be_nat bs * 256 + unat b"
  by (simp add: be_nat_def)

lemma be_nat_append [be_simps]: "be_nat (xs @ ys) = be_nat xs * 256 ^ length ys + be_nat ys"
proof (induction ys rule: rev_induct)
  case (snoc y ys)
  have "be_nat (xs @ ys @ [y]) = be_nat (xs @ ys) * 256 + unat y"
    using be_nat_snoc [of "xs @ ys" y] by simp
  then show ?case using snoc by (simp add: be_nat_snoc algebra_simps)
qed simp

lemma be_nat_single [simp]: "be_nat [b] = unat b"
  by (simp add: be_nat_def)

lemma be_nat_Cons [be_simps]: "be_nat (b # bs) = unat b * 256 ^ length bs + be_nat bs"
  using be_nat_append [of "[b]" bs] by simp

lemma unat_byte_less [simp]: "unat (b :: byte) < 256"
  using unsigned_less [of b, where ?'a = nat] by simp

lemma be_nat_less: "be_nat bs < 256 ^ length bs"
proof (induction bs)
  case (Cons b bs)
  have "be_nat (b # bs) < unat b * 256 ^ length bs + 256 ^ length bs"
    using Cons by (simp add: be_nat_Cons)
  also have "\<dots> = (unat b + 1) * 256 ^ length bs"
    by simp
  also have "\<dots> \<le> 256 * 256 ^ length bs"
    by (rule mult_right_mono) (use unat_byte_less [of b] in linarith, simp)
  finally show ?case by simp
qed simp

lemma be_nat_u64: "length bs \<le> 8 \<Longrightarrow> be_nat bs < 2 ^ 64"
  using be_nat_less [of bs] power_increasing [of "length bs" 8 "256 :: nat"] by simp

lemma nat_be_0 [simp]: "nat_be 0 = []"
  by (simp add: nat_be.simps)

lemma nat_be_pos: "n \<noteq> 0 \<Longrightarrow> nat_be n = nat_be (n div 256) @ [of_nat (n mod 256)]"
  by (subst nat_be.simps) simp

lemma nat_be_eq_Nil [simp]: "nat_be n = [] \<longleftrightarrow> n = 0"
  by (subst nat_be.simps) simp

lemma unat_of_nat_byte [simp]: "unat (of_nat n :: byte) = n mod 256"
  by (simp add: unat_of_nat)

lemma be_nat_nat_be [simp]: "be_nat (nat_be n) = n"
proof (induction n rule: nat_be.induct)
  case (1 n)
  show ?case
  proof (cases "n = 0")
    case False
    with 1 have "be_nat (nat_be (n div 256)) = n div 256" by blast
    with False show ?thesis by (simp add: nat_be_pos be_nat_snoc)
  qed simp
qed

lemma nat_be_inj [simp]: "nat_be m = nat_be n \<longleftrightarrow> m = n"
  by (metis be_nat_nat_be)

text \<open>A canonical number has no leading zero byte.\<close>

definition no_leading_zero :: "bytes \<Rightarrow> bool" where
  "no_leading_zero bs \<longleftrightarrow> (case bs of [] \<Rightarrow> True | b # _ \<Rightarrow> b \<noteq> 0)"

lemma no_leading_zero_simps [simp]:
  "no_leading_zero []"
  "no_leading_zero (b # bs) \<longleftrightarrow> b \<noteq> 0"
  by (simp_all add: no_leading_zero_def)

lemma no_leading_zero_append:
  "xs \<noteq> [] \<Longrightarrow> no_leading_zero (xs @ ys) = no_leading_zero xs"
  by (cases xs) auto

lemma be_nat_eq_0: "no_leading_zero bs \<Longrightarrow> be_nat bs = 0 \<longleftrightarrow> bs = []"
  by (cases bs) (auto simp: be_nat_Cons unat_eq_0)

lemma nat_be_be_nat: "no_leading_zero bs \<Longrightarrow> nat_be (be_nat bs) = bs"
proof (induction bs rule: rev_induct)
  case (snoc b bs)
  show ?case
  proof (cases "bs = []")
    case True
    with snoc.prems have "unat b \<noteq> 0" by (simp add: unat_eq_0)
    with True show ?thesis by (simp add: nat_be_pos)
  next
    case False
    with snoc.prems have nz: "no_leading_zero bs" by (simp add: no_leading_zero_append)
    with False have "be_nat bs \<noteq> 0" by (simp add: be_nat_eq_0)
    then have "nat_be (be_nat (bs @ [b])) = nat_be (be_nat bs) @ [b]"
      by (simp add: be_nat_snoc nat_be_pos)
    with snoc.IH nz show ?thesis by simp
  qed
qed simp

lemma no_leading_zero_nat_be [simp]: "no_leading_zero (nat_be n)"
proof (induction n rule: nat_be.induct)
  case (1 n)
  show ?case
  proof (cases "n div 256 = 0")
    case True
    then have "n < 256" by simp
    then have "n \<noteq> 0 \<Longrightarrow> (of_nat n :: byte) \<noteq> 0"
      by (metis mod_less unat_0 unat_of_nat_byte)
    with True \<open>n < 256\<close> show ?thesis by (cases "n = 0") (simp_all add: nat_be_pos)
  next
    case False
    then have "n \<noteq> 0" by auto
    with 1 have nz: "no_leading_zero (nat_be (n div 256))" by blast
    have "nat_be n = nat_be (n div 256) @ [of_nat (n mod 256)]"
      using \<open>n \<noteq> 0\<close> by (rule nat_be_pos)
    with False nz show ?thesis by (simp only: no_leading_zero_append nat_be_eq_Nil not_False_eq_True)
  qed
qed

lemma length_nat_be_le: "length (nat_be n) \<le> k \<longleftrightarrow> n < 256 ^ k"
proof (induction n arbitrary: k rule: nat_be.induct)
  case (1 n)
  show ?case
  proof (cases "n = 0")
    case False
    show ?thesis
    proof (cases k)
      case 0
      with False show ?thesis by simp
    next
      case (Suc j)
      from False 1 have "length (nat_be (n div 256)) \<le> j \<longleftrightarrow> n div 256 < 256 ^ j" by blast
      also have "\<dots> \<longleftrightarrow> n < 256 ^ Suc j"
        by (simp add: div_less_iff_less_mult mult.commute)
      finally show ?thesis using False Suc by (simp add: nat_be_pos)
    qed
  qed simp
qed

lemma length_nat_be_u64 [simp]: "length (nat_be (unat (i :: u64))) \<le> 8"
  using unsigned_less [of i, where ?'a = nat] by (simp add: length_nat_be_le)

section \<open>Go maps\<close>

type_synonym ('k, 'v) gomap = "('k \<times> 'v) list"

text \<open>\<open>m[k]\<close> with its ``comma ok'' result, \<open>m[k] = v\<close>, \<open>delete(m, k)\<close>, \<open>len(m)\<close>.\<close>

definition gget :: "('k, 'v) gomap \<Rightarrow> 'k \<Rightarrow> 'v option" where
  "gget m k = map_of m k"

definition gput :: "('k, 'v) gomap \<Rightarrow> 'k \<Rightarrow> 'v \<Rightarrow> ('k, 'v) gomap" where
  "gput m k v = AList.update k v m"

definition gdel :: "('k, 'v) gomap \<Rightarrow> 'k \<Rightarrow> ('k, 'v) gomap" where
  "gdel m k = AList.delete k m"

definition gkeys :: "('k, 'v) gomap \<Rightarrow> 'k list" where
  "gkeys m = map fst m"

definition gmap_ok :: "('k, 'v) gomap \<Rightarrow> bool" where
  "gmap_ok m \<longleftrightarrow> distinct (map fst m)"

definition gcopy :: "('k, 'v) gomap \<Rightarrow> ('k, 'v) gomap" where
  "gcopy m = foldl (\<lambda>acc (k, v). gput acc k v) [] m"

lemma gget_Nil [simp]: "gget [] k = None"
  by (simp add: gget_def)

lemma gget_gput [gomap_simps]: "gget (gput m k v) k' = (if k' = k then Some v else gget m k')"
  by (simp add: gget_def gput_def update_conv')

lemma gget_gdel [gomap_simps]: "gget (gdel m k) k' = (if k' = k then None else gget m k')"
  by (simp add: gget_def gdel_def delete_conv')

lemma gmap_ok_Nil [simp]: "gmap_ok []"
  by (simp add: gmap_ok_def)

lemma gmap_ok_gput [simp]: "gmap_ok m \<Longrightarrow> gmap_ok (gput m k v)"
  by (simp add: gmap_ok_def gput_def distinct_update)

lemma gmap_ok_gdel [simp]: "gmap_ok m \<Longrightarrow> gmap_ok (gdel m k)"
  by (simp add: gmap_ok_def gdel_def distinct_delete)

lemma set_gkeys: "set (gkeys m) = dom (gget m)"
  unfolding gkeys_def gget_def [abs_def] by (simp add: dom_map_of_conv_image_fst)

lemma gget_None_iff: "gget m k = None \<longleftrightarrow> k \<notin> set (gkeys m)"
  by (auto simp: set_gkeys)

lemma gget_Some_in: "gget m k = Some v \<Longrightarrow> k \<in> set (gkeys m)"
  by (auto simp: set_gkeys)

lemma set_gkeys_gput [gomap_simps]: "set (gkeys (gput m k v)) = insert k (set (gkeys m))"
  by (auto simp: set_gkeys dom_def gget_gput)

lemma set_gkeys_gdel [gomap_simps]: "set (gkeys (gdel m k)) = set (gkeys m) - {k}"
  by (auto simp: set_gkeys dom_def gget_gdel)

lemma gmap_ok_gget: "gmap_ok m \<Longrightarrow> (k, v) \<in> set m \<longleftrightarrow> gget m k = Some v"
  by (simp add: gmap_ok_def gget_def)

lemma gmap_ok_distinct_gkeys: "gmap_ok m \<Longrightarrow> distinct (gkeys m)"
  by (simp add: gmap_ok_def gkeys_def)

lemma length_gmap: "gmap_ok m \<Longrightarrow> length m = card (set (gkeys m))"
  unfolding gmap_ok_def gkeys_def by (metis distinct_card length_map)

lemma gput_new: "k \<notin> fst ` set m \<Longrightarrow> gput m k v = m @ [(k, v)]"
  unfolding gput_def by (induction m) auto

lemma gcopy_id: "gmap_ok m \<Longrightarrow> gcopy m = m"
proof (induction m rule: rev_induct)
  case (snoc x m)
  then show ?case by (cases x) (simp add: gcopy_def gmap_ok_def gput_new)
qed (simp add: gcopy_def)

section \<open>Interfaces\<close>

text \<open>An encoder with the decoder that inverts it on the valid values; a canonical one accepts
  nothing but encodings (among the inputs of a given shape).\<close>

locale codec =
  fixes enc :: "'a \<Rightarrow> 'b" and dec :: "'b \<Rightarrow> 'e + 'a" and valid :: "'a \<Rightarrow> bool"
  assumes dec_enc: "valid x \<Longrightarrow> dec (enc x) = Inr x"
begin

lemma enc_inj: "valid x \<Longrightarrow> valid y \<Longrightarrow> enc x = enc y \<longleftrightarrow> x = y"
  by (metis dec_enc sum.inject(2))

end

locale canonical_codec = codec +
  fixes wf :: "'b \<Rightarrow> bool"
  assumes enc_dec: "wf b \<Longrightarrow> dec b = Inr x \<Longrightarrow> valid x \<and> enc x = b"
begin

lemma dec_iff: "wf b \<Longrightarrow> dec b = Inr x \<longleftrightarrow> valid x \<and> b = enc x"
  using dec_enc enc_dec by blast

lemma dec_unique: "wf b \<Longrightarrow> wf b' \<Longrightarrow> dec b = Inr x \<Longrightarrow> dec b' = Inr x \<Longrightarrow> b = b'"
  using enc_dec by metis

end

text \<open>A loop body that keeps an invariant on the inputs it is meant for.\<close>

locale preserving_loop =
  fixes body :: "'x \<Rightarrow> 'a \<Rightarrow> ('s, 'e, 'a) stm" and inv :: "'a \<Rightarrow> bool" and admit :: "'x \<Rightarrow> bool"
  assumes body_inv: "inv a \<Longrightarrow> admit x \<Longrightarrow> body x a s = (Inr a', s') \<Longrightarrow> inv a'"
begin

lemma loop_inv: "inv a \<Longrightarrow> list_all admit xs \<Longrightarrow> foldS body xs a s = (Inr a', s') \<Longrightarrow> inv a'"
proof (induction xs arbitrary: a s)
  case (Cons x xs)
  then show ?case using body_inv [of a x s] by (auto simp: bindS_Inr)
qed (simp add: returnS_def)

end

end
