(* ===== verification/Rlp_Encode.thy ===== *)
theory Rlp_Encode
  imports Go_Prelude
begin

text \<open>
  The RLP encoder of \<open>src/rlp/encode.go\<close>.  A Go value is a \<open>goval\<close>, one constructor per kind of
  type that \<open>makeWriter\<close> dispatches on; \<open>writer\<close> is the writer that \<open>makeWriter\<close> selects for it.
  The encoder does not know the size of a list before its elements are written: it collects the
  string data and the list headers apart (\<open>encbuf\<close>) and \<open>toBytes\<close> and \<open>toWriter\<close> merge them.
  The reference encoding is \<open>rlp_item\<close> on the tree \<open>item\<close> of strings and lists.
\<close>

section \<open>Sizes and headers\<close>

datatype rlp_error =
    EOF | ErrUnexpectedEOF | EOL
  | ErrExpectedString | ErrExpectedList | ErrCanonInt | ErrCanonSize
  | ErrElemTooLarge | ErrValueTooLarge | ErrMoreThanOneValue
  | errNotInList | errNotAtEOL | errUintOverflow
  | errNegativeBigInt | errInvalidBool u64
  | errTooFewElements | errStringTooLong | errStringTooShort
  | decodeError rlp_error
  | NilValue | OutOfRange | OutOfFuel

definition putint :: "u64 \<Rightarrow> bytes" where
  "putint i =
     (if i < 0x100 then [byte_of i 0]
      else if i < 0x10000 then [byte_of i 8, byte_of i 0]
      else if i < 0x1000000 then [byte_of i 16, byte_of i 8, byte_of i 0]
      else if i < 0x100000000 then [byte_of i 24, byte_of i 16, byte_of i 8, byte_of i 0]
      else if i < 0x10000000000 then
        [byte_of i 32, byte_of i 24, byte_of i 16, byte_of i 8, byte_of i 0]
      else if i < 0x1000000000000 then
        [byte_of i 40, byte_of i 32, byte_of i 24, byte_of i 16, byte_of i 8, byte_of i 0]
      else if i < 0x100000000000000 then
        [byte_of i 48, byte_of i 40, byte_of i 32, byte_of i 24, byte_of i 16, byte_of i 8,
         byte_of i 0]
      else
        [byte_of i 56, byte_of i 48, byte_of i 40, byte_of i 32, byte_of i 24, byte_of i 16,
         byte_of i 8, byte_of i 0])"

function intsize :: "u64 \<Rightarrow> nat" where
  "intsize i = (let i' = drop_bit 8 i in if i' = 0 then 1 else Suc (intsize i'))"
  by pat_completeness auto

termination intsize
proof (relation "measure unat")
  fix i i' :: u64
  assume eq: "i' = drop_bit 8 i" and nz: "i' \<noteq> 0"
  from eq have "unat i' = unat i div 256" by (simp add: unat_drop_bit_u64)
  moreover from nz have "unat i' \<noteq> 0" by (simp add: unat_eq_0)
  ultimately show "(i', i) \<in> measure unat" by simp
qed simp

declare intsize.simps [simp del]

text \<open>\<open>putint\<close> writes the minimal big-endian form of a positive number, and one zero byte for 0.\<close>

lemma nat_be_digits:
  "256 ^ k \<le> n \<Longrightarrow> n < 256 ^ Suc k \<Longrightarrow>
   nat_be n = map (\<lambda>j. of_nat (n div 256 ^ j)) (rev [0..<Suc k])"
proof (induction k arbitrary: n)
  case 0
  then show ?case by (simp add: nat_be_pos)
next
  case (Suc k)
  from Suc.prems have "256 ^ k \<le> n div 256" "n div 256 < 256 ^ Suc k"
    by (simp_all add: less_eq_div_iff_mult_less_eq div_less_iff_less_mult mult.commute)
  then have "nat_be (n div 256) = map (\<lambda>j. of_nat (n div 256 div 256 ^ j)) (rev [0..<Suc k])"
    by (rule Suc.IH)
  also have "\<dots> = map (\<lambda>j. of_nat (n div 256 ^ j)) (rev [Suc 0..<Suc (Suc k)])"
    unfolding map_Suc_upt [symmetric] rev_map map_map
    by (simp add: comp_def div_mult2_eq)
  finally have IH: "nat_be (n div 256) = \<dots>" .
  have "n \<noteq> 0" using Suc.prems(1) by (cases n) auto
  moreover have "(of_nat (n mod 256) :: byte) = of_nat n"
    by (rule word_unat_eq_iff [THEN iffD2]) simp
  moreover have "[0..<Suc (Suc k)] = 0 # [Suc 0..<Suc (Suc k)]"
    by (simp add: upt_conv_Cons del: upt_Suc)
  ultimately show ?case using IH by (simp add: nat_be_pos del: upt_Suc)
qed

lemma byte_of_nat: "byte_of i (8 * j) = of_nat (unat i div 256 ^ j)"
proof -
  have "(2 :: nat) ^ (8 * j) = 256 ^ j" by (simp add: power_mult)
  then show ?thesis by (intro word_unat_eq_iff [THEN iffD2]) (simp add: unat_byte_of)
qed

lemma putint_nat_be: "i \<noteq> 0 \<Longrightarrow> putint i = nat_be (unat i)"
proof -
  assume "i \<noteq> 0"
  have less: "unat i < 2 ^ 64" using unsigned_less [of i, where ?'a = nat] by simp
  have nz: "unat i \<noteq> 0" using \<open>i \<noteq> 0\<close> by (simp add: unat_eq_0)
  note b = byte_of_nat [of i 0, simplified] byte_of_nat [of i 1, simplified]
    byte_of_nat [of i 2, simplified] byte_of_nat [of i 3, simplified]
    byte_of_nat [of i 4, simplified] byte_of_nat [of i 5, simplified]
    byte_of_nat [of i 6, simplified] byte_of_nat [of i 7, simplified]
  consider (0) "unat i < 256" | (1) "256 \<le> unat i" "unat i < 0x10000"
    | (2) "0x10000 \<le> unat i" "unat i < 0x1000000"
    | (3) "0x1000000 \<le> unat i" "unat i < 0x100000000"
    | (4) "0x100000000 \<le> unat i" "unat i < 0x10000000000"
    | (5) "0x10000000000 \<le> unat i" "unat i < 0x1000000000000"
    | (6) "0x1000000000000 \<le> unat i" "unat i < 0x100000000000000"
    | (7) "0x100000000000000 \<le> unat i"
    by linarith
  then show ?thesis
  proof cases
    case 0
    then show ?thesis using nz nat_be_digits [of 0 "unat i"]
      by (simp add: putint_def b word_less_nat_alt)
  next
    case 1
    then show ?thesis using nat_be_digits [of 1 "unat i"]
      by (simp add: putint_def b word_less_nat_alt upt_rec)
  next
    case 2
    then show ?thesis using nat_be_digits [of 2 "unat i"]
      by (simp add: putint_def b word_less_nat_alt upt_rec)
  next
    case 3
    then show ?thesis using nat_be_digits [of 3 "unat i"]
      by (simp add: putint_def b word_less_nat_alt upt_rec)
  next
    case 4
    then show ?thesis using nat_be_digits [of 4 "unat i"]
      by (simp add: putint_def b word_less_nat_alt upt_rec)
  next
    case 5
    then show ?thesis using nat_be_digits [of 5 "unat i"]
      by (simp add: putint_def b word_less_nat_alt upt_rec)
  next
    case 6
    then show ?thesis using nat_be_digits [of 6 "unat i"]
      by (simp add: putint_def b word_less_nat_alt upt_rec)
  next
    case 7
    then show ?thesis using less nat_be_digits [of 7 "unat i"]
      by (simp add: putint_def b word_less_nat_alt upt_rec)
  qed
qed

lemma intsize_nat_be: "i \<noteq> 0 \<Longrightarrow> intsize i = length (nat_be (unat i))"
proof (induction i rule: intsize.induct)
  case (1 i)
  define i' where "i' = drop_bit 8 i"
  have unat_i': "unat i' = unat i div 256" by (simp add: i'_def unat_drop_bit_u64)
  have "unat i \<noteq> 0" using 1(2) by (simp add: unat_eq_0)
  then have split: "length (nat_be (unat i)) = Suc (length (nat_be (unat i')))"
    unfolding unat_i' using nat_be_pos [of "unat i"] by simp
  have step: "intsize i = (if i' = 0 then 1 else Suc (intsize i'))"
    by (subst intsize.simps) (simp only: Let_def i'_def)
  show ?case
  proof (cases "i' = 0")
    case True
    with step split show ?thesis by simp
  next
    case False
    with 1(1) [OF i'_def] have "intsize i' = length (nat_be (unat i'))" by blast
    with False step split show ?thesis by simp
  qed
qed

definition headsize :: "u64 \<Rightarrow> nat" where
  "headsize sz = (if sz < 56 then 1 else 1 + intsize sz)"

definition puthead :: "byte \<Rightarrow> byte \<Rightarrow> u64 \<Rightarrow> bytes" where
  "puthead smalltag largetag sz =
     (if sz < 56 then [smalltag + ucast sz]
      else let sizebytes = putint sz
           in (largetag + of_nat (length sizebytes)) # sizebytes)"

lemma length_puthead [simp]: "length (puthead s l n) = headsize n"
proof (cases "n < 56")
  case False
  then have "n \<noteq> 0" by auto
  with False show ?thesis
    by (simp add: puthead_def headsize_def Let_def putint_nat_be intsize_nat_be)
qed (simp add: puthead_def headsize_def)

section \<open>The encoding buffer\<close>

text \<open>
  A list header in \<open>lheads\<close> is a pointer in the source; here it is named by its index.  Sizes and
  offsets are Go \<open>int\<close>s that are never negative, so they are natural numbers.
\<close>

record listhead =
  offset :: nat
  lsize :: nat

record encbuf =
  str :: bytes
  lheads :: "listhead list"
  lhsize :: nat

definition listhead_encode :: "listhead \<Rightarrow> bytes" where
  "listhead_encode head = puthead 0xC0 0xF7 (of_nat (lsize head))"

definition encbuf_reset :: "encbuf \<Rightarrow> encbuf" where
  "encbuf_reset w = w\<lparr>lhsize := 0, str := [], lheads := []\<rparr>"

definition encbuf_Write :: "bytes \<Rightarrow> encbuf \<Rightarrow> encbuf" where
  "encbuf_Write b w = w\<lparr>str := str w @ b\<rparr>"

definition encbuf_size :: "encbuf \<Rightarrow> nat" where
  "encbuf_size w = length (str w) + lhsize w"

definition encodeStringHeader :: "nat \<Rightarrow> encbuf \<Rightarrow> encbuf" where
  "encodeStringHeader n w =
     (if n < 56 then w\<lparr>str := str w @ [0x80 + of_nat n]\<rparr>
      else let sizebytes = putint (of_nat n)
           in w\<lparr>str := str w @ (0xB7 + of_nat (length sizebytes)) # sizebytes\<rparr>)"

definition encodeString :: "bytes \<Rightarrow> encbuf \<Rightarrow> encbuf" where
  "encodeString b w =
     (if length b = 1 \<and> b ! 0 \<le> 0x7F then w\<lparr>str := str w @ [b ! 0]\<rparr>
      else let w' = encodeStringHeader (length b) w in w'\<lparr>str := str w' @ b\<rparr>)"

definition encbuf_list :: "encbuf \<Rightarrow> encbuf \<times> nat" where
  "encbuf_list w =
     (w\<lparr>lheads := lheads w @ [\<lparr>offset = length (str w), lsize = lhsize w\<rparr>]\<rparr>,
      length (lheads w))"

definition listEnd :: "nat \<Rightarrow> encbuf \<Rightarrow> encbuf" where
  "listEnd lh w =
     (let head = lheads w ! lh;
          n = encbuf_size w - offset head - lsize head
      in w\<lparr>lheads := (lheads w)[lh := head\<lparr>lsize := n\<rparr>],
           lhsize := lhsize w + (if n < 56 then 1 else 1 + intsize (of_nat n))\<rparr>)"

text \<open>Go's \<open>copy(out[pos:], src)\<close>, and a header written at \<open>out[pos:]\<close>, which panics when it
  does not fit.\<close>

definition copy_at :: "bytes \<Rightarrow> nat \<Rightarrow> bytes \<Rightarrow> bytes" where
  "copy_at out pos src =
     (let n = min (length out - pos) (length src)
      in take pos out @ take n src @ drop (pos + n) out)"

definition write_at :: "bytes \<Rightarrow> nat \<Rightarrow> bytes \<Rightarrow> rlp_error + bytes" where
  "write_at out pos src =
     (if pos + length src \<le> length out then Inr (copy_at out pos src) else Inl OutOfRange)"

primrec toBytes_loop :: "bytes \<Rightarrow> listhead list \<Rightarrow> bytes \<Rightarrow> nat \<Rightarrow> nat \<Rightarrow> rlp_error + bytes" where
  "toBytes_loop s [] out strpos pos = Inr (copy_at out pos (drop strpos s))"
| "toBytes_loop s (head # heads) out strpos pos =
     (let piece = take (offset head - strpos) (drop strpos s);
          n = min (length out - pos) (length piece);
          out1 = copy_at out pos piece;
          enc = listhead_encode head
      in bindE (write_at out1 (pos + n) enc)
           (\<lambda>out2. toBytes_loop s heads out2 (strpos + n) (pos + n + length enc)))"

definition toBytes :: "encbuf \<Rightarrow> rlp_error + bytes" where
  "toBytes w = toBytes_loop (str w) (lheads w) (replicate (encbuf_size w) 0) 0 0"

text \<open>\<open>toWriter\<close> issues the same pieces as separate writes; here to a writer that accepts them
  all, such as a hash or a buffer.\<close>

primrec toWriter_loop :: "bytes \<Rightarrow> listhead list \<Rightarrow> nat \<Rightarrow> bytes list" where
  "toWriter_loop s [] strpos = (if strpos < length s then [drop strpos s] else [])"
| "toWriter_loop s (head # heads) strpos =
     (if offset head - strpos > 0
      then take (offset head - strpos) (drop strpos s) # listhead_encode head
             # toWriter_loop s heads (strpos + length (take (offset head - strpos) (drop strpos s)))
      else listhead_encode head # toWriter_loop s heads strpos)"

definition toWriter :: "encbuf \<Rightarrow> bytes list" where
  "toWriter w = toWriter_loop (str w) (lheads w) 0"

section \<open>Writers\<close>

text \<open>
  The kinds of value \<open>makeWriter\<close> distinguishes.  \<open>GBytes\<close> is a byte slice or a byte array,
  \<open>GTail\<close> a slice with the \<open>tail\<close> struct tag; a nil pointer is one of three cases of
  \<open>makePtrWriter\<close>: to a byte array, to another array or a struct, to anything else (with the zero
  value of that type).
\<close>

datatype goval =
    GRaw bytes
  | GUint u64
  | GBool bool
  | GBigIntPtr "int option"
  | GBigInt int
  | GBytes bytes
  | GString bytes
  | GNilInterface
  | GInterface goval
  | GSlice "goval list"
  | GTail "goval list"
  | GStruct "goval list"
  | GPtr goval
  | GNilPtrBytes
  | GNilPtrStruct
  | GNilPtr goval

definition writeUint :: "u64 \<Rightarrow> encbuf \<Rightarrow> encbuf" where
  "writeUint i w =
     (if i = 0 then w\<lparr>str := str w @ [0x80]\<rparr>
      else if i < 128 then w\<lparr>str := str w @ [byte_of i 0]\<rparr>
      else let s = putint i in w\<lparr>str := str w @ (0x80 + of_nat (length s)) # s\<rparr>)"

definition writeBool :: "bool \<Rightarrow> encbuf \<Rightarrow> encbuf" where
  "writeBool b w = (if b then w\<lparr>str := str w @ [0x01]\<rparr> else w\<lparr>str := str w @ [0x80]\<rparr>)"

definition writeBigInt :: "int \<Rightarrow> encbuf \<Rightarrow> rlp_error + encbuf" where
  "writeBigInt i w =
     (if i < 0 then Inl errNegativeBigInt
      else if i = 0 then Inr (w\<lparr>str := str w @ [0x80]\<rparr>)
      else Inr (encodeString (nat_be (nat i)) w))"

definition writeBigIntPtr :: "int option \<Rightarrow> encbuf \<Rightarrow> rlp_error + encbuf" where
  "writeBigIntPtr p w =
     (case p of None \<Rightarrow> Inr (w\<lparr>str := str w @ [0x80]\<rparr>) | Some i \<Rightarrow> writeBigInt i w)"

definition writeString :: "bytes \<Rightarrow> encbuf \<Rightarrow> encbuf" where
  "writeString s w =
     (if length s = 1 \<and> s ! 0 \<le> 0x7F then w\<lparr>str := str w @ [s ! 0]\<rparr>
      else let w' = encodeStringHeader (length s) w in w'\<lparr>str := str w' @ s\<rparr>)"

fun writer :: "goval \<Rightarrow> encbuf \<Rightarrow> rlp_error + encbuf"
and writer_elems :: "goval list \<Rightarrow> encbuf \<Rightarrow> rlp_error + encbuf" where
  "writer (GRaw b) w = Inr (w\<lparr>str := str w @ b\<rparr>)"
| "writer (GUint i) w = Inr (writeUint i w)"
| "writer (GBool b) w = Inr (writeBool b w)"
| "writer (GBigIntPtr p) w = writeBigIntPtr p w"
| "writer (GBigInt i) w = writeBigInt i w"
| "writer (GBytes b) w = Inr (encodeString b w)"
| "writer (GString s) w = Inr (writeString s w)"
| "writer GNilInterface w = Inr (w\<lparr>str := str w @ [0xC0]\<rparr>)"
| "writer (GInterface v) w = writer v w"
| "writer (GSlice vs) w =
     (let (w', lh) = encbuf_list w in bindE (writer_elems vs w') (\<lambda>w''. Inr (listEnd lh w'')))"
| "writer (GTail vs) w = writer_elems vs w"
| "writer (GStruct fs) w =
     (let (w', lh) = encbuf_list w in bindE (writer_elems fs w') (\<lambda>w''. Inr (listEnd lh w'')))"
| "writer (GPtr v) w = writer v w"
| "writer GNilPtrBytes w = Inr (w\<lparr>str := str w @ [0x80]\<rparr>)"
| "writer GNilPtrStruct w = (let (w', lh) = encbuf_list w in Inr (listEnd lh w'))"
| "writer (GNilPtr zero) w = writer zero w"
| "writer_elems [] w = Inr w"
| "writer_elems (v # vs) w = bindE (writer v w) (writer_elems vs)"

text \<open>
  \<open>reflect.ValueOf\<close> takes its argument out of the interface it is passed in; a nil interface gives the
  zero \<open>Value\<close>, on which the \<open>Type\<close> that \<open>encode\<close> asks for panics (\<open>NilValue\<close>).  Inside a slice or a
  struct a nil interface has a static type, and the writer of interfaces writes an empty list.
\<close>

fun reflect_ValueOf :: "goval \<Rightarrow> goval option" where
  "reflect_ValueOf GNilInterface = None"
| "reflect_ValueOf (GInterface v) = reflect_ValueOf v"
| "reflect_ValueOf v = Some v"

definition encbuf_encode :: "goval \<Rightarrow> encbuf \<Rightarrow> rlp_error + encbuf" where
  "encbuf_encode val w = (case reflect_ValueOf val of None \<Rightarrow> Inl NilValue | Some rval \<Rightarrow> writer rval w)"

lemma encbuf_encode_writer: "reflect_ValueOf val \<noteq> None \<Longrightarrow> encbuf_encode val w = writer val w"
  by (induction val rule: reflect_ValueOf.induct) (simp_all add: encbuf_encode_def)

text \<open>\<open>eb\<close> is the buffer that \<open>encbufPool.Get\<close> hands out, with whatever an earlier use left in it.\<close>

definition EncodeToBytes :: "encbuf \<Rightarrow> goval \<Rightarrow> rlp_error + bytes" where
  "EncodeToBytes eb val = bindE (encbuf_encode val (encbuf_reset eb)) toBytes"

definition Encode :: "encbuf \<Rightarrow> goval \<Rightarrow> rlp_error + bytes list" where
  "Encode eb val = bindE (encbuf_encode val (encbuf_reset eb)) (\<lambda>w. Inr (toWriter w))"

end
