(* ===== verification/Rlp_Reference.thy ===== *)
theory Rlp_Reference
  imports Rlp_Encode
begin

text \<open>
  The reference RLP encoding and the proof that the buffered encoder computes it.  The encoder
  extends its buffer by a fragment (string data and list headers at relative offsets) that depends
  on the value alone; merging a fragment (\<open>render\<close>) turns concatenation of fragments into
  concatenation of byte strings.
\<close>

section \<open>The reference encoding\<close>

datatype item = Str bytes | Lst "item list"

definition rlp_head :: "byte \<Rightarrow> byte \<Rightarrow> nat \<Rightarrow> bytes" where
  "rlp_head small large n =
     (if n < 56 then [small + of_nat n]
      else (large + of_nat (length (nat_be n))) # nat_be n)"

definition rlp_string :: "bytes \<Rightarrow> bytes" where
  "rlp_string b = (if length b = 1 \<and> hd b < 0x80 then b else rlp_head 0x80 0xB7 (length b) @ b)"

definition rlp_list :: "bytes \<Rightarrow> bytes" where
  "rlp_list payload = rlp_head 0xC0 0xF7 (length payload) @ payload"

fun rlp_item :: "item \<Rightarrow> bytes" where
  "rlp_item (Str b) = rlp_string b"
| "rlp_item (Lst xs) = rlp_list (concat (map rlp_item xs))"

text \<open>The item a Go value stands for (a raw value stands for no item of its own).\<close>

fun ref_encode :: "goval \<Rightarrow> rlp_error + bytes"
and ref_encode_elems :: "goval list \<Rightarrow> rlp_error + bytes" where
  "ref_encode (GRaw b) = Inr b"
| "ref_encode (GUint i) = Inr (rlp_string (nat_be (unat i)))"
| "ref_encode (GBool b) = Inr (rlp_string (if b then [1] else []))"
| "ref_encode (GBigIntPtr p) =
     (case p of None \<Rightarrow> Inr (rlp_string [])
      | Some i \<Rightarrow> if i < 0 then Inl errNegativeBigInt else Inr (rlp_string (nat_be (nat i))))"
| "ref_encode (GBigInt i) =
     (if i < 0 then Inl errNegativeBigInt else Inr (rlp_string (nat_be (nat i))))"
| "ref_encode (GBytes b) = Inr (rlp_string b)"
| "ref_encode (GString s) = Inr (rlp_string s)"
| "ref_encode GNilInterface = Inr (rlp_list [])"
| "ref_encode (GInterface v) = ref_encode v"
| "ref_encode (GSlice vs) = bindE (ref_encode_elems vs) (\<lambda>p. Inr (rlp_list p))"
| "ref_encode (GTail vs) = ref_encode_elems vs"
| "ref_encode (GStruct fs) = bindE (ref_encode_elems fs) (\<lambda>p. Inr (rlp_list p))"
| "ref_encode (GPtr v) = ref_encode v"
| "ref_encode GNilPtrBytes = Inr (rlp_string [])"
| "ref_encode GNilPtrStruct = Inr (rlp_list [])"
| "ref_encode (GNilPtr zero) = ref_encode zero"
| "ref_encode_elems [] = Inr []"
| "ref_encode_elems (v # vs) =
     bindE (ref_encode v) (\<lambda>b. bindE (ref_encode_elems vs) (\<lambda>bs. Inr (b @ bs)))"

section \<open>Headers agree\<close>

lemma unat_of_nat_u64 [simp]: "n < 2 ^ 64 \<Longrightarrow> unat (of_nat n :: u64) = n"
  by (simp add: unat_of_nat)

lemma of_nat_less_56: "n < 2 ^ 64 \<Longrightarrow> (of_nat n :: u64) < 56 \<longleftrightarrow> n < 56"
  by (simp add: word_less_nat_alt)

lemma of_nat_u64_eq_0: "n < 2 ^ 64 \<Longrightarrow> (of_nat n :: u64) = 0 \<longleftrightarrow> n = 0"
  by (metis unat_0 unat_of_nat_u64 word_unat_eq_iff)

lemma ucast_of_nat_byte: "n < 256 \<Longrightarrow> (ucast (of_nat n :: u64) :: byte) = of_nat n"
  by (rule word_unat_eq_iff [THEN iffD2]) (simp add: unsigned_ucast_eq take_bit_eq_mod)

lemma puthead_rlp_head: "n < 2 ^ 64 \<Longrightarrow> puthead s l (of_nat n) = rlp_head s l n"
  by (auto simp: puthead_def rlp_head_def of_nat_less_56 putint_nat_be of_nat_u64_eq_0 Let_def
      ucast_of_nat_byte)

lemma headsize_rlp_head: "n < 2 ^ 64 \<Longrightarrow> headsize (of_nat n) = length (rlp_head s l n)"
  using puthead_rlp_head [of n s l] length_puthead [of s l "of_nat n"] by simp

lemma encodeStringHeader_eq:
  "n < 2 ^ 64 \<Longrightarrow> encodeStringHeader n w = w\<lparr>str := str w @ rlp_head 0x80 0xB7 n\<rparr>"
  by (auto simp: encodeStringHeader_def rlp_head_def putint_nat_be of_nat_u64_eq_0 Let_def)

lemma byte_le_7F: "(x :: byte) \<le> 0x7F \<longleftrightarrow> x < 0x80"
  by (auto simp: word_le_nat_alt word_less_nat_alt)

lemma encodeString_eq:
  "length b < 2 ^ 64 \<Longrightarrow> encodeString b w = w\<lparr>str := str w @ rlp_string b\<rparr>"
  by (cases b) (auto simp: encodeString_def rlp_string_def encodeStringHeader_eq byte_le_7F Let_def)

lemma writeString_eq:
  "length b < 2 ^ 64 \<Longrightarrow> writeString b w = w\<lparr>str := str w @ rlp_string b\<rparr>"
  by (cases b) (auto simp: writeString_def rlp_string_def encodeStringHeader_eq byte_le_7F Let_def)

lemma rlp_string_Nil [simp]: "rlp_string [] = [0x80]"
  by (simp add: rlp_string_def rlp_head_def)

lemma rlp_list_Nil: "rlp_list [] = [0xC0]"
  by (simp add: rlp_list_def rlp_head_def)

lemma length_rlp_string_ge: "length b \<le> length (rlp_string b)"
  by (simp add: rlp_string_def)

lemma length_rlp_list_ge: "length p \<le> length (rlp_list p)"
  by (simp add: rlp_list_def)

lemma nat_be_small: "0 < n \<Longrightarrow> n < 256 \<Longrightarrow> nat_be n = [of_nat n]"
  by (simp add: nat_be_pos)

lemma length_nat_be_eq_1: "length (nat_be n) = 1 \<longleftrightarrow> 0 < n \<and> n < 256"
  using length_nat_be_le [of n 1] nat_be_eq_Nil [of n] by (cases "nat_be n") auto

lemma writeUint_eq: "writeUint i w = w\<lparr>str := str w @ rlp_string (nat_be (unat i))\<rparr>"
proof (cases "i < 128")
  case True
  then have lt: "unat i < 128" by (simp add: word_less_nat_alt)
  have b: "byte_of i 0 = of_nat (unat i)" using byte_of_nat [of i 0] by simp
  show ?thesis
  proof (cases "i = 0")
    case False
    then have "0 < unat i" by (simp add: unat_gt_0)
    moreover have "(of_nat (unat i) :: byte) < 0x80"
      using lt by (simp only: word_less_nat_alt unat_of_nat_byte) simp
    ultimately show ?thesis using False True lt
      by (simp add: writeUint_def b rlp_string_def nat_be_small)
  qed (simp add: writeUint_def)
next
  case False
  then have ge: "128 \<le> unat i" and nz: "i \<noteq> 0"
    by (auto simp: word_less_nat_alt)
  have len: "length (nat_be (unat i)) < 56" using length_nat_be_u64 [of i] by linarith
  have "\<not> (length (nat_be (unat i)) = 1 \<and> hd (nat_be (unat i)) < 0x80)"
  proof
    assume *: "length (nat_be (unat i)) = 1 \<and> hd (nat_be (unat i)) < 0x80"
    then have lt: "unat i < 256" by (simp only: length_nat_be_eq_1)
    then have "hd (nat_be (unat i)) = of_nat (unat i)" using ge by (simp add: nat_be_small)
    moreover have "unat (of_nat (unat i) :: byte) = unat i"
      using lt by (simp only: unat_of_nat_byte mod_less)
    ultimately show False using * ge by (simp only: word_less_nat_alt) simp
  qed
  with False nz len show ?thesis
    by (simp add: writeUint_def rlp_string_def rlp_head_def putint_nat_be Let_def)
qed

section \<open>Fragments\<close>

type_synonym frag = "bytes \<times> listhead list"

definition shift :: "nat \<Rightarrow> listhead \<Rightarrow> listhead" where
  "shift k h = h\<lparr>offset := offset h + k\<rparr>"

definition heads_size :: "listhead list \<Rightarrow> nat" where
  "heads_size hs = sum_list (map (\<lambda>h. headsize (of_nat (lsize h))) hs)"

definition extend :: "encbuf \<Rightarrow> frag \<Rightarrow> encbuf" where
  "extend w f = (case f of (s, hs) \<Rightarrow>
     w\<lparr>str := str w @ s, lheads := lheads w @ map (shift (length (str w))) hs,
       lhsize := lhsize w + heads_size hs\<rparr>)"

definition frag_append :: "frag \<Rightarrow> frag \<Rightarrow> frag" where
  "frag_append f g = (case (f, g) of ((s, hs), (t, ks)) \<Rightarrow> (s @ t, hs @ map (shift (length s)) ks))"

definition frag_list :: "frag \<Rightarrow> frag" where
  "frag_list f = (case f of (s, hs) \<Rightarrow>
     (s, \<lparr>offset = 0, lsize = length s + heads_size hs\<rparr> # hs))"

definition wf_frag :: "frag \<Rightarrow> bool" where
  "wf_frag f = (case f of (s, hs) \<Rightarrow>
     sorted (map offset hs) \<and> (\<forall>h \<in> set hs. offset h \<le> length s))"

primrec render_from :: "bytes \<Rightarrow> listhead list \<Rightarrow> nat \<Rightarrow> bytes" where
  "render_from s [] p = drop p s"
| "render_from s (h # hs) p =
     take (offset h - p) (drop p s) @ listhead_encode h @ render_from s hs (offset h)"

definition render :: "frag \<Rightarrow> bytes" where
  "render f = (case f of (s, hs) \<Rightarrow> render_from s hs 0)"

lemma shift_simps [simp]:
  "offset (shift k h) = offset h + k"
  "lsize (shift k h) = lsize h"
  "shift 0 h = h"
  "shift j (shift k h) = shift (j + k) h"
  by (simp_all add: shift_def add.commute add.left_commute)

lemma shift_comp [simp]: "shift j \<circ> shift k = shift (j + k)"
  by (simp add: fun_eq_iff)

lemma listhead_encode_shift [simp]: "listhead_encode (shift k h) = listhead_encode h"
  by (simp add: listhead_encode_def)

lemma heads_size_simps [simp]:
  "heads_size [] = 0"
  "heads_size (h # hs) = headsize (of_nat (lsize h)) + heads_size hs"
  "heads_size (hs @ ks) = heads_size hs + heads_size ks"
  "heads_size (map (shift k) hs) = heads_size hs"
  by (simp_all add: heads_size_def comp_def)

lemma extend_append: "extend (extend w f) g = extend w (frag_append f g)"
  by (cases f; cases g) (simp add: extend_def frag_append_def)

lemma extend_str: "w\<lparr>str := str w @ s\<rparr> = extend w (s, [])"
  by (simp add: extend_def)

lemma extend_Nil: "w = extend w ([], [])"
  by (simp add: extend_def)

text \<open>The size of a list is known when the list ends: all that was added since it began.\<close>

lemma list_region:
  assumes "length (fst f) + heads_size (snd f) < 2 ^ 64"
  shows "listEnd (snd (encbuf_list w)) (extend (fst (encbuf_list w)) f) = extend w (frag_list f)"
proof (cases f)
  case (Pair s hs)
  let ?n = "length s + heads_size hs"
  let ?w = "extend (fst (encbuf_list w)) f"
  have head: "lheads ?w ! snd (encbuf_list w) = \<lparr>offset = length (str w), lsize = lhsize w\<rparr>"
    by (simp add: Pair extend_def encbuf_list_def nth_append)
  have n: "encbuf_size ?w - length (str w) - lhsize w = ?n"
    by (simp add: Pair extend_def encbuf_list_def encbuf_size_def)
  have hsz: "(if ?n < 56 then 1 else 1 + intsize (of_nat ?n)) = headsize (of_nat ?n)"
    using assms Pair by (simp only: headsize_def of_nat_less_56 fst_conv snd_conv)
  show ?thesis
    unfolding listEnd_def head Let_def listhead.simps n hsz
    by (simp add: Pair extend_def encbuf_list_def frag_list_def shift_def list_update_append
        del: of_nat_add)
qed

section \<open>Merging fragments\<close>

lemma render_from_shift:
  "render_from (s @ t) (map (shift (length s)) hs) (length s + q) = render_from t hs q"
  by (induction hs arbitrary: q) (simp_all add: add.commute [of _ "length s"])

lemma render_from_append:
  assumes "sorted (map offset hs)" "\<forall>h \<in> set hs. p \<le> offset h \<and> offset h \<le> length s"
    "p \<le> length s"
  shows "render_from (s @ t) (hs @ map (shift (length s)) ks) p = render_from s hs p @ render_from t ks 0"
  using assms
proof (induction hs arbitrary: p)
  case Nil
  show ?case
  proof (cases ks)
    case Nil
    with Nil.prems show ?thesis by simp
  next
    case (Cons k ks')
    have "render_from (s @ t) (map (shift (length s)) ks') (offset k + length s)
        = render_from t ks' (offset k)"
      using render_from_shift [of s t ks' "offset k"] by (simp add: add.commute)
    with Cons Nil.prems show ?thesis by simp
  qed
next
  case (Cons h hs)
  then have "render_from (s @ t) (hs @ map (shift (length s)) ks) (offset h)
    = render_from s hs (offset h) @ render_from t ks 0"
    by (intro Cons.IH) auto
  with Cons.prems show ?case by simp
qed

lemma render_append: "wf_frag f \<Longrightarrow> render (frag_append f g) = render f @ render g"
  by (cases f; cases g) (simp add: render_def frag_append_def wf_frag_def render_from_append)

lemma sorted_shift: "sorted (map offset ks) \<Longrightarrow> sorted (map (\<lambda>k. offset k + n) ks)"
  by (induction ks) auto

lemma wf_frag_append: "wf_frag f \<Longrightarrow> wf_frag g \<Longrightarrow> wf_frag (frag_append f g)"
  by (cases f; cases g)
     (auto simp: wf_frag_def frag_append_def sorted_append comp_def sorted_shift trans_le_add2)

lemma wf_frag_list: "wf_frag f \<Longrightarrow> wf_frag (frag_list f)"
  by (cases f) (auto simp: wf_frag_def frag_list_def)

lemma wf_frag_str [simp]: "wf_frag (s, [])"
  by (simp add: wf_frag_def)

lemma render_str [simp]: "render (s, []) = s"
  by (simp add: render_def)

lemma length_piece:
  "offset h \<le> length s \<Longrightarrow> length (take (offset h - p) (drop p s)) = offset h - p"
  by (simp add: min_absorb2 diff_le_mono)

lemma length_render_from:
  assumes "sorted (map offset hs)" "\<forall>h \<in> set hs. p \<le> offset h \<and> offset h \<le> length s"
    "p \<le> length s"
  shows "length (render_from s hs p) = length s - p + heads_size hs"
  using assms
proof (induction hs arbitrary: p)
  case (Cons h hs)
  then have "length (render_from s hs (offset h)) = length s - offset h + heads_size hs"
    by (intro Cons.IH) auto
  moreover have "p \<le> offset h" "offset h \<le> length s" using Cons.prems by auto
  ultimately show ?case
    by (simp add: length_piece listhead_encode_def del: length_take)
qed simp

lemma length_render: "wf_frag f \<Longrightarrow> length (render f) = length (fst f) + heads_size (snd f)"
  by (cases f) (simp add: render_def wf_frag_def length_render_from)

lemma render_list:
  assumes "wf_frag f" "length (render f) < 2 ^ 64"
  shows "render (frag_list f) = rlp_list (render f)"
proof (cases f)
  case (Pair s hs)
  have len: "length s + heads_size hs = length (render_from s hs 0)"
    using length_render [OF assms(1)] Pair by (simp add: render_def)
  then show ?thesis
    using assms(2) Pair
    by (simp add: render_def frag_list_def rlp_list_def listhead_encode_def puthead_rlp_head del: of_nat_add)
qed

section \<open>The buffered encoder computes the reference encoding\<close>

definition emits :: "(encbuf \<Rightarrow> rlp_error + encbuf) \<Rightarrow> bytes \<Rightarrow> bool" where
  "emits m bs \<longleftrightarrow> (\<exists>f. wf_frag f \<and> render f = bs \<and> (\<forall>w. m w = Inr (extend w f)))"

lemma emits_str: "(\<And>w. m w = Inr (w\<lparr>str := str w @ s\<rparr>)) \<Longrightarrow> emits m s"
  unfolding emits_def by (intro exI [of _ "(s, [])"]) (simp add: extend_str)

lemma emits_append:
  assumes "emits m bs" "emits n cs"
  shows "emits (\<lambda>w. bindE (m w) n) (bs @ cs)"
proof -
  from assms obtain f g where f: "wf_frag f" "render f = bs" "\<And>w. m w = Inr (extend w f)"
    and g: "wf_frag g" "render g = cs" "\<And>w. n w = Inr (extend w g)"
    unfolding emits_def by metis
  then show ?thesis unfolding emits_def
    by (intro exI [of _ "frag_append f g"]) (simp add: wf_frag_append render_append extend_append)
qed

lemma emits_list:
  assumes "emits m bs" "length bs < 2 ^ 64"
  shows "emits (\<lambda>w. let (w', lh) = encbuf_list w in bindE (m w') (\<lambda>w''. Inr (listEnd lh w'')))
     (rlp_list bs)"
proof -
  from assms(1) obtain f where f: "wf_frag f" "render f = bs" "\<And>w. m w = Inr (extend w f)"
    unfolding emits_def by metis
  then have "length (fst f) + heads_size (snd f) < 2 ^ 64"
    using length_render [of f] assms(2) by simp
  note region = list_region [OF this]
  show ?thesis unfolding emits_def
  proof (intro exI [of _ "frag_list f"] conjI allI)
    show "wf_frag (frag_list f)" using f(1) by (rule wf_frag_list)
    show "render (frag_list f) = rlp_list bs" using f assms(2) by (simp add: render_list)
    show "(let (w', lh) = encbuf_list w in bindE (m w') (\<lambda>w''. Inr (listEnd lh w'')))
      = Inr (extend w (frag_list f))" for w
      using region [of w] by (simp add: Let_def case_prod_beta f(3))
  qed
qed

lemma emits_nil: "emits Inr []"
  unfolding emits_def by (intro exI [of _ "([], [])"]) (simp add: extend_def)

lemma emits_rlp_string:
  "length (rlp_string b) < 2 ^ 64 \<Longrightarrow> emits (\<lambda>w. Inr (encodeString b w)) (rlp_string b)"
  using length_rlp_string_ge [of b] by (intro emits_str) (simp add: encodeString_eq)

lemma emits_bigint:
  "0 \<le> i \<Longrightarrow> length (rlp_string (nat_be (nat i))) < 2 ^ 64 \<Longrightarrow>
   emits (writeBigInt i) (rlp_string (nat_be (nat i)))"
proof (cases "i = 0")
  case True
  then show ?thesis by (auto intro!: emits_str simp: writeBigInt_def)
next
  case False
  assume "0 \<le> i" "length (rlp_string (nat_be (nat i))) < 2 ^ 64"
  then show ?thesis using False length_rlp_string_ge [of "nat_be (nat i)"]
    by (intro emits_str) (simp add: writeBigInt_def encodeString_eq)
qed

lemma emits_nilstruct: "emits (\<lambda>w. let (w', lh) = encbuf_list w in Inr (listEnd lh w')) (rlp_list [])"
  using emits_list [OF emits_nil] by simp

lemma writer_emits:
  "ref_encode v = Inr bs \<Longrightarrow> length bs < 2 ^ 64 \<Longrightarrow> emits (writer v) bs"
  "ref_encode_elems vs = Inr bs \<Longrightarrow> length bs < 2 ^ 64 \<Longrightarrow> emits (writer_elems vs) bs"
proof (induction v and vs arbitrary: bs and bs rule: ref_encode_ref_encode_elems.induct)
  case (1 b)
  then show ?case by (auto intro!: emits_str)
next
  case (2 i)
  then show ?case by (auto intro!: emits_str simp: writeUint_eq)
next
  case (3 b)
  then show ?case by (auto intro!: emits_str simp: writeBool_def rlp_string_def rlp_head_def)
next
  case (4 p)
  then show ?case
  proof (cases p)
    case None
    with 4 show ?thesis by (auto intro!: emits_str simp: writeBigIntPtr_def)
  next
    case (Some i)
    with 4 have "0 \<le> i" "bs = rlp_string (nat_be (nat i))" by (auto split: if_splits)
    moreover have "writer (GBigIntPtr p) = writeBigInt i"
      by (simp add: fun_eq_iff writeBigIntPtr_def Some)
    ultimately show ?thesis using 4 emits_bigint [of i] by simp
  qed
next
  case (5 i)
  then have "0 \<le> i" "bs = rlp_string (nat_be (nat i))" by (auto split: if_splits)
  moreover have "writer (GBigInt i) = writeBigInt i" by (simp add: fun_eq_iff)
  ultimately show ?case using 5 emits_bigint [of i] by simp
next
  case (6 b)
  moreover have "writer (GBytes b) = (\<lambda>w. Inr (encodeString b w))" by (simp add: fun_eq_iff)
  ultimately show ?case using emits_rlp_string [of b] by simp
next
  case (7 s)
  then show ?case using length_rlp_string_ge [of s] by (auto intro!: emits_str simp: writeString_eq)
next
  case 8
  then show ?case by (auto intro!: emits_str simp: rlp_list_Nil)
next
  case (9 v)
  moreover have "writer (GInterface v) = writer v" by (simp add: fun_eq_iff)
  ultimately show ?case by simp
next
  case (10 vs)
  then obtain p where p: "ref_encode_elems vs = Inr p" "bs = rlp_list p" by auto
  then have "length p < 2 ^ 64" using 10 length_rlp_list_ge [of p] by simp
  moreover have "writer (GSlice vs) = (\<lambda>w. let (w', lh) = encbuf_list w
      in bindE (writer_elems vs w') (\<lambda>w''. Inr (listEnd lh w'')))"
    by (simp add: fun_eq_iff)
  ultimately show ?case using 10 p emits_list by simp
next
  case (11 vs)
  moreover have "writer (GTail vs) = writer_elems vs" by (simp add: fun_eq_iff)
  ultimately show ?case by simp
next
  case (12 vs)
  then obtain p where p: "ref_encode_elems vs = Inr p" "bs = rlp_list p" by auto
  then have "length p < 2 ^ 64" using 12 length_rlp_list_ge [of p] by simp
  moreover have "writer (GStruct vs) = (\<lambda>w. let (w', lh) = encbuf_list w
      in bindE (writer_elems vs w') (\<lambda>w''. Inr (listEnd lh w'')))"
    by (simp add: fun_eq_iff)
  ultimately show ?case using 12 p emits_list by simp
next
  case (13 v)
  moreover have "writer (GPtr v) = writer v" by (simp add: fun_eq_iff)
  ultimately show ?case by simp
next
  case 14
  then show ?case by (auto intro!: emits_str)
next
  case 15
  moreover have "writer GNilPtrStruct = (\<lambda>w. let (w', lh) = encbuf_list w in Inr (listEnd lh w'))"
    by (simp add: fun_eq_iff)
  ultimately show ?case using emits_nilstruct by simp
next
  case (16 v)
  moreover have "writer (GNilPtr v) = writer v" by (simp add: fun_eq_iff)
  ultimately show ?case by simp
next
  case 17
  moreover have "writer_elems [] = Inr" by (simp add: fun_eq_iff)
  ultimately show ?case using emits_nil by simp
next
  case (18 v vs)
  then obtain b cs where b: "ref_encode v = Inr b" "ref_encode_elems vs = Inr cs" "bs = b @ cs"
    by auto
  with 18 have "emits (writer v) b" "emits (writer_elems vs) cs" by simp_all
  moreover have "writer_elems (v # vs) = (\<lambda>w. bindE (writer v w) (writer_elems vs))"
    by (simp add: fun_eq_iff)
  ultimately show ?case using b emits_append by simp
qed


lemma copy_at_prefix:
  "length pre + length src \<le> length (pre @ rest) \<Longrightarrow>
   copy_at (pre @ rest) (length pre) src = pre @ src @ drop (length src) rest"
  by (simp add: copy_at_def Let_def min_absorb2)

lemma toBytes_loop_render:
  assumes "sorted (map offset hs)" "\<forall>h \<in> set hs. p \<le> offset h \<and> offset h \<le> length s"
    "p \<le> length s" "length rest = length (render_from s hs p)"
  shows "toBytes_loop s hs (pre @ rest) p (length pre) = Inr (pre @ render_from s hs p)"
  using assms
proof (induction hs arbitrary: p pre rest)
  case Nil
  then show ?case using copy_at_prefix [of pre "drop p s" rest] by simp
next
  case (Cons h hs)
  define piece where "piece = take (offset h - p) (drop p s)"
  define enc where "enc = listhead_encode h"
  let ?out1 = "(pre @ piece) @ drop (length piece) rest"
  let ?out2 = "(pre @ piece @ enc) @ drop (length enc + length piece) rest"
  have lp: "p + length piece = offset h"
    unfolding piece_def using Cons.prems(2) by (subst length_piece) auto
  have rest: "length rest = length piece + length enc + length (render_from s hs (offset h))"
    using Cons.prems(4) by (simp add: piece_def enc_def)
  have c1: "copy_at (pre @ rest) (length pre) piece = ?out1"
    using rest by (subst copy_at_prefix) simp_all
  have c2: "copy_at ?out1 (length (pre @ piece)) enc = ?out2"
    using rest by (subst copy_at_prefix) simp_all
  have n: "min (length (pre @ rest) - length pre) (length piece) = length piece"
    using rest by simp
  have "toBytes_loop s (h # hs) (pre @ rest) p (length pre)
      = bindE (write_at ?out1 (length pre + length piece) enc)
          (\<lambda>out2. toBytes_loop s hs out2 (p + length piece) (length pre + length piece + length enc))"
    by (simp only: toBytes_loop.simps Let_def piece_def [symmetric] enc_def [symmetric] c1 n)
  also have "write_at ?out1 (length pre + length piece) enc = Inr ?out2"
    using rest c2 by (simp add: write_at_def)
  also have "bindE (Inr ?out2)
        (\<lambda>out2. toBytes_loop s hs out2 (p + length piece) (length pre + length piece + length enc))
      = toBytes_loop s hs ?out2 (offset h) (length (pre @ piece @ enc))"
    by (simp add: lp add.assoc)
  also have "\<dots> = Inr ((pre @ piece @ enc) @ render_from s hs (offset h))"
    using Cons.prems rest by (intro Cons.IH) auto
  finally show ?case by (simp add: piece_def enc_def)
qed

lemma toWriter_loop_render:
  assumes "sorted (map offset hs)" "\<forall>h \<in> set hs. p \<le> offset h \<and> offset h \<le> length s"
    "p \<le> length s"
  shows "concat (toWriter_loop s hs p) = render_from s hs p"
  using assms
proof (induction hs arbitrary: p)
  case (Cons h hs)
  then have IH: "concat (toWriter_loop s hs (offset h)) = render_from s hs (offset h)"
    by (intro Cons.IH) auto
  have "p + length (take (offset h - p) (drop p s)) = offset h"
    using Cons.prems(2) by (subst length_piece) auto
  then have "concat (toWriter_loop s (h # hs) p)
    = take (offset h - p) (drop p s) @ listhead_encode h @ concat (toWriter_loop s hs (offset h))"
    by (cases "p < offset h") simp_all
  then show ?case by (simp only: IH render_from.simps)
qed simp

lemma extend_reset:
  "extend (encbuf_reset eb) (s, hs) = (encbuf_reset eb)\<lparr>str := s, lheads := hs, lhsize := heads_size hs\<rparr>"
  by (simp add: extend_def encbuf_reset_def map_idI)

lemma toBytes_render:
  assumes "wf_frag f"
  shows "toBytes (extend (encbuf_reset eb) f) = Inr (render f)"
proof (cases f)
  case (Pair s hs)
  have "length (replicate (length s + heads_size hs) (0 :: byte)) = length (render_from s hs 0)"
    using length_render [OF assms] Pair by (simp add: render_def)
  then show ?thesis
    using assms toBytes_loop_render [of hs 0 s "replicate (length s + heads_size hs) 0" "[]"] Pair
    by (simp add: toBytes_def extend_reset encbuf_size_def render_def wf_frag_def)
qed

lemma toWriter_render:
  "wf_frag f \<Longrightarrow> concat (toWriter (extend (encbuf_reset eb) f)) = render f"
  by (cases f) (simp add: toWriter_def extend_reset toWriter_loop_render render_def wf_frag_def)

lemma EncodeToBytes_Inr:
  assumes "ref_encode v = Inr bs" "length bs < 2 ^ 64" "reflect_ValueOf v \<noteq> None"
  shows "EncodeToBytes eb v = Inr bs"
    and "\<exists>ws. Encode eb v = Inr ws \<and> concat ws = bs"
proof -
  from writer_emits(1) [OF assms(1,2)] obtain f where
    f: "wf_frag f" "render f = bs" "\<And>w. encbuf_encode v w = Inr (extend w f)"
    unfolding emits_def encbuf_encode_writer [OF assms(3)] by metis
  show "EncodeToBytes eb v = Inr bs"
    using f by (simp add: EncodeToBytes_def toBytes_render)
  show "\<exists>ws. Encode eb v = Inr ws \<and> concat ws = bs"
    using f by (simp add: Encode_def toWriter_render)
qed

text \<open>The encoder fails exactly where the reference does, with the same error.\<close>

abbreviation outcome :: "'e + 'a \<Rightarrow> 'e + unit" where
  "outcome r \<equiv> map_sum id (\<lambda>_. ()) r"

lemma writer_outcome:
  "outcome (writer v w) = outcome (ref_encode v)"
  "outcome (writer_elems vs w) = outcome (ref_encode_elems vs)"
proof (induction v and vs arbitrary: w and w rule: ref_encode_ref_encode_elems.induct)
  case (4 p)
  show ?case by (auto simp: writeBigIntPtr_def writeBigInt_def split: option.split)
next
  case (5 i)
  show ?case by (simp add: writeBigInt_def)
next
  case (10 vs)
  obtain w' lh where "encbuf_list w = (w', lh)" by fastforce
  with 10 [of w'] show ?case by (cases "writer_elems vs w'"; cases "ref_encode_elems vs") auto
next
  case (12 vs)
  obtain w' lh where "encbuf_list w = (w', lh)" by fastforce
  with 12 [of w'] show ?case by (cases "writer_elems vs w'"; cases "ref_encode_elems vs") auto
next
  case (18 v vs)
  show ?case
  proof (cases "ref_encode v")
    case (Inl e)
    with 18(1) [of w] show ?thesis by (cases "writer v w") auto
  next
    case (Inr b)
    with 18(1) [of w] obtain w' where w': "writer v w = Inr w'" by (cases "writer v w") auto
    with 18(2) [of w'] Inr show ?thesis
      by (cases "writer_elems vs w'"; cases "ref_encode_elems vs") auto
  qed
qed (simp_all add: case_prod_beta)

lemma EncodeToBytes_Inl:
  assumes "ref_encode v = Inl e" "reflect_ValueOf v \<noteq> None"
  shows "EncodeToBytes eb v = Inl e" and "Encode eb v = Inl e"
proof -
  have "writer v (encbuf_reset eb) = Inl e"
    using writer_outcome(1) [of v "encbuf_reset eb"] assms
    by (cases "writer v (encbuf_reset eb)") auto
  then show "EncodeToBytes eb v = Inl e" and "Encode eb v = Inl e"
    by (simp_all add: EncodeToBytes_def Encode_def encbuf_encode_writer [OF assms(2)])
qed

end
