(* ===== verification/Rlp_Raw.thy ===== *)
theory Rlp_Raw
  imports Rlp_Reference
begin

text \<open>
  Reading RLP headers: \<open>src/rlp/raw.go\<close> on byte slices.  \<open>hdr\<close> is the header of the reference
  encoding, on natural numbers; the code's \<open>readKind\<close> (here) and \<open>Stream.Kind\<close> (theory
  \<open>Rlp_Stream\<close>) are both related to it, so what a header means is proved once.
\<close>

section \<open>Splitting byte slices (raw.go)\<close>

datatype Kind = Byte | String | List

text \<open>Case \<open>n\<close> of the switch in \<open>readSize\<close> is this expression on the first \<open>n\<close> bytes.\<close>

primrec shift_or :: "bytes \<Rightarrow> u64" where
  "shift_or [] = 0"
| "shift_or (b # bs) = push_bit (8 * length bs) (ucast b) OR shift_or bs"

definition readSize :: "bytes \<Rightarrow> byte \<Rightarrow> rlp_error + u64" where
  "readSize b slen =
     (if unat slen > length b then Inl ErrUnexpectedEOF
      else let s = shift_or (take (unat slen) b)
           in if s < 56 \<or> b ! 0 = 0 then Inl ErrCanonSize else Inr s)"

definition readKind :: "bytes \<Rightarrow> rlp_error + Kind \<times> u64 \<times> u64" where
  "readKind buf = (case buf of [] \<Rightarrow> Inl ErrUnexpectedEOF | b # buf1 \<Rightarrow>
     bindE
       (if b < 0x80 then Inr (Byte, 0, 1)
        else if b < 0xB8 then
          (let contentsize = ucast (b - 0x80)
           in if contentsize = 1 \<and> length buf > 1 \<and> buf ! 1 < 128 then Inl ErrCanonSize
              else Inr (String, 1, contentsize))
        else if b < 0xC0 then
          bindE (readSize buf1 (b - 0xB7)) (\<lambda>cs. Inr (String, ucast (b - 0xB7) + 1, cs))
        else if b < 0xF8 then Inr (List, 1, ucast (b - 0xC0))
        else bindE (readSize buf1 (b - 0xF7)) (\<lambda>cs. Inr (List, ucast (b - 0xF7) + 1, cs)))
       (\<lambda>(k, tagsize, contentsize).
          if contentsize > of_nat (length buf) - tagsize then Inl ErrValueTooLarge
          else Inr (k, tagsize, contentsize)))"

definition Split :: "bytes \<Rightarrow> rlp_error + Kind \<times> bytes \<times> bytes" where
  "Split b = bindE (readKind b) (\<lambda>(k, ts, cs).
     Inr (k, take (unat cs) (drop (unat ts) b), drop (unat (ts + cs)) b))"

definition SplitString :: "bytes \<Rightarrow> rlp_error + bytes \<times> bytes" where
  "SplitString b = bindE (Split b) (\<lambda>(k, content, rest).
     if k = List then Inl ErrExpectedString else Inr (content, rest))"

definition SplitList :: "bytes \<Rightarrow> rlp_error + bytes \<times> bytes" where
  "SplitList b = bindE (Split b) (\<lambda>(k, content, rest).
     if k \<noteq> List then Inl ErrExpectedList else Inr (content, rest))"

text \<open>Each turn of the loop in \<open>CountValues\<close> consumes at least one byte, so the length of the slice is
  enough fuel (\<open>CountValues_no_fuel\<close>).\<close>

fun CountValues_loop :: "nat \<Rightarrow> bytes \<Rightarrow> nat \<Rightarrow> rlp_error + nat" where
  "CountValues_loop fuel [] i = Inr i"
| "CountValues_loop 0 (b # bs) i = Inl OutOfFuel"
| "CountValues_loop (Suc fuel) (b # bs) i =
     bindE (readKind (b # bs)) (\<lambda>(k, tagsize, sz).
       CountValues_loop fuel (drop (unat (tagsize + sz)) (b # bs)) (Suc i))"

definition CountValues :: "bytes \<Rightarrow> rlp_error + nat" where
  "CountValues b = CountValues_loop (length b) b 0"

definition ListSize :: "u64 \<Rightarrow> u64" where
  "ListSize contentSize = of_nat (headsize contentSize) + contentSize"

section \<open>Headers\<close>

definition long_hdr :: "Kind \<Rightarrow> nat \<Rightarrow> bytes \<Rightarrow> (Kind \<times> nat \<times> nat) option" where
  "long_hdr k l t =
     (if l \<le> length t \<and> no_leading_zero (take l t) \<and> 56 \<le> be_nat (take l t)
      then Some (k, be_nat (take l t), Suc l) else None)"

text \<open>The kind, the content size and the header size of the value ahead; a single byte is its own
  header and has no content.\<close>

definition hdr :: "bytes \<Rightarrow> (Kind \<times> nat \<times> nat) option" where
  "hdr inp = (case inp of [] \<Rightarrow> None | b # t \<Rightarrow>
     if b < 0x80 then Some (Byte, 0, 1)
     else if b < 0xB8 then Some (String, unat b - 0x80, 1)
     else if b < 0xC0 then long_hdr String (unat b - 0xB7) t
     else if b < 0xF8 then Some (List, unat b - 0xC0, 1)
     else long_hdr List (unat b - 0xF7) t)"

text \<open>The header bytes the reference writes for a kind and a size.\<close>

definition head_bytes :: "Kind \<Rightarrow> nat \<Rightarrow> bytes" where
  "head_bytes k n = (if k = List then rlp_head 0xC0 0xF7 n else rlp_head 0x80 0xB7 n)"

lemma length_nat_be_ge56: "56 \<le> n \<Longrightarrow> n < 2 ^ 64 \<Longrightarrow> 1 \<le> length (nat_be n) \<and> length (nat_be n) \<le> 8"
  using length_nat_be_le [of n 8] nat_be_eq_Nil [of n] by (cases "nat_be n") auto

lemma unat_add_small: "unat (a :: byte) + n < 256 \<Longrightarrow> unat (a + of_nat n) = unat a + n"
  by (simp add: unat_word_ariths)

lemma hdr_head_bytes:
  assumes "n < 2 ^ 64" "k \<noteq> Byte"
  shows "hdr (head_bytes k n @ t) = Some (k, n, length (head_bytes k n))"
proof (cases "n < 56")
  case True
  have "unat (0x80 + of_nat n :: byte) = 0x80 + n" "unat (0xC0 + of_nat n :: byte) = 0xC0 + n"
    using True by (simp_all add: unat_add_small)
  with True assms show ?thesis
    by (cases k) (simp_all add: hdr_def head_bytes_def rlp_head_def word_less_nat_alt)
next
  case False
  let ?l = "length (nat_be n)"
  have l: "1 \<le> ?l" "?l \<le> 8" using False assms(1) length_nat_be_ge56 [of n] by auto
  have u: "unat (0xB7 + of_nat ?l :: byte) = 0xB7 + ?l" "unat (0xF7 + of_nat ?l :: byte) = 0xF7 + ?l"
    using l by (simp_all add: unat_add_small)
  have "long_hdr k ?l (nat_be n @ t) = Some (k, n, Suc ?l)"
    using False by (simp add: long_hdr_def)
  with False assms(2) l u show ?thesis
    by (cases k) (simp_all add: hdr_def head_bytes_def rlp_head_def word_less_nat_alt)
qed

lemma long_hdr_inv:
  assumes "long_hdr k l t = Some (k', n, h)" "1 \<le> l" "l \<le> 8"
  shows "k' = k \<and> h = Suc l \<and> 56 \<le> n \<and> n < 2 ^ 64 \<and> length (nat_be n) = l
    \<and> t = nat_be n @ drop l t"
proof -
  from assms(1) have l: "l \<le> length t" "no_leading_zero (take l t)" "56 \<le> n"
    "n = be_nat (take l t)" "k' = k" "h = Suc l"
    by (auto simp: long_hdr_def split: if_splits)
  then have be: "nat_be n = take l t" by (simp add: nat_be_be_nat)
  moreover have "n < 256 ^ l" using be_nat_less [of "take l t"] l by simp
  moreover have "(256 :: nat) ^ l \<le> 256 ^ 8" using assms(3) by (intro power_increasing) auto
  ultimately show ?thesis using l by simp
qed

lemma byte_eq_add:
  "unat a \<le> unat (b :: byte) \<Longrightarrow> b = a + of_nat (unat b - unat a)"
  by (simp add: of_nat_diff)

lemma hdr_inv:
  assumes "hdr inp = Some (k, n, h)" "k \<noteq> Byte"
  shows "n < 2 ^ 64 \<and> length (head_bytes k n) = h \<and> inp = head_bytes k n @ drop h inp"
proof -
  from assms obtain b t where inp: "inp = b # t" by (cases inp) (auto simp: hdr_def)
  note u = word_less_nat_alt not_less
  consider (1) "0x80 \<le> unat b" "unat b < 0xB8" | (2) "0xB8 \<le> unat b" "unat b < 0xC0"
    | (3) "0xC0 \<le> unat b" "unat b < 0xF8" | (4) "0xF8 \<le> unat b"
    using assms inp by (auto simp: hdr_def u split: if_splits)
  then show ?thesis
  proof cases
    case 1
    then show ?thesis using assms inp byte_eq_add [of "0x80" b]
      by (auto simp: hdr_def u head_bytes_def rlp_head_def split: if_splits)
  next
    case 2
    let ?l = "unat b - 0xB7"
    from 2 assms inp have "long_hdr String ?l t = Some (k, n, h)" by (simp add: hdr_def u)
    moreover have "1 \<le> ?l" "?l \<le> 8" using 2 by linarith+
    ultimately have "k = String \<and> h = Suc ?l \<and> 56 \<le> n \<and> n < 2 ^ 64 \<and> length (nat_be n) = ?l
      \<and> t = nat_be n @ drop ?l t"
      by (rule long_hdr_inv)
    then show ?thesis using 2 inp byte_eq_add [of "0xB7" b]
      by (auto simp: head_bytes_def rlp_head_def)
  next
    case 3
    then show ?thesis using assms inp byte_eq_add [of "0xC0" b]
      by (auto simp: hdr_def u head_bytes_def rlp_head_def split: if_splits)
  next
    case 4
    let ?l = "unat b - 0xF7"
    from 4 assms inp have "long_hdr List ?l t = Some (k, n, h)" by (simp add: hdr_def u)
    moreover have "1 \<le> ?l" "?l \<le> 8" using 4 unat_byte_less [of b] by linarith+
    ultimately have "k = List \<and> h = Suc ?l \<and> 56 \<le> n \<and> n < 2 ^ 64 \<and> length (nat_be n) = ?l
      \<and> t = nat_be n @ drop ?l t"
      by (rule long_hdr_inv)
    then show ?thesis using 4 inp byte_eq_add [of "0xF7" b]
      by (auto simp: head_bytes_def rlp_head_def)
  qed
qed

lemma hdr_Byte: "hdr inp = Some (Byte, n, h) \<longleftrightarrow> (\<exists>b t. inp = b # t \<and> b < 0x80 \<and> n = 0 \<and> h = 1)"
  by (cases inp) (auto simp: hdr_def long_hdr_def split: if_splits)

lemma hdr_length:
  assumes "hdr inp = Some (k, n, h)"
  shows "1 \<le> h" "h \<le> 9" "h \<le> length inp"
proof -
  have "1 \<le> h \<and> h \<le> 9 \<and> h \<le> length inp"
  proof (cases "k = Byte")
    case True
    with assms show ?thesis by (auto simp: hdr_Byte)
  next
    case False
    from hdr_inv [OF assms False] have "n < 2 ^ 64" "length (head_bytes k n) = h"
      "inp = head_bytes k n @ drop h inp" by auto
    moreover from this have "h \<le> length inp" by (metis le_add1 length_append)
    moreover have "1 \<le> length (head_bytes k n) \<and> length (head_bytes k n) \<le> 9"
      using length_nat_be_ge56 [of n] \<open>n < 2 ^ 64\<close> by (auto simp: head_bytes_def rlp_head_def)
    ultimately show ?thesis by simp
  qed
  then show "1 \<le> h" "h \<le> 9" "h \<le> length inp" by auto
qed

section \<open>The code's header reader\<close>

lemma unat_ucast_byte [simp]: "unat (ucast (b :: byte) :: u64) = unat b"
  using order_less_trans [OF unat_byte_less [of b], of "2 ^ 64"]
  by (simp add: unsigned_ucast_eq take_bit_nat_eq_self)

lemma unat_shift_or: "length bs \<le> 8 \<Longrightarrow> unat (shift_or bs) = be_nat bs"
proof (induction bs)
  case (Cons b bs)
  let ?hi = "push_bit (8 * length bs) (ucast b :: u64)"
  from Cons have IH: "unat (shift_or bs) = be_nat bs" by simp
  have len: "8 * length bs \<le> 56" using Cons.prems by simp
  have pow: "(256 :: nat) ^ length bs = 2 ^ (8 * length bs)" by (simp add: power_mult)
  have lt: "be_nat bs < 2 ^ (8 * length bs)" using be_nat_less [of bs] pow by simp
  have "?hi AND shift_or bs = 0"
  proof (rule bit_eqI)
    fix j
    have "take_bit (8 * length bs) (shift_or bs) = shift_or bs"
      using lt IH by (simp add: word_unat_eq_iff unsigned_take_bit_eq take_bit_nat_eq_self)
    then have "\<not> bit (shift_or bs) j" if "8 * length bs \<le> j"
      using that by (metis bit_take_bit_iff not_less)
    then show "bit (?hi AND shift_or bs) j \<longleftrightarrow> bit (0 :: u64) j"
      by (auto simp: bit_simps)
  qed
  then have "shift_or (b # bs) = ?hi + shift_or bs"
    by (simp add: disjunctive_add_eq_or)
  moreover have "unat ?hi = unat b * 2 ^ (8 * length bs)"
  proof -
    have "unat b * 2 ^ (8 * length bs) < 256 * 2 ^ (8 * length bs)" by simp
    also have "\<dots> \<le> 256 * 2 ^ 56" using len by (intro mult_left_mono power_increasing) auto
    finally show ?thesis
      unfolding unsigned_push_bit_eq by (simp add: push_bit_eq_mult take_bit_nat_eq_self)
  qed
  moreover have "be_nat (b # bs) < 2 ^ 64"
  proof -
    have "be_nat (b # bs) < 256 ^ Suc (length bs)" using be_nat_less [of "b # bs"] by simp
    also have "\<dots> \<le> 256 ^ 8" using Cons.prems by (intro power_increasing) auto
    finally show ?thesis by simp
  qed
  ultimately show ?case
    by (simp add: unat_word_ariths IH be_nat_Cons pow)
qed simp

lemma ucast_diff_byte:
  "unat c \<le> unat (b :: byte) \<Longrightarrow> (ucast (b - c) :: u64) = of_nat (unat b - unat c)"
  by (rule word_unat_eq_iff [THEN iffD2])
     (use unat_byte_less [of b] in \<open>simp add: unat_sub word_le_nat_alt unat_of_nat\<close>)

lemma readSize_eq:
  assumes "1 \<le> unat slen" "unat slen \<le> 8"
  shows "readSize b slen =
    (if unat slen > length b then Inl ErrUnexpectedEOF
     else if no_leading_zero (take (unat slen) b) \<and> 56 \<le> be_nat (take (unat slen) b)
     then Inr (of_nat (be_nat (take (unat slen) b))) else Inl ErrCanonSize)"
proof (cases "unat slen > length b")
  case False
  let ?t = "take (unat slen) b"
  from assms False obtain x xs where b: "b = x # xs" by (cases b) auto
  with assms have t: "?t = x # take (unat slen - 1) xs" by (cases "unat slen") auto
  have u: "unat (shift_or ?t) = be_nat ?t" using assms by (intro unat_shift_or) simp
  then have "shift_or ?t = of_nat (be_nat ?t)" by (metis of_nat_unat ucast_id)
  moreover have "shift_or ?t < 56 \<longleftrightarrow> be_nat ?t < 56" using u by (simp add: word_less_nat_alt)
  ultimately show ?thesis using False b t by (auto simp: readSize_def Let_def)
qed (simp add: readSize_def)

lemma of_nat_diff_less:
  "h \<le> l \<Longrightarrow> l < 2 ^ 64 \<Longrightarrow> n < 2 ^ 64 \<Longrightarrow> (of_nat l - of_nat h :: u64) < of_nat n \<longleftrightarrow> l < h + n"
  by (auto simp: word_less_nat_alt simp flip: of_nat_diff)

lemma readKind_Byte:
  assumes "hdr buf = Some (Byte, n, h)" "length buf < 2 ^ 64"
  shows "readKind buf = Inr (Byte, 0, 1)"
proof -
  from assms(1) obtain b t where buf: "buf = b # t" "b < 0x80" by (auto simp: hdr_Byte)
  with assms(2) have "(of_nat (length (b # t)) :: u64) \<noteq> 0"
    by (subst of_nat_u64_eq_0) simp_all
  with buf show ?thesis by (simp add: readKind_def del: of_nat_Suc)
qed

lemma readKind_hdr:
  assumes "hdr buf = Some (k, n, h)" "k \<noteq> Byte" "length buf < 2 ^ 64"
  shows "readKind buf =
    (if k = String \<and> n = 1 \<and> length buf > 1 \<and> buf ! 1 < 128 then Inl ErrCanonSize
     else if length buf < h + n then Inl ErrValueTooLarge
     else Inr (k, of_nat h, of_nat n))"
proof -
  from assms obtain b t where buf: "buf = b # t" by (cases buf) (auto simp: hdr_def)
  note u = word_less_nat_alt not_less
  have h: "h \<le> length buf" "n < 2 ^ 64" using assms hdr_length hdr_inv by blast+
  note final = of_nat_diff_less [OF h(1) assms(3) h(2)]
  consider (1) "0x80 \<le> unat b" "unat b < 0xB8" | (2) "0xB8 \<le> unat b" "unat b < 0xC0"
    | (3) "0xC0 \<le> unat b" "unat b < 0xF8" | (4) "0xF8 \<le> unat b"
    using assms buf by (auto simp: hdr_def u split: if_splits)
  then show ?thesis
  proof cases
    case 1
    then have *: "k = String" "n = unat b - 0x80" "h = 1"
      using assms(1) buf by (auto simp: hdr_def u)
    have n: "(ucast (b - 0x80) :: u64) = of_nat n" using 1 * ucast_diff_byte [of "0x80" b] by simp
    have "(of_nat n :: u64) = 1 \<longleftrightarrow> n = 1"
      using h(2) by (metis of_nat_1 unat_1 unat_of_nat_u64)
    moreover have "readKind buf =
      (if (of_nat n :: u64) = 1 \<and> length buf > 1 \<and> buf ! 1 < 128 then Inl ErrCanonSize
       else if of_nat (length buf) - 1 < (of_nat n :: u64) then Inl ErrValueTooLarge
       else Inr (String, 1, of_nat n))"
      using 1 by (simp add: readKind_def buf u n Let_def)
    ultimately show ?thesis using *(1,3) final by simp
  next
    case 2
    then have l: "unat (b - 0xB7) = unat b - 0xB7" by (simp add: unat_sub word_le_nat_alt)
    from 2 assms(1) buf have "long_hdr String (unat b - 0xB7) t = Some (k, n, h)"
      by (simp add: hdr_def u)
    then have *: "k = String" "n = be_nat (take (unat b - 0xB7) t)" "h = Suc (unat b - 0xB7)"
      and rs: "readSize t (b - 0xB7) = Inr (of_nat n)" and "n \<noteq> 1"
      using readSize_eq [of "b - 0xB7" t] 2 l by (auto simp: long_hdr_def split: if_splits)
    have ts: "(ucast (b - 0xB7) + 1 :: u64) = of_nat h"
      using 2 * ucast_diff_byte [of "0xB7" b] by simp
    have "readKind buf =
      (if of_nat (length buf) - (ucast (b - 0xB7) + 1) < (of_nat n :: u64) then Inl ErrValueTooLarge
       else Inr (String, ucast (b - 0xB7) + 1, of_nat n))"
      using 2 by (simp add: readKind_def buf u rs)
    then show ?thesis unfolding ts using *(1) final \<open>n \<noteq> 1\<close> by simp
  next
    case 3
    then have *: "k = List" "n = unat b - 0xC0" "h = 1"
      using assms(1) buf by (auto simp: hdr_def u)
    have n: "(ucast (b - 0xC0) :: u64) = of_nat n" using 3 * ucast_diff_byte [of "0xC0" b] by simp
    show ?thesis using 3 * buf final unfolding readKind_def by (auto simp: u n)
  next
    case 4
    then have l: "unat (b - 0xF7) = unat b - 0xF7" by (simp add: unat_sub word_le_nat_alt)
    have l8: "unat b - 0xF7 \<le> 8" using unat_byte_less [of b] by linarith
    from 4 assms(1) buf have "long_hdr List (unat b - 0xF7) t = Some (k, n, h)"
      by (simp add: hdr_def u)
    then have *: "k = List" "n = be_nat (take (unat b - 0xF7) t)" "h = Suc (unat b - 0xF7)"
      and rs: "readSize t (b - 0xF7) = Inr (of_nat n)"
      using readSize_eq [of "b - 0xF7" t] 4 l l8 by (auto simp: long_hdr_def split: if_splits)
    have ts: "(ucast (b - 0xF7) + 1 :: u64) = of_nat h"
      using 4 * ucast_diff_byte [of "0xF7" b] by simp
    have "readKind buf =
      (if of_nat (length buf) - (ucast (b - 0xF7) + 1) < (of_nat n :: u64) then Inl ErrValueTooLarge
       else Inr (List, ucast (b - 0xF7) + 1, of_nat n))"
      using 4 by (simp add: readKind_def buf u rs)
    then show ?thesis unfolding ts using *(1) final by simp
  qed
qed

lemma readSize_Inl:
  "1 \<le> l \<Longrightarrow> l \<le> 8 \<Longrightarrow> unat slen = l \<Longrightarrow> long_hdr k l t = None \<Longrightarrow>
   \<exists>e. readSize t slen = Inl e \<and> e \<noteq> OutOfFuel"
  using readSize_eq [of slen t] by (auto simp: long_hdr_def split: if_splits)

lemma readKind_None:
  assumes "hdr buf = None"
  shows "\<exists>e. readKind buf = Inl e \<and> e \<noteq> OutOfFuel"
proof (cases buf)
  case Nil
  then show ?thesis by (simp add: readKind_def)
next
  case (Cons b t)
  note u = word_less_nat_alt not_less
  have "unat b < 256" by simp
  with assms Cons have "0xB8 \<le> unat b \<and> unat b < 0xC0 \<and> long_hdr String (unat b - 0xB7) t = None
      \<or> 0xF8 \<le> unat b \<and> long_hdr List (unat b - 0xF7) t = None"
    by (auto simp: hdr_def u split: if_splits)
  then show ?thesis
  proof
    assume *: "0xB8 \<le> unat b \<and> unat b < 0xC0 \<and> long_hdr String (unat b - 0xB7) t = None"
    then have "unat (b - 0xB7) = unat b - 0xB7" by (simp add: unat_sub word_le_nat_alt)
    moreover have "1 \<le> unat b - 0xB7" "unat b - 0xB7 \<le> 8" using * by linarith+
    ultimately obtain e where "readSize t (b - 0xB7) = Inl e" "e \<noteq> OutOfFuel"
      using * readSize_Inl [of "unat b - 0xB7" "b - 0xB7" String t] by auto
    with * show ?thesis by (simp add: readKind_def Cons u)
  next
    assume *: "0xF8 \<le> unat b \<and> long_hdr List (unat b - 0xF7) t = None"
    then have "unat (b - 0xF7) = unat b - 0xF7" by (simp add: unat_sub word_le_nat_alt)
    moreover have "1 \<le> unat b - 0xF7" "unat b - 0xF7 \<le> 8"
      using * \<open>unat b < 256\<close> by linarith+
    ultimately obtain e where "readSize t (b - 0xF7) = Inl e" "e \<noteq> OutOfFuel"
      using * readSize_Inl [of "unat b - 0xF7" "b - 0xF7" List t] by auto
    with * show ?thesis by (simp add: readKind_def Cons u)
  qed
qed

lemma readKind_no_fuel:
  assumes "length buf < 2 ^ 64"
  shows "readKind buf \<noteq> Inl OutOfFuel"
proof (cases "hdr buf")
  case None
  then show ?thesis using readKind_None [of buf] by auto
next
  case (Some x)
  then obtain k n h where hdr: "hdr buf = Some (k, n, h)" by (cases x) auto
  show ?thesis
  proof (cases "k = Byte")
    case True
    with hdr assms readKind_Byte [of buf n h] show ?thesis by simp
  next
    case False
    show ?thesis unfolding readKind_hdr [OF hdr False assms] by simp
  qed
qed

section \<open>Splitting is the inverse of framing\<close>

text \<open>A kind and a content that the encoder can produce, and their encoding.\<close>

fun frame_ok :: "Kind \<Rightarrow> bytes \<Rightarrow> bool" where
  "frame_ok Byte c \<longleftrightarrow> length c = 1 \<and> hd c < 0x80"
| "frame_ok String c \<longleftrightarrow> \<not> (length c = 1 \<and> hd c < 0x80)"
| "frame_ok List c \<longleftrightarrow> True"

fun frame :: "Kind \<Rightarrow> bytes \<Rightarrow> bytes" where
  "frame Byte c = c"
| "frame String c = rlp_string c"
| "frame List c = rlp_list c"

lemma frame_head: "k \<noteq> Byte \<Longrightarrow> frame_ok k c \<Longrightarrow> frame k c = head_bytes k (length c) @ c"
  by (cases k) (auto simp: rlp_string_def rlp_list_def head_bytes_def)

lemma hd_conv_nth_1: "length c = 1 \<Longrightarrow> (h # c @ r) ! 1 = hd c"
  by (cases c) auto

lemma Split_frame:
  assumes "frame_ok k c" "length (frame k c @ r) < 2 ^ 64"
  shows "Split (frame k c @ r) = Inr (k, c, r)"
proof (cases "k = Byte")
  case True
  with assms(1) obtain b where c: "c = [b]" "b < 0x80" by (cases c) auto
  then have "hdr (frame k c @ r) = Some (Byte, 0, 1)" by (simp add: True hdr_def)
  from readKind_Byte [OF this assms(2)] c True show ?thesis by (simp add: Split_def)
next
  case False
  let ?h = "length (head_bytes k (length c))"
  have fr: "frame k c @ r = head_bytes k (length c) @ c @ r" using False assms(1) by (simp add: frame_head)
  have len: "length c < 2 ^ 64" "?h + length c < 2 ^ 64" using assms(2) fr by simp_all
  have hdr: "hdr (frame k c @ r) = Some (k, length c, ?h)"
    unfolding fr using len(1) False by (rule hdr_head_bytes)
  have "\<not> (k = String \<and> length c = 1 \<and> length (frame k c @ r) > 1 \<and> (frame k c @ r) ! 1 < 128)"
  proof
    assume *: "k = String \<and> length c = 1 \<and> length (frame k c @ r) > 1 \<and> (frame k c @ r) ! 1 < 128"
    then have "(frame k c @ r) ! 1 = hd c"
      unfolding fr using hd_conv_nth_1 [of c] by (simp add: head_bytes_def rlp_head_def)
    with * assms(1) show False by (cases k) simp_all
  qed
  with readKind_hdr [OF hdr False assms(2)] have
    "readKind (frame k c @ r) = Inr (k, of_nat ?h, of_nat (length c))"
    unfolding fr by auto
  moreover have "unat (of_nat ?h + of_nat (length c) :: u64) = ?h + length c"
    using len(2) by (metis of_nat_add unat_of_nat_u64)
  ultimately show ?thesis using len unfolding fr by (simp add: Split_def)
qed

lemma Split_inv:
  assumes "Split b = Inr (k, c, r)" "length b < 2 ^ 64"
  shows "frame_ok k c \<and> b = frame k c @ r"
proof -
  from assms(1) obtain ts cs where rk: "readKind b = Inr (k, ts, cs)"
    and cr: "c = take (unat cs) (drop (unat ts) b)" "r = drop (unat (ts + cs)) b"
    by (auto simp: Split_def)
  then obtain k' n h where hdr: "hdr b = Some (k', n, h)"
    using readKind_None [of b] by (cases "hdr b") auto
  show ?thesis
  proof (cases "k' = Byte")
    case True
    then obtain x t where "b = x # t" "x < 0x80" using hdr by (auto simp: hdr_Byte)
    with readKind_Byte [of b n h] hdr True assms(2) rk cr show ?thesis by auto
  next
    case False
    from readKind_hdr [OF hdr False assms(2)] rk have
      eq: "k = k'" "ts = of_nat h" "cs = of_nat n" "h + n \<le> length b"
      and small: "\<not> (k = String \<and> n = 1 \<and> length b > 1 \<and> b ! 1 < 128)"
      by (auto split: if_splits)
    have inv: "n < 2 ^ 64" "length (head_bytes k n) = h" "b = head_bytes k n @ drop h b"
      using hdr_inv [OF hdr False] eq by auto
    have u: "unat ts = h" "unat cs = n" "unat (ts + cs) = h + n"
      using eq assms(2) inv(1) unat_of_nat_u64 [of "h + n"] by (simp_all add: unat_of_nat)
    have c: "c = take n (drop h b)" "r = drop (h + n) b" using cr u by simp_all
    have len: "length c = n" using c eq(4) by simp
    have split: "b = head_bytes k n @ c @ r"
      using inv(3) c by (metis append_take_drop_id drop_drop add.commute)
    have "frame_ok k c"
    proof (cases k)
      case String
      have "n = 1 \<Longrightarrow> b ! 1 = hd c"
        using hd_conv_nth_1 [of c] len split String by (simp add: head_bytes_def rlp_head_def)
      with small len eq(4) String show ?thesis
        using hdr_length(1) [OF hdr] by auto
    qed (use False eq in simp_all)
    with split len False eq show ?thesis by (simp add: frame_head)
  qed
qed

lemma CountValues_loop_Split:
  assumes "b \<noteq> []" "length b < 2 ^ 64"
  shows "CountValues_loop (Suc fuel) b i =
    bindE (Split b) (\<lambda>(k, c, r). CountValues_loop fuel r (Suc i))"
  using assms by (cases b) (auto simp: Split_def bindE_assoc bindE_def split: sum.split)

lemma frame_not_Nil: "frame_ok k c \<Longrightarrow> frame k c \<noteq> []"
  by (cases k) (auto simp: rlp_string_def rlp_list_def rlp_head_def)

lemma CountValues_loop_frames:
  assumes "\<forall>(k, c) \<in> set fs. frame_ok k c" "length (concat (map (\<lambda>(k, c). frame k c) fs)) < 2 ^ 64"
    "length fs \<le> fuel"
  shows "CountValues_loop fuel (concat (map (\<lambda>(k, c). frame k c) fs)) i = Inr (i + length fs)"
  using assms
proof (induction fs arbitrary: fuel i)
  case (Cons f fs)
  obtain k c where f: "f = (k, c)" by fastforce
  from Cons.prems(3) obtain fuel' where fuel: "fuel = Suc fuel'" by (cases fuel) auto
  let ?b = "frame k c @ concat (map (\<lambda>(k, c). frame k c) fs)"
  have "?b \<noteq> []" "length ?b < 2 ^ 64" "frame_ok k c"
    using Cons.prems frame_not_Nil [of k c] by (auto simp: f)
  then show ?case
    using Cons by (simp add: f fuel CountValues_loop_Split Split_frame)
qed simp

lemma CountValues_loop_inv:
  assumes "CountValues_loop fuel b i = Inr n" "length b < 2 ^ 64"
  shows "\<exists>fs. (\<forall>(k, c) \<in> set fs. frame_ok k c) \<and> b = concat (map (\<lambda>(k, c). frame k c) fs) \<and> n = i + length fs"
  using assms
proof (induction fuel arbitrary: b i)
  case 0
  then show ?case by (cases b) auto
next
  case (Suc fuel)
  show ?case
  proof (cases "b = []")
    case False
    with Suc.prems obtain k c r where sp: "Split b = Inr (k, c, r)"
      and rest: "CountValues_loop fuel r (Suc i) = Inr n"
      by (auto simp: CountValues_loop_Split)
    from Split_inv [OF sp Suc.prems(2)] have b: "frame_ok k c" "b = frame k c @ r" by auto
    with Suc.IH [OF rest] Suc.prems(2) obtain fs where
      "\<forall>(k, c) \<in> set fs. frame_ok k c" "r = concat (map (\<lambda>(k, c). frame k c) fs)" "n = Suc i + length fs"
      by auto
    with b show ?thesis by (intro exI [of _ "(k, c) # fs"]) auto
  qed (use Suc.prems in auto)
qed

lemma CountValues_loop_fuel:
  "length b \<le> fuel \<Longrightarrow> length b < 2 ^ 64 \<Longrightarrow> CountValues_loop fuel b i \<noteq> Inl OutOfFuel"
proof (induction fuel arbitrary: b i)
  case (Suc fuel)
  show ?case
  proof (cases "b = []")
    case False
    show ?thesis
    proof (cases "Split b")
      case (Inl e)
      then have "readKind b = Inl e" by (auto simp: Split_def bindE_def split: sum.splits)
      then have "e \<noteq> OutOfFuel" using readKind_no_fuel Suc.prems(2) by blast
      with Inl False Suc.prems show ?thesis by (simp add: CountValues_loop_Split)
    next
      case (Inr x)
      obtain k c r where x: "x = (k, c, r)" by (cases x)
      have "frame_ok k c" "b = frame k c @ r" using Split_inv Inr x Suc.prems(2) by blast+
      then have "length r < length b" using frame_not_Nil by fastforce
      with Suc Inr False x show ?thesis by (simp add: CountValues_loop_Split)
    qed
  qed simp
qed simp

end
