(* ===== verification/Rlp_Stream.thy ===== *)
theory Rlp_Stream
  imports Rlp_Raw
begin

text \<open>
  The RLP decoder of \<open>src/rlp/decode.go\<close>: the \<open>Stream\<close> with its read limit, its stack of open lists
  and its cached kind (\<open>None\<close> is the code's \<open>-1\<close>), and the decoders for integers, booleans, byte
  strings, byte arrays and \<open>interface{}\<close> values.  The reader is the unread rest of a byte slice, as
  in \<open>DecodeBytes\<close>.  An operation returns its result together with the stream it leaves behind, also
  when it fails.  Each call of \<open>decodeInterface\<close> reads at least one byte, so the length of the input
  bounds the recursion; the fuel that \<open>DecodeBytes\<close> supplies never runs out
  (\<open>decodeInterface_fuel\<close>).
\<close>

section \<open>The stream\<close>

record stream =
  rd :: bytes
  remaining :: u64
  limited :: bool
  skind :: "Kind option"
  ssize :: u64
  byteval :: byte
  kinderr :: "rlp_error option"
  stack :: "(u64 \<times> u64) list"

type_synonym 'a decode = "(stream, rlp_error, 'a) stm"

text \<open>\<open>Reset\<close> with a \<open>bytes.Reader\<close>: with no explicit limit, the length of the slice is the limit.\<close>

definition NewStream :: "bytes \<Rightarrow> u64 \<Rightarrow> stream" where
  "NewStream r inputLimit =
     \<lparr>rd = r,
      remaining = (if inputLimit > 0 then inputLimit else of_nat (length r)),
      limited = True, skind = None, ssize = 0, byteval = 0, kinderr = None, stack = []\<rparr>"

definition NewListStream :: "bytes \<Rightarrow> u64 \<Rightarrow> stream" where
  "NewListStream r len = (NewStream r len)\<lparr>skind := Some List, ssize := len\<rparr>"

definition willRead :: "u64 \<Rightarrow> unit decode" where
  "willRead n s0 =
     (let s = s0\<lparr>skind := None\<rparr>;
          limit = (\<lambda>s. if limited s
                       then if n > remaining s then (Inl ErrValueTooLarge, s)
                            else (Inr (), s\<lparr>remaining := remaining s - n\<rparr>)
                       else (Inr (), s))
      in case stack s of
           [] \<Rightarrow> limit s
         | (pos, sz) # st \<Rightarrow>
             if n > sz - pos then (Inl ErrElemTooLarge, s)
             else limit (s\<lparr>stack := (pos + n, sz) # st\<rparr>))"

definition readByte :: "byte decode" where
  "readByte = bindS (willRead 1) (\<lambda>_ s.
     case rd s of [] \<Rightarrow> (Inl ErrUnexpectedEOF, s) | b # bs \<Rightarrow> (Inr b, s\<lparr>rd := bs\<rparr>))"

definition readFull :: "nat \<Rightarrow> bytes decode" where
  "readFull n = bindS (willRead (of_nat n)) (\<lambda>_ s.
     if length (rd s) < n then (Inl ErrUnexpectedEOF, s\<lparr>rd := []\<rparr>)
     else (Inr (take n (rd s)), s\<lparr>rd := drop n (rd s)\<rparr>))"

text \<open>\<open>readUint(size)\<close> for \<open>size\<close> at most 8: the bytes are read into the low end of a zeroed 8-byte
  buffer, which is then decoded in big-endian order.\<close>

definition readUint :: "byte \<Rightarrow> u64 decode" where
  "readUint n =
     (if n = 0 then (\<lambda>s. (Inr 0, s\<lparr>skind := None\<rparr>))
      else if n = 1 then bindS readByte (\<lambda>b. returnS (ucast b))
      else bindS (readFull (unat n)) (\<lambda>bs.
             if bs ! 0 = 0 then failS ErrCanonSize else returnS (of_nat (be_nat bs))))"

text \<open>\<open>Stream.readKind\<close> returns a kind and a size also beside an error.\<close>

definition checkLong :: "Kind \<Rightarrow> (rlp_error + u64) \<times> stream \<Rightarrow> (Kind \<times> u64 \<times> rlp_error option) \<times> stream" where
  "checkLong k r = (case r of
       (Inl e, s) \<Rightarrow> ((k, 0, Some e), s)
     | (Inr sz, s) \<Rightarrow> ((k, sz, if sz < 56 then Some ErrCanonSize else None), s))"

definition stream_readKind :: "stream \<Rightarrow> (Kind \<times> u64 \<times> rlp_error option) \<times> stream" where
  "stream_readKind s0 = (case readByte s0 of
       (Inl e, s) \<Rightarrow>
         ((Byte, 0, Some (if stack s = [] \<and> (e = ErrUnexpectedEOF \<or> e = ErrValueTooLarge)
                          then EOF else e)), s)
     | (Inr b, s1) \<Rightarrow>
         (let s = s1\<lparr>byteval := 0\<rparr>
          in if b < 0x80 then ((Byte, 0, None), s\<lparr>byteval := b\<rparr>)
             else if b < 0xB8 then ((String, ucast (b - 0x80), None), s)
             else if b < 0xC0 then checkLong String (readUint (b - 0xB7) s)
             else if b < 0xF8 then ((List, ucast (b - 0xC0), None), s)
             else checkLong List (readUint (b - 0xF7) s)))"

definition stream_Kind :: "(Kind \<times> u64) decode" where
  "stream_Kind s0 =
     (let result = (\<lambda>s. (case kinderr s of
                           Some e \<Rightarrow> Inl e
                         | None \<Rightarrow> Inr (case skind s of None \<Rightarrow> Byte | Some k \<Rightarrow> k, ssize s), s))
      in case skind s0 of
           Some k \<Rightarrow> result s0
         | None \<Rightarrow>
             (let s1 = s0\<lparr>kinderr := None\<rparr>
              in case stack s1 of
                   [] \<Rightarrow> (let ((k, sz, err), s2) = stream_readKind s1;
                             err' = (if err = None \<and> limited s2 \<and> sz > remaining s2
                                     then Some ErrValueTooLarge else err)
                         in result (s2\<lparr>skind := Some k, ssize := sz, kinderr := err'\<rparr>))
                 | (pos, lsz) # st \<Rightarrow>
                     if pos = lsz then (Inl EOL, s1)
                     else (let ((k, sz, err), s2) = stream_readKind s1;
                               tos = hd (stack s2);
                               err' = (if err = None \<and> sz > snd tos - fst tos
                                       then Some ErrElemTooLarge else err)
                           in result (s2\<lparr>skind := Some k, ssize := sz, kinderr := err'\<rparr>))))"

definition stream_Bytes :: "bytes decode" where
  "stream_Bytes = bindS stream_Kind (\<lambda>(k, sz) s. case k of
       Byte \<Rightarrow> (Inr [byteval s], s\<lparr>skind := None\<rparr>)
     | String \<Rightarrow> bindS (readFull (unat sz)) (\<lambda>b.
         if sz = 1 \<and> b ! 0 < 128 then failS ErrCanonSize else returnS b) s
     | List \<Rightarrow> (Inl ErrExpectedString, s))"

definition stream_Raw :: "bytes decode" where
  "stream_Raw = bindS stream_Kind (\<lambda>(k, sz) s.
     if k = Byte then (Inr [byteval s], s\<lparr>skind := None\<rparr>)
     else bindS (readFull (unat sz)) (\<lambda>b.
       returnS ((if k = String then puthead 0x80 0xB7 sz else puthead 0xC0 0xF7 sz) @ b)) s)"

definition stream_uint :: "nat \<Rightarrow> u64 decode" where
  "stream_uint maxbits = bindS stream_Kind (\<lambda>(k, sz) s. case k of
       Byte \<Rightarrow> if byteval s = 0 then (Inl ErrCanonInt, s)
              else (Inr (ucast (byteval s)), s\<lparr>skind := None\<rparr>)
     | String \<Rightarrow>
         if sz > of_nat (maxbits div 8) then (Inl errUintOverflow, s)
         else (case readUint (ucast sz) s of
                 (Inl e, s') \<Rightarrow> (Inl (if e = ErrCanonSize then ErrCanonInt else e), s')
               | (Inr v, s') \<Rightarrow> if sz > 0 \<and> v < 128 then (Inl ErrCanonSize, s') else (Inr v, s'))
     | List \<Rightarrow> (Inl ErrExpectedString, s))"

definition stream_Bool :: "bool decode" where
  "stream_Bool = bindS (stream_uint 8) (\<lambda>num.
     if num = 0 then returnS False else if num = 1 then returnS True
     else failS (errInvalidBool num))"

definition stream_List :: "u64 decode" where
  "stream_List = bindS stream_Kind (\<lambda>(k, sz) s.
     if k \<noteq> List then (Inl ErrExpectedList, s)
     else (Inr sz, s\<lparr>stack := (0, sz) # stack s, skind := None, ssize := 0\<rparr>))"

definition stream_ListEnd :: "unit decode" where
  "stream_ListEnd s = (case stack s of
       [] \<Rightarrow> (Inl errNotInList, s)
     | (pos, sz) # st \<Rightarrow>
         if pos \<noteq> sz then (Inl errNotAtEOL, s)
         else (Inr (),
               s\<lparr>stack := (case st of [] \<Rightarrow> [] | (pos', sz') # st' \<Rightarrow> (pos' + sz, sz') # st'),
                 skind := None, ssize := 0\<rparr>))"

section \<open>Decoders\<close>

definition wrapStreamError :: "rlp_error \<Rightarrow> rlp_error" where
  "wrapStreamError err =
     (if err \<in> {ErrCanonInt, ErrCanonSize, ErrExpectedList, ErrExpectedString, errUintOverflow,
                errNotAtEOL}
      then decodeError err else err)"

definition wrapS :: "'a decode \<Rightarrow> 'a decode" where
  "wrapS m s = (case m s of (Inl e, s') \<Rightarrow> (Inl (wrapStreamError e), s') | r \<Rightarrow> r)"

definition decodeUint :: "nat \<Rightarrow> u64 decode" where
  "decodeUint bits = wrapS (stream_uint bits)"

definition decodeBool :: "bool decode" where
  "decodeBool = wrapS stream_Bool"

definition decodeString :: "bytes decode" where
  "decodeString = wrapS stream_Bytes"

definition decodeByteSlice :: "bytes decode" where
  "decodeByteSlice = wrapS stream_Bytes"

definition decodeBigInt :: "int decode" where
  "decodeBigInt = bindS (wrapS stream_Bytes) (\<lambda>b.
     if length b > 0 \<and> b ! 0 = 0 then failS (wrapStreamError ErrCanonInt)
     else returnS (int (be_nat b)))"

definition decodeByteArray :: "nat \<Rightarrow> bytes decode" where
  "decodeByteArray vlen = bindS stream_Kind (\<lambda>(k, sz) s. case k of
       Byte \<Rightarrow>
         if vlen = 0 then (Inl (decodeError errStringTooLong), s)
         else if vlen > 1 then (Inl (decodeError errStringTooShort), s)
         else (case stream_uint 64 s of
                 (Inl e, s') \<Rightarrow> (Inr [0], s')
               | (Inr bv, s') \<Rightarrow> (Inr [ucast bv], s'))
     | String \<Rightarrow>
         if of_nat vlen < sz then (Inl (decodeError errStringTooLong), s)
         else if of_nat vlen > sz then (Inl (decodeError errStringTooShort), s)
         else bindS (readFull vlen) (\<lambda>slice.
                if sz = 1 \<and> slice ! 0 < 128 then failS (wrapStreamError ErrCanonSize)
                else returnS slice) s
     | List \<Rightarrow> (Inl (wrapStreamError ErrExpectedString), s))"

text \<open>\<open>decodeInterface\<close> decodes any value into a byte string or a slice of values;
  \<open>decodeSliceElems\<close> reads elements until the stream reports the end of the list.\<close>

fun decodeInterface :: "nat \<Rightarrow> item decode"
and decodeListSlice :: "nat \<Rightarrow> item list decode"
and decodeSliceElems :: "nat \<Rightarrow> item list decode" where
  "decodeInterface 0 s = (Inl OutOfFuel, s)"
| "decodeInterface (Suc fuel) s =
     bindS stream_Kind (\<lambda>(k, sz).
       if k = List then bindS (decodeListSlice fuel) (\<lambda>xs. returnS (Lst xs))
       else bindS stream_Bytes (\<lambda>b. returnS (Str b))) s"
| "decodeListSlice 0 s = (Inl OutOfFuel, s)"
| "decodeListSlice (Suc fuel) s =
     bindS (wrapS stream_List) (\<lambda>sz.
       if sz = 0 then bindS stream_ListEnd (\<lambda>_. returnS [])
       else bindS (decodeSliceElems fuel) (\<lambda>xs. bindS stream_ListEnd (\<lambda>_. returnS xs))) s"
| "decodeSliceElems 0 s = (Inl OutOfFuel, s)"
| "decodeSliceElems (Suc fuel) s =
     (case decodeInterface fuel s of
        (Inl e, s') \<Rightarrow> if e = EOL then (Inr [], s') else (Inl e, s')
      | (Inr x, s') \<Rightarrow> bindS (decodeSliceElems fuel) (\<lambda>xs. returnS (x # xs)) s')"

text \<open>\<open>DecodeBytes\<close> into an \<open>interface{}\<close> variable.\<close>

definition DecodeBytes :: "bytes \<Rightarrow> rlp_error + item" where
  "DecodeBytes b =
     (case decodeInterface (3 * length b + 3) (NewStream b (of_nat (length b))) of
        (Inl e, s) \<Rightarrow> Inl e
      | (Inr x, s) \<Rightarrow> if length (rd s) > 0 then Inl ErrMoreThanOneValue else Inr x)"

end
