(* ===== verification/Rlp_Stream_Correct.thy ===== *)
theory Rlp_Stream_Correct
  imports Rlp_Stream
begin

text \<open>
  The stream decoder inverts the reference encoding: it accepts exactly the encodings of items, and
  nothing else.  The reasoning goes through \<open>hdr\<close>, the header of the reference encoding: \<open>live\<close>
  relates a stream to the unread input and the stack of open lists, \<open>adv\<close> moves the position in the
  innermost list, \<open>fits\<close> says that the innermost list has room.
\<close>

section \<open>Positions\<close>

definition live :: "stream \<Rightarrow> bytes \<Rightarrow> (u64 \<times> u64) list \<Rightarrow> bool" where
  "live s inp st \<longleftrightarrow> rd s = inp \<and> limited s \<and> unat (remaining s) = length inp \<and> stack s = st"

definition ready :: "stream \<Rightarrow> bytes \<Rightarrow> (u64 \<times> u64) list \<Rightarrow> bool" where
  "ready s inp st \<longleftrightarrow> live s inp st \<and> skind s = None"

definition peeked :: "stream \<Rightarrow> bytes \<Rightarrow> (u64 \<times> u64) list \<Rightarrow> Kind \<Rightarrow> u64 \<Rightarrow> bool" where
  "peeked s inp st k sz \<longleftrightarrow> live s inp st \<and> skind s = Some k \<and> ssize s = sz \<and> kinderr s = None"

fun adv :: "nat \<Rightarrow> (u64 \<times> u64) list \<Rightarrow> (u64 \<times> u64) list" where
  "adv n [] = []"
| "adv n ((p, sz) # st) = (p + of_nat n, sz) # st"

fun fits :: "nat \<Rightarrow> (u64 \<times> u64) list \<Rightarrow> bool" where
  "fits n [] \<longleftrightarrow> True"
| "fits n ((p, sz) # st) \<longleftrightarrow> unat p + n \<le> unat sz"

lemma adv_adv [simp]: "adv m (adv n st) = adv (n + m) st"
  by (cases st) (auto simp: add.assoc)

lemma adv_0 [simp]: "adv 0 st = st"
  by (cases st) auto

lemma adv_Nil_iff [simp]: "adv n st = [] \<longleftrightarrow> st = []"
  by (cases st) auto

lemma unat_plus_of_nat:
  "unat (p :: u64) + n \<le> unat (sz :: u64) \<Longrightarrow> unat (p + of_nat n) = unat p + n"
  using unsigned_less [of sz, where ?'a = nat] by (simp add: unat_word_ariths unat_of_nat)

lemma fits_adv: "fits m st \<Longrightarrow> fits n (adv m st) \<longleftrightarrow> fits (m + n) st"
  by (cases "(m, st)" rule: fits.cases) (auto dest: unat_plus_of_nat)

lemma fits_le: "fits n st \<Longrightarrow> m \<le> n \<Longrightarrow> fits m st"
  by (cases st) auto

lemma word_less_diff:
  "unat p \<le> unat sz \<Longrightarrow> n < 2 ^ 64 \<Longrightarrow> (sz - p :: u64) < of_nat n \<longleftrightarrow> \<not> unat p + n \<le> unat sz"
  by (auto simp: word_less_nat_alt unat_sub word_le_nat_alt)

definition advance :: "nat \<Rightarrow> stream \<Rightarrow> stream" where
  "advance n s = s\<lparr>skind := None, stack := adv n (stack s), remaining := remaining s - of_nat n,
     rd := drop n (rd s)\<rparr>"

lemma live_advance:
  assumes "live s inp st" "n \<le> length inp" "length inp < 2 ^ 64"
  shows "live (advance n s) (drop n inp) (adv n st)"
proof -
  have "unat (of_nat n :: u64) = n" using assms by simp
  then have "unat (remaining s - of_nat n) = length inp - n"
    using assms by (simp add: live_def unat_sub word_le_nat_alt)
  with assms show ?thesis by (simp add: live_def advance_def)
qed

lemma advance_simps [simp]:
  "skind (advance n s) = None" "byteval (advance n s) = byteval s" "rd (advance n s) = drop n (rd s)"
  "kinderr (advance n s) = kinderr s"
  by (simp_all add: advance_def)

section \<open>Reading\<close>

lemma willRead_eq:
  assumes "live s inp st" "fits 0 st" "length inp < 2 ^ 64" "n < 2 ^ 64"
  shows "willRead (of_nat n) s =
    (if \<not> fits n st then (Inl ErrElemTooLarge, s\<lparr>skind := None\<rparr>)
     else if length inp < n then (Inl ErrValueTooLarge, s\<lparr>skind := None, stack := adv n st\<rparr>)
     else (Inr (), s\<lparr>skind := None, stack := adv n st, remaining := remaining s - of_nat n\<rparr>))"
proof -
  have "remaining s < of_nat n \<longleftrightarrow> length inp < n"
    using assms by (simp add: word_less_nat_alt live_def)
  then show ?thesis
    using assms by (cases st) (auto simp: willRead_def live_def word_less_diff Let_def split: prod.split)
qed

lemma readFull_eq:
  assumes "live s inp st" "fits 0 st" "length inp < 2 ^ 64" "n < 2 ^ 64"
  shows "readFull n s =
    (if \<not> fits n st then (Inl ErrElemTooLarge, s\<lparr>skind := None\<rparr>)
     else if length inp < n then (Inl ErrValueTooLarge, s\<lparr>skind := None, stack := adv n st\<rparr>)
     else (Inr (take n inp), advance n s))"
  using assms by (auto simp: readFull_def bindS_def willRead_eq advance_def live_def)

lemma readByte_eq:
  assumes "live s inp st" "fits 0 st" "length inp < 2 ^ 64"
  shows "readByte s =
    (if \<not> fits 1 st then (Inl ErrElemTooLarge, s\<lparr>skind := None\<rparr>)
     else if inp = [] then (Inl ErrValueTooLarge, s\<lparr>skind := None, stack := adv 1 st\<rparr>)
     else (Inr (hd inp), advance 1 s))"
  using assms willRead_eq [OF assms, of 1]
  by (cases inp) (auto simp: readByte_def bindS_def advance_def live_def drop_Suc)

text \<open>A successful header read consumes the header of the reference encoding.\<close>

lemma readUint_long:
  assumes "live s inp st" "fits 0 st" "length inp < 2 ^ 64" "1 \<le> unat l" "unat l \<le> 8"
    "fits (unat l) st" "unat l \<le> length inp" "no_leading_zero (take (unat l) inp)"
  shows "readUint l s = (Inr (of_nat (be_nat (take (unat l) inp))), advance (unat l) s)"
proof (cases "l = 1")
  case True
  then show ?thesis using assms readByte_eq [OF assms(1-3)]
    by (cases inp) (auto simp: readUint_def bindS_def returnS_def)
next
  case False
  have nz: "l \<noteq> 0" using assms(4) by auto
  have "take (unat l) inp ! 0 \<noteq> 0"
    using assms(4,7,8) by (cases inp; cases "unat l") auto
  with False nz readFull_eq [OF assms(1-3), of "unat l"] assms(5-7) show ?thesis
    by (simp add: readUint_def bindS_def returnS_def failS_def)
qed

lemma readUint_cases:
  assumes "live s inp st" "fits 0 st" "length inp < 2 ^ 64" "1 \<le> unat l" "unat l \<le> 8"
  shows "(\<exists>e s'. readUint l s = (Inl e, s') \<and> e \<noteq> EOL \<and> e \<noteq> OutOfFuel
            \<and> (\<not> fits (unat l) st \<or> length inp < unat l \<or> \<not> no_leading_zero (take (unat l) inp)))
       \<or> (fits (unat l) st \<and> unat l \<le> length inp
            \<and> readUint l s = (Inr (of_nat (be_nat (take (unat l) inp))), advance (unat l) s)
            \<and> (unat l = 1 \<or> no_leading_zero (take (unat l) inp)))"
proof (cases "l = 1")
  case True
  then show ?thesis using readByte_eq [OF assms(1-3)]
    by (cases inp) (auto simp: readUint_def bindS_def returnS_def)
next
  case False
  have nz: "l \<noteq> 0" using assms(4) by auto
  have "take (unat l) inp ! 0 = 0 \<longleftrightarrow> \<not> no_leading_zero (take (unat l) inp)" if "unat l \<le> length inp"
    using assms(4) that by (cases inp; cases "unat l") auto
  with False nz readFull_eq [OF assms(1-3), of "unat l"] assms(4,5) show ?thesis
    by (auto simp: readUint_def bindS_def returnS_def failS_def not_less)
qed

definition head_read :: "stream \<Rightarrow> bytes \<Rightarrow> (u64 \<times> u64) list \<Rightarrow> bool" where
  "head_read s inp st \<longleftrightarrow>
     (\<exists>k n h s'. hdr inp = Some (k, n, h) \<and> fits h st \<and> stream_readKind s = ((k, of_nat n, None), s')
        \<and> live s' (drop h inp) (adv h st) \<and> (k = Byte \<longrightarrow> byteval s' = hd inp))"

definition head_fail :: "stream \<Rightarrow> bytes \<Rightarrow> (u64 \<times> u64) list \<Rightarrow> bool" where
  "head_fail s inp st \<longleftrightarrow>
     (\<exists>k sz e s'. stream_readKind s = ((k, sz, Some e), s') \<and> e \<noteq> EOL \<and> e \<noteq> OutOfFuel)
     \<and> (case hdr inp of None \<Rightarrow> True | Some (k, n, h) \<Rightarrow> \<not> fits h st)"

lemma live_byteval [simp]: "live (s\<lparr>byteval := b\<rparr>) inp st = live s inp st"
  by (simp add: live_def)

lemma byteval_advance: "byteval (advance n s) = byteval s"
  by simp

lemma long_head:
  assumes "live s inp st" "fits 0 st" "length inp < 2 ^ 64"
    and sr: "stream_readKind s = checkLong k (readUint l ((advance 1 s)\<lparr>byteval := 0\<rparr>))"
    and inp: "inp = b # t" and "fits 1 st"
    and hdr: "hdr inp = long_hdr k (unat l) t" and l: "1 \<le> unat l" "unat l \<le> 8" and "k \<noteq> Byte"
  shows "head_read s inp st \<or> head_fail s inp st"
proof -
  let ?s1 = "(advance 1 s)\<lparr>byteval := 0\<rparr>"
  have l1: "live ?s1 t (adv 1 st)" using live_advance [OF assms(1), of 1] assms(3) inp by simp
  have f1: "fits 0 (adv 1 st)" using fits_adv [OF \<open>fits 1 st\<close>, of 0] \<open>fits 1 st\<close> by simp
  have ff: "fits (unat l) (adv 1 st) \<longleftrightarrow> fits (Suc (unat l)) st"
    using fits_adv [OF \<open>fits 1 st\<close>, of "unat l"] by simp
  have lt: "length t < 2 ^ 64" using assms(3) inp by simp
  from readUint_cases [OF l1 f1 lt l] show ?thesis
  proof
    assume "\<exists>e s'. readUint l ?s1 = (Inl e, s') \<and> e \<noteq> EOL \<and> e \<noteq> OutOfFuel
            \<and> (\<not> fits (unat l) (adv 1 st) \<or> length t < unat l \<or> \<not> no_leading_zero (take (unat l) t))"
    then have "head_fail s inp st"
      unfolding head_fail_def sr hdr by (auto simp: checkLong_def long_hdr_def ff [simplified])
    then show ?thesis ..
  next
    assume *: "fits (unat l) (adv 1 st) \<and> unat l \<le> length t
            \<and> readUint l ?s1 = (Inr (of_nat (be_nat (take (unat l) t))), advance (unat l) ?s1)
            \<and> (unat l = 1 \<or> no_leading_zero (take (unat l) t))"
    let ?n = "be_nat (take (unat l) t)"
    have n64: "(of_nat ?n :: u64) < 56 \<longleftrightarrow> ?n < 56"
      using l by (intro of_nat_less_56 be_nat_u64) simp
    show ?thesis
    proof (cases "?n < 56")
      case True
      then have "head_fail s inp st"
        unfolding head_fail_def sr hdr using * n64 by (auto simp: checkLong_def long_hdr_def)
      then show ?thesis ..
    next
      case False
      have nlz: "no_leading_zero (take (unat l) t)"
      proof (cases "unat l = 1")
        case True
        with False show ?thesis using * by (cases t) auto
      qed (use * in auto)
      have "hdr inp = Some (k, ?n, Suc (unat l))" using False nlz * by (simp add: hdr long_hdr_def)
      moreover have "live (advance (unat l) ?s1) (drop (unat l) t) (adv (unat l) (adv 1 st))"
        using live_advance [OF l1] * lt by simp
      ultimately have "head_read s inp st"
        unfolding head_read_def sr using False n64 * ff \<open>k \<noteq> Byte\<close> by (simp add: checkLong_def inp)
      then show ?thesis ..
    qed
  qed
qed

lemma stream_readKind_cases:
  assumes "live s inp st" "fits 0 st" "length inp < 2 ^ 64"
  shows "head_read s inp st \<or> head_fail s inp st"
proof (cases "fits 1 st \<and> inp \<noteq> []")
  case False
  then have "head_fail s inp st"
    using readByte_eq [OF assms] fits_le [of _ st 1] hdr_length(1) [of inp]
    unfolding head_fail_def stream_readKind_def
    by (auto simp: hdr_def split: option.split)
  then show ?thesis ..
next
  case True
  then obtain b t where inp: "inp = b # t" by (cases inp) auto
  let ?s1 = "advance 1 s"
  have rb: "readByte s = (Inr b, ?s1)" using readByte_eq [OF assms] True inp by simp
  have l1: "live ?s1 t (adv 1 st)" using live_advance [OF assms(1), of 1] assms(3) inp by simp
  note u = word_less_nat_alt not_less
  consider (0) "unat b < 0x80" | (1) "0x80 \<le> unat b" "unat b < 0xB8"
    | (2) "0xB8 \<le> unat b" "unat b < 0xC0" | (3) "0xC0 \<le> unat b" "unat b < 0xF8"
    | (4) "0xF8 \<le> unat b" by linarith
  then show ?thesis
  proof cases
    case 0
    then have "head_read s inp st" unfolding head_read_def stream_readKind_def rb
      using l1 True inp by (simp add: hdr_def u)
    then show ?thesis ..
  next
    case 1
    have "(ucast (b - 0x80) :: u64) = of_nat (unat b - 0x80)"
      using 1 ucast_diff_byte [of "0x80" b] by simp
    with 1 have "head_read s inp st" unfolding head_read_def stream_readKind_def rb
      using l1 True inp by (simp add: hdr_def u)
    then show ?thesis ..
  next
    case 2
    have l: "unat (b - 0xB7) = unat b - 0xB7" using 2 by (simp add: unat_sub word_le_nat_alt)
    show ?thesis
    proof (rule long_head [OF assms _ inp _ _ _ _ , of String "b - 0xB7"])
      show "stream_readKind s = checkLong String (readUint (b - 0xB7) (advance 1 s\<lparr>byteval := 0\<rparr>))"
        using 2 by (simp add: stream_readKind_def rb u)
      show "hdr inp = long_hdr String (unat (b - 0xB7)) t" using 2 by (simp add: hdr_def inp u l)
    qed (use 2 l True in simp_all)
  next
    case 3
    have "(ucast (b - 0xC0) :: u64) = of_nat (unat b - 0xC0)"
      using 3 ucast_diff_byte [of "0xC0" b] by simp
    with 3 have "head_read s inp st" unfolding head_read_def stream_readKind_def rb
      using l1 True inp by (simp add: hdr_def u)
    then show ?thesis ..
  next
    case 4
    have l: "unat (b - 0xF7) = unat b - 0xF7" using 4 by (simp add: unat_sub word_le_nat_alt)
    have l8: "unat b - 0xF7 \<le> 8" using unat_byte_less [of b] by linarith
    show ?thesis
    proof (rule long_head [OF assms _ inp _ _ _ _ , of List "b - 0xF7"])
      show "stream_readKind s = checkLong List (readUint (b - 0xF7) (advance 1 s\<lparr>byteval := 0\<rparr>))"
        using 4 by (simp add: stream_readKind_def rb u)
      show "hdr inp = long_hdr List (unat (b - 0xF7)) t" using 4 by (simp add: hdr_def inp u l)
    qed (use 4 l l8 True in simp_all)
  qed
qed

section \<open>The kind of the value ahead\<close>

text \<open>At the end of the innermost list the stream reports \<open>EOL\<close>, otherwise it reads one header.\<close>

definition at_end :: "(u64 \<times> u64) list \<Rightarrow> bool" where
  "at_end st \<longleftrightarrow> (\<exists>p st'. st = (p, p) # st')"

lemma Kind_EOL: "ready s inp st \<Longrightarrow> at_end st \<Longrightarrow> stream_Kind s = (Inl EOL, s\<lparr>kinderr := None\<rparr>)"
  by (auto simp: ready_def live_def at_end_def stream_Kind_def Let_def)

definition kind_ok :: "bytes \<Rightarrow> (u64 \<times> u64) list \<Rightarrow> nat \<Rightarrow> nat \<Rightarrow> bool" where
  "kind_ok inp st n h \<longleftrightarrow> fits (h + n) st \<and> (st = [] \<longrightarrow> h + n \<le> length inp)"

lemma live_kinderr [simp]: "live (s\<lparr>kinderr := e\<rparr>) inp st = live s inp st"
  by (simp add: live_def)

lemma Kind_cases:
  assumes "ready s inp st" "fits 0 st" "length inp < 2 ^ 64" "\<not> at_end st"
  shows "(\<exists>k n h s'. hdr inp = Some (k, n, h) \<and> kind_ok inp st n h
            \<and> stream_Kind s = (Inr (k, of_nat n), s')
            \<and> peeked s' (drop h inp) (adv h st) k (of_nat n) \<and> (k = Byte \<longrightarrow> byteval s' = hd inp))
       \<or> (\<exists>e s'. stream_Kind s = (Inl e, s') \<and> e \<noteq> EOL \<and> e \<noteq> OutOfFuel)
          \<and> (case hdr inp of None \<Rightarrow> True | Some (k, n, h) \<Rightarrow> \<not> kind_ok inp st n h)"
  (is "?ok \<or> ?fail")
proof -
  let ?s = "s\<lparr>kinderr := None\<rparr>"
  have lv: "live ?s inp st" and sk: "skind s = None" and stk: "stack s = st"
    using assms(1) by (auto simp: ready_def live_def)
  from stream_readKind_cases [OF lv assms(2,3)] show ?thesis
  proof
    assume "head_fail ?s inp st"
    then obtain k sz e s' where rk: "stream_readKind ?s = ((k, sz, Some e), s')" "e \<noteq> EOL" "e \<noteq> OutOfFuel"
      and h: "case hdr inp of None \<Rightarrow> True | Some (k, n, h) \<Rightarrow> \<not> fits h st"
      unfolding head_fail_def by auto
    have "stream_Kind s = (Inl e, s'\<lparr>skind := Some k, ssize := sz, kinderr := Some e\<rparr>)"
      using assms(4) by (cases st) (auto simp: stream_Kind_def sk stk rk Let_def at_end_def)
    moreover have "case hdr inp of None \<Rightarrow> True | Some (k, n, h) \<Rightarrow> \<not> kind_ok inp st n h"
      using h fits_le by (auto simp: kind_ok_def split: option.splits prod.splits)
    ultimately show ?thesis using rk by blast
  next
    assume "head_read ?s inp st"
    then obtain k n h s' where hdr: "hdr inp = Some (k, n, h)" and f: "fits h st"
      and rk: "stream_readKind ?s = ((k, of_nat n, None), s')"
      and l': "live s' (drop h inp) (adv h st)" and bv: "k = Byte \<longrightarrow> byteval s' = hd inp"
      unfolding head_read_def by auto
    have n: "n < 2 ^ 64" using hdr hdr_inv [OF hdr] hdr_Byte by (cases "k = Byte") auto
    have hl: "h \<le> length inp" using hdr_length [OF hdr] by simp
    let ?s' = "\<lambda>err. s'\<lparr>skind := Some k, ssize := of_nat n, kinderr := err\<rparr>"
    show ?thesis
    proof (cases st)
      case Nil
      have rem: "limited s' \<and> (remaining s' < of_nat n \<longleftrightarrow> length inp < h + n)"
        using l' n hl by (auto simp: live_def word_less_nat_alt)
      have "stream_Kind s =
        (if length inp < h + n then (Inl ErrValueTooLarge, ?s' (Some ErrValueTooLarge))
         else (Inr (k, of_nat n), ?s' None))"
        using rem by (simp add: stream_Kind_def sk stk rk Nil Let_def)
      with hdr bv l' Nil show ?thesis
        by (cases "length inp < h + n") (auto simp: kind_ok_def peeked_def live_def)
    next
      case (Cons top st')
      obtain p sz where top: "top = (p, sz)" by fastforce
      have ne: "p \<noteq> sz" using assms(4) Cons top by (auto simp: at_end_def)
      have ph: "unat (p + of_nat h) = unat p + h" using f Cons top by (intro unat_plus_of_nat) simp
      have tos: "stack s' = (p + of_nat h, sz) # st'" using l' Cons top by (simp add: live_def)
      have lt: "sz - (p + of_nat h) < of_nat n \<longleftrightarrow> \<not> fits (h + n) st"
        using word_less_diff [of "p + of_nat h" sz n] f ph n Cons top by (simp add: add.assoc)
      have "stream_Kind s =
        (if \<not> fits (h + n) st then (Inl ErrElemTooLarge, ?s' (Some ErrElemTooLarge))
         else (Inr (k, of_nat n), ?s' None))"
        unfolding lt [symmetric] using ne by (simp add: stream_Kind_def sk stk rk Cons top tos Let_def)
      with hdr bv l' Cons show ?thesis
        by (cases "fits (h + n) st") (auto simp: kind_ok_def peeked_def live_def)
    qed
  qed
qed

lemma Kind_peeked: "peeked s inp st k sz \<Longrightarrow> stream_Kind s = (Inr (k, sz), s)"
  by (simp add: peeked_def stream_Kind_def Let_def)

section \<open>Byte strings\<close>

lemma peeked_live: "peeked s inp st k sz \<Longrightarrow> live s inp st"
  by (simp add: peeked_def)

lemma Bytes_Byte:
  assumes "peeked s inp st Byte sz"
  shows "stream_Bytes s = (Inr [byteval s], s\<lparr>skind := None\<rparr>)" "ready (s\<lparr>skind := None\<rparr>) inp st"
  using assms Kind_peeked [OF assms] by (auto simp: stream_Bytes_def bindS_def ready_def peeked_def live_def)

lemma Bytes_String:
  assumes "peeked s inp st String (of_nat n)" "fits 0 st" "length inp < 2 ^ 64" "n < 2 ^ 64"
  shows "stream_Bytes s =
    (if \<not> fits n st then (Inl ErrElemTooLarge, s\<lparr>skind := None\<rparr>)
     else if length inp < n then (Inl ErrValueTooLarge, s\<lparr>skind := None, stack := adv n st\<rparr>)
     else if n = 1 \<and> hd inp < 128 then (Inl ErrCanonSize, advance n s)
     else (Inr (take n inp), advance n s))"
proof -
  have "(of_nat n :: u64) = 1 \<longleftrightarrow> n = 1" using assms(4) by (metis of_nat_1 unat_1 unat_of_nat_u64)
  then show ?thesis
    using Kind_peeked [OF assms(1)] readFull_eq [OF peeked_live [OF assms(1)] assms(2-4)] assms(4)
    by (auto simp: stream_Bytes_def bindS_def returnS_def failS_def hd_conv_nth)
qed

section \<open>Decoding inverts encoding\<close>

lemma ready_kinderr [simp]: "ready (s\<lparr>kinderr := e\<rparr>) inp st = ready s inp st"
  by (simp add: ready_def live_def)

lemma rlp_item_frame:
  "rlp_item (Lst xs) = frame List (concat (map rlp_item xs))"
  "frame_ok Byte c \<Longrightarrow> rlp_item (Str c) = frame Byte c"
  "frame_ok String c \<Longrightarrow> rlp_item (Str c) = frame String c"
  by (simp_all add: rlp_string_def)

lemma rlp_item_not_Nil: "rlp_item x \<noteq> []"
  by (cases x) (auto simp: rlp_string_def rlp_list_def rlp_head_def)

text \<open>What a decoder has to establish: it read exactly \<open>enc\<close>, and the innermost list had room for it.\<close>

definition consumed :: "bytes \<Rightarrow> (u64 \<times> u64) list \<Rightarrow> bytes \<Rightarrow> stream \<Rightarrow> bool" where
  "consumed inp st enc s' \<longleftrightarrow>
     (\<exists>rest. inp = enc @ rest \<and> ready s' rest (adv (length enc) st)) \<and> fits (length enc) st"

lemma decodeInterface_Str_sound:
  assumes "ready s inp st" "fits 0 st" "length inp < 2 ^ 64"
    and k: "stream_Kind s = (Inr (k, sz), s1)" "k \<noteq> List" and b: "stream_Bytes s1 = (Inr b, s')"
  shows "consumed inp st (rlp_item (Str b)) s'"
proof -
  have "\<not> at_end st" using Kind_EOL [OF assms(1)] k by auto
  from Kind_cases [OF assms(1-3) this] k obtain n h where hdr: "hdr inp = Some (k, n, h)"
    and ok: "kind_ok inp st n h" and sz: "sz = of_nat n"
    and pk: "peeked s1 (drop h inp) (adv h st) k (of_nat n)" and bv: "k = Byte \<longrightarrow> byteval s1 = hd inp"
    by auto
  have fh: "fits h st" "fits (h + n) st" using ok fits_le by (auto simp: kind_ok_def)
  show ?thesis
  proof (cases "k = Byte")
    case True
    with hdr obtain x t where inp: "inp = x # t" "x < 0x80" "h = 1" by (auto simp: hdr_Byte)
    with b bv pk True Bytes_Byte [of s1] fh show ?thesis
      by (auto simp: consumed_def rlp_string_def)
  next
    case False
    then have kS: "k = String" using k by (cases k) auto
    note inv = hdr_inv [OF hdr False]
    have f0: "fits 0 (adv h st)" using fits_adv [OF fh(1), of 0] fh by simp
    have fn: "fits n (adv h st)" using fits_adv [OF fh(1), of n] fh by simp
    have pkS: "peeked s1 (drop h inp) (adv h st) String (of_nat n)" using pk kS by simp
    have lt: "length (drop h inp) < 2 ^ 64" using assms(3) by simp
    from Bytes_String [OF pkS f0 lt] inv b fn have len: "n \<le> length (drop h inp)"
      and nb: "\<not> (n = 1 \<and> hd (drop h inp) < 128)" and bs: "b = take n (drop h inp)" "s' = advance n s1"
      by (auto split: if_splits)
    have lb: "length b = n" using len bs by simp
    have fo: "frame_ok String b"
      using nb lb bs(1) len by (cases "drop h inp") (auto simp: hd_take)
    have enc: "rlp_item (Str b) = head_bytes String n @ b"
      using fo lb frame_head [of String b] by (simp add: rlp_item_frame)
    have "inp = (head_bytes String n @ b) @ drop n (drop h inp)"
      using inv kS bs(1) by (metis append_assoc append_take_drop_id)
    moreover have "live (advance n s1) (drop n (drop h inp)) (adv n (adv h st))"
      using live_advance [OF peeked_live [OF pk] len lt] .
    moreover have "length (head_bytes String n @ b) = h + n" using inv kS lb by simp
    ultimately show ?thesis using bs(2) fh(2) unfolding consumed_def enc
      by (auto simp: ready_def)
  qed
qed

lemma List_peeked:
  assumes "peeked s inp st List sz"
  shows "wrapS stream_List s = (Inr sz, s\<lparr>stack := (0, sz) # st, skind := None, ssize := 0\<rparr>)"
    "ready (s\<lparr>stack := (0, sz) # st, skind := None, ssize := 0\<rparr>) inp ((0, sz) # st)"
  using assms Kind_peeked [OF assms]
  by (auto simp: wrapS_def stream_List_def bindS_def ready_def peeked_def live_def)

lemma ListEnd_ready:
  assumes "ready s inp ((sz, sz) # st)" "unat sz = n"
  shows "\<exists>s'. stream_ListEnd s = (Inr (), s') \<and> ready s' inp (adv n st)"
proof -
  have "of_nat n = sz" using assms(2) by auto
  then show ?thesis
    using assms by (cases st) (auto simp: stream_ListEnd_def ready_def live_def)
qed

lemma decodeSliceElems_no_EOL: "decodeSliceElems fuel s \<noteq> (Inl EOL, s')"
  by (induction fuel arbitrary: s s')
     (auto simp: bindS_Inl returnS_def split: prod.splits sum.splits if_splits)

lemma decodeListSlice_no_EOL: "peeked s inp st List sz \<Longrightarrow> decodeListSlice fuel s \<noteq> (Inl EOL, s')"
  by (cases fuel)
     (auto simp: bindS_Inl List_peeked returnS_def stream_ListEnd_def decodeSliceElems_no_EOL
       split: if_splits list.splits)

lemma decodeInterface_EOL:
  assumes "ready s inp st" "fits 0 st" "length inp < 2 ^ 64"
    and "decodeInterface fuel s = (Inl EOL, s')"
  shows "at_end st \<and> s' = s\<lparr>kinderr := None\<rparr>"
proof (cases "at_end st")
  case True
  with Kind_EOL [OF assms(1)] assms(4) show ?thesis by (cases fuel) (auto simp: bindS_def)
next
  case False
  from assms(4) obtain f where fuel: "fuel = Suc f" by (cases fuel) auto
  from Kind_cases [OF assms(1-3) False] show ?thesis
  proof
    assume "\<exists>k n h s'. hdr inp = Some (k, n, h) \<and> kind_ok inp st n h
      \<and> stream_Kind s = (Inr (k, of_nat n), s') \<and> peeked s' (drop h inp) (adv h st) k (of_nat n)
      \<and> (k = Byte \<longrightarrow> byteval s' = hd inp)"
    then obtain k n h s1 where hdr: "hdr inp = Some (k, n, h)" and ok: "kind_ok inp st n h"
      and kd: "stream_Kind s = (Inr (k, of_nat n), s1)"
      and pk: "peeked s1 (drop h inp) (adv h st) k (of_nat n)" by auto
    have fh: "fits h st" using ok fits_le by (auto simp: kind_ok_def)
    have f0: "fits 0 (adv h st)" using fits_adv [OF fh, of 0] fh by simp
    have "k \<noteq> List \<Longrightarrow> stream_Bytes s1 \<noteq> (Inl EOL, s')"
    proof (cases k)
      case String
      then show ?thesis using Bytes_String [of s1 "drop h inp" "adv h st" n] pk f0 assms(3) hdr_inv [OF hdr]
        by (auto split: if_splits)
    qed (use pk Bytes_Byte in auto)
    moreover have "k = List \<Longrightarrow> decodeListSlice f s1 \<noteq> (Inl EOL, s')"
      using pk decodeListSlice_no_EOL by blast
    ultimately show ?thesis using assms(4) kd by (auto simp: fuel bindS_Inl returnS_def split: if_splits)
  next
    assume "(\<exists>e s'. stream_Kind s = (Inl e, s') \<and> e \<noteq> EOL \<and> e \<noteq> OutOfFuel) \<and>
       (case hdr inp of None \<Rightarrow> True | Some (k, n, h) \<Rightarrow> \<not> kind_ok inp st n h)"
    with assms(4) show ?thesis by (auto simp: fuel bindS_def)
  qed
qed

lemma consumed_append:
  assumes "consumed inp st enc1 s1" "inp = enc1 @ inp1" "consumed inp1 (adv (length enc1) st) enc2 s2"
  shows "consumed inp st (enc1 @ enc2) s2"
  using assms fits_adv [of "length enc1" st "length enc2"] by (auto simp: consumed_def)

lemma decode_sound:
  "(\<forall>s inp st x s'. ready s inp st \<longrightarrow> fits 0 st \<longrightarrow> length inp < 2 ^ 64 \<longrightarrow>
      decodeInterface fuel s = (Inr x, s') \<longrightarrow> consumed inp st (rlp_item x) s') \<and>
   (\<forall>s inp st n xs s'. peeked s inp st List (of_nat n) \<longrightarrow> fits n st \<longrightarrow> n < 2 ^ 64 \<longrightarrow>
      length inp < 2 ^ 64 \<longrightarrow> decodeListSlice fuel s = (Inr xs, s') \<longrightarrow>
      consumed inp st (concat (map rlp_item xs)) s' \<and> length (concat (map rlp_item xs)) = n) \<and>
   (\<forall>s inp p sz st xs s'. ready s inp ((p, sz) # st) \<longrightarrow> unat p \<le> unat sz \<longrightarrow>
      length inp < 2 ^ 64 \<longrightarrow> decodeSliceElems fuel s = (Inr xs, s') \<longrightarrow>
      consumed inp ((p, sz) # st) (concat (map rlp_item xs)) s'
      \<and> unat p + length (concat (map rlp_item xs)) = unat sz)"
proof (induction fuel)
  case 0
  show ?case by simp
next
  case (Suc fuel)
  note IH1 = Suc.IH [THEN conjunct1, rule_format]
  note IH2 = Suc.IH [THEN conjunct2, THEN conjunct1, rule_format]
  note IH3 = Suc.IH [THEN conjunct2, THEN conjunct2, rule_format]
  show ?case
  proof (intro conjI allI impI)
    fix s inp st x s'
    assume rdy: "ready s inp st" "fits 0 st" "length inp < 2 ^ 64"
      and dec: "decodeInterface (Suc fuel) s = (Inr x, s')"
    from dec obtain k sz s1 where kd: "stream_Kind s = (Inr (k, sz), s1)"
      and body: "(if k = List then bindS (decodeListSlice fuel) (\<lambda>xs. returnS (Lst xs))
          else bindS stream_Bytes (\<lambda>b. returnS (Str b))) s1 = (Inr x, s')"
      by (auto simp: bindS_Inr)
    show "consumed inp st (rlp_item x) s'"
    proof (cases "k = List")
      case False
      with body obtain b where "x = Str b" "stream_Bytes s1 = (Inr b, s')"
        by (auto simp: bindS_Inr returnS_def)
      with decodeInterface_Str_sound [OF rdy kd False] show ?thesis by simp
    next
      case True
      with body obtain xs where x: "x = Lst xs" and ls: "decodeListSlice fuel s1 = (Inr xs, s')"
        by (auto simp: bindS_Inr returnS_def)
      have "\<not> at_end st" using Kind_EOL [OF rdy(1)] kd by auto
      from Kind_cases [OF rdy this] kd True obtain n h where hdr: "hdr inp = Some (List, n, h)"
        and ok: "kind_ok inp st n h" and pk: "peeked s1 (drop h inp) (adv h st) List (of_nat n)"
        by auto
      have fh: "fits h st" "fits (h + n) st" using ok fits_le by (auto simp: kind_ok_def)
      have fn: "fits n (adv h st)" using fits_adv [OF fh(1), of n] fh by simp
      have inv: "n < 2 ^ 64" "length (head_bytes List n) = h" "inp = head_bytes List n @ drop h inp"
        using hdr_inv [OF hdr] by auto
      from IH2 [OF pk fn inv(1) _ ls] rdy(3) have
        c: "consumed (drop h inp) (adv h st) (concat (map rlp_item xs)) s'"
        and len: "length (concat (map rlp_item xs)) = n" by auto
      have enc: "rlp_item x = head_bytes List n @ concat (map rlp_item xs)"
        using frame_head [of List "concat (map rlp_item xs)"] len x by (simp add: rlp_item_frame)
      from c obtain rest where "drop h inp = concat (map rlp_item xs) @ rest"
        "ready s' rest (adv n (adv h st))" unfolding consumed_def len by auto
      with inv enc fh(2) len show ?thesis unfolding consumed_def by (auto simp: add.commute)
    qed
  next
    fix s inp st n xs s'
    assume pk: "peeked s inp st List (of_nat n)" and fn: "fits n st" and n: "n < 2 ^ 64"
      and len: "length inp < 2 ^ 64" and dec: "decodeListSlice (Suc fuel) s = (Inr xs, s')"
    let ?s2 = "s\<lparr>stack := (0, of_nat n) # st, skind := None, ssize := 0\<rparr>"
    note lp = List_peeked [OF pk]
    have n0: "(of_nat n :: u64) = 0 \<longleftrightarrow> n = 0" using n by (rule of_nat_u64_eq_0)
    have "consumed inp st (concat (map rlp_item xs)) s' \<and> length (concat (map rlp_item xs)) = n"
    proof (cases "n = 0")
      case True
      with dec lp have "xs = []" "stream_ListEnd ?s2 = (Inr (), s')"
        by (auto simp: bindS_Inr returnS_def)
      with ListEnd_ready [of ?s2 inp 0 st 0] lp(2) True fn show ?thesis
        by (auto simp: consumed_def)
    next
      case False
      with dec lp n0 obtain s3 where el: "decodeSliceElems fuel ?s2 = (Inr xs, s3)"
        and le: "stream_ListEnd s3 = (Inr (), s')" by (auto simp: bindS_Inr returnS_def)
      have un: "unat (of_nat n :: u64) = n" using n by simp
      from IH3 [OF lp(2) _ len el] have c: "consumed inp ((0, of_nat n) # st) (concat (map rlp_item xs)) s3"
        and l: "length (concat (map rlp_item xs)) = n" using un by auto
      then obtain rest where r: "inp = concat (map rlp_item xs) @ rest" "ready s3 rest ((of_nat n, of_nat n) # st)"
        unfolding consumed_def by auto
      from ListEnd_ready [OF r(2) un] le r(1) l fn show ?thesis by (auto simp: consumed_def)
    qed
    then show "consumed inp st (concat (map rlp_item xs)) s'" "length (concat (map rlp_item xs)) = n"
      by auto
  next
    fix s inp p sz st xs s'
    assume rdy: "ready s inp ((p, sz) # st)" and psz: "unat p \<le> unat sz" and len: "length inp < 2 ^ 64"
      and dec: "decodeSliceElems (Suc fuel) s = (Inr xs, s')"
    have f0: "fits 0 ((p, sz) # st)" using psz by simp
    have "consumed inp ((p, sz) # st) (concat (map rlp_item xs)) s'
      \<and> unat p + length (concat (map rlp_item xs)) = unat sz"
    proof (cases "decodeInterface fuel s")
      case (Pair r s1)
      show ?thesis
      proof (cases r)
        case (Inl e)
        with dec Pair have "e = EOL" "xs = []" "s' = s1" by (auto split: if_splits)
        with decodeInterface_EOL [OF rdy f0 len] Pair Inl have
          "at_end ((p, sz) # st)" "s' = s\<lparr>kinderr := None\<rparr>" by auto
        with rdy \<open>xs = []\<close> show ?thesis by (auto simp: consumed_def at_end_def)
      next
        case (Inr x)
        with dec Pair obtain ys where ys: "decodeSliceElems fuel s1 = (Inr ys, s')" "xs = x # ys"
          by (auto simp: bindS_Inr returnS_def)
        have c1: "consumed inp ((p, sz) # st) (rlp_item x) s1" using IH1 [OF rdy f0 len] Pair Inr by simp
        then obtain rest where r: "inp = rlp_item x @ rest"
          "ready s1 rest ((p + of_nat (length (rlp_item x)), sz) # st)"
          "unat p + length (rlp_item x) \<le> unat sz" unfolding consumed_def by auto
        have up: "unat (p + of_nat (length (rlp_item x))) = unat p + length (rlp_item x)"
          using r(3) by (rule unat_plus_of_nat)
        have lr: "length rest < 2 ^ 64" using len r(1) by simp
        from IH3 [OF r(2) _ lr ys(1)] up r(3) have
          c2: "consumed rest (adv (length (rlp_item x)) ((p, sz) # st)) (concat (map rlp_item ys)) s'"
          and l: "unat p + length (rlp_item x) + length (concat (map rlp_item ys)) = unat sz" by auto
        from consumed_append [OF c1 r(1) c2] l ys(2) show ?thesis by (auto simp: add.assoc)
      qed
    qed
    then show "consumed inp ((p, sz) # st) (concat (map rlp_item xs)) s'"
      "unat p + length (concat (map rlp_item xs)) = unat sz" by auto
  qed
qed

end
