(* ===== verification/Rlp_Codec.thy ===== *)
theory Rlp_Codec
  imports Rlp_Stream_Correct
begin

text \<open>
  Completeness of the stream decoder, the bound on its recursion, and the codec the two coders form
  together: decoding inverts encoding, and what decodes is the encoding of the result.
\<close>

section \<open>Completeness\<close>

lemma Kind_item:
  assumes rdy: "ready s inp st" and len: "length inp < 2 ^ 64"
    and fr: "k \<noteq> Byte" "frame_ok k c" "inp = frame k c @ rest" "fits (length (frame k c)) st"
  shows "\<exists>s1. stream_Kind s = (Inr (k, of_nat (length c)), s1)
    \<and> peeked s1 (c @ rest) (adv (length (head_bytes k (length c))) st) k (of_nat (length c))
    \<and> fits (length c) (adv (length (head_bytes k (length c))) st)
    \<and> length c < 2 ^ 64 \<and> 1 \<le> length (head_bytes k (length c))"
proof -
  let ?h = "length (head_bytes k (length c))"
  have fe: "frame k c = head_bytes k (length c) @ c" using frame_head fr by simp
  have lc: "length c < 2 ^ 64" using len fr(3) fe by simp
  have hdr: "hdr inp = Some (k, length c, ?h)"
    using hdr_head_bytes [OF lc fr(1)] fr(3) fe by simp
  have h1: "1 \<le> ?h" using hdr_length [OF hdr] by simp
  have fits: "fits (?h + length c) st" "fits ?h st" "fits 0 st"
    using fr(4) fe fits_le [of "?h + length c" st] by auto
  have ne: "\<not> at_end st" using fits(2) h1 by (auto simp: at_end_def)
  have ok: "kind_ok inp st (length c) ?h" using fits fr(3) fe by (simp add: kind_ok_def)
  have dr: "drop ?h inp = c @ rest" using fr(3) fe by simp
  have fc: "fits (length c) (adv ?h st)" using fits_adv [OF fits(2)] fits(1) by simp
  from Kind_cases [OF rdy fits(3) len ne] show ?thesis
    using hdr ok dr fc lc h1 by auto
qed

lemma Byte_item:
  assumes rdy: "ready s ([b] @ rest) st" and len: "length ([b] @ rest) < 2 ^ 64" and b: "b < 0x80"
    and ft: "fits 1 st"
  shows "\<exists>s1 s2 sz. stream_Kind s = (Inr (Byte, sz), s1) \<and> stream_Bytes s1 = (Inr [b], s2)
    \<and> ready s2 rest (adv 1 st)"
proof -
  have hdr: "hdr ([b] @ rest) = Some (Byte, 0, 1)" using b by (simp add: hdr_Byte)
  have ne: "\<not> at_end st" using ft by (auto simp: at_end_def)
  have ok: "kind_ok ([b] @ rest) st 0 1" using ft by (simp add: kind_ok_def)
  from Kind_cases [OF rdy fits_le [OF ft] len ne] hdr ok obtain s1 where
    "stream_Kind s = (Inr (Byte, 0), s1)" "peeked s1 rest (adv 1 st) Byte 0" "byteval s1 = b"
    by auto
  with Bytes_Byte [of s1] show ?thesis by auto
qed

lemma Str_item:
  assumes rdy: "ready s (rlp_item (Str c) @ rest) st" and len: "length (rlp_item (Str c) @ rest) < 2 ^ 64"
    and ft: "fits (length (rlp_item (Str c))) st"
  shows "\<exists>k sz s1 s2. stream_Kind s = (Inr (k, sz), s1) \<and> k \<noteq> List \<and> stream_Bytes s1 = (Inr c, s2)
    \<and> ready s2 rest (adv (length (rlp_item (Str c))) st)"
proof (cases "frame_ok Byte c")
  case True
  then obtain b where "c = [b]" "b < 0x80" by (cases c) auto
  with Byte_item [of s b rest st] assms show ?thesis by (fastforce simp: rlp_string_def)
next
  case False
  then have ok: "frame_ok String c" by simp
  let ?h = "length (head_bytes String (length c))"
  have fe: "rlp_item (Str c) = head_bytes String (length c) @ c"
    using ok frame_head [of String c] by simp
  from Kind_item [OF rdy len _ ok, of rest] ft obtain s1 where
    kd: "stream_Kind s = (Inr (String, of_nat (length c)), s1)"
    and pk: "peeked s1 (c @ rest) (adv ?h st) String (of_nat (length c))"
    and fc: "fits (length c) (adv ?h st)" and lc: "length c < 2 ^ 64" by auto
  have lcr: "length (c @ rest) < 2 ^ 64" using len fe by simp
  have lv: "live (advance (length c) s1) rest (adv (length c) (adv ?h st))"
    using live_advance [OF peeked_live [OF pk], of "length c"] lcr by simp
  have nb: "\<not> (length c = 1 \<and> hd (c @ rest) < 128)" using ok by (cases c) auto
  have "stream_Bytes s1 = (Inr c, advance (length c) s1)"
    using Bytes_String [OF pk fits_le [OF fc] lcr lc] fc nb by auto
  with kd lv fe show ?thesis by (auto simp: ready_def)
qed

lemma decode_complete:
  "(\<forall>s st x rest. ready s (rlp_item x @ rest) st \<longrightarrow> length (rlp_item x @ rest) < 2 ^ 64 \<longrightarrow>
      fits (length (rlp_item x)) st \<longrightarrow> 3 * length (rlp_item x) + 1 \<le> fuel \<longrightarrow>
      (\<exists>s'. decodeInterface fuel s = (Inr x, s') \<and> ready s' rest (adv (length (rlp_item x)) st))) \<and>
   (\<forall>s st xs rest. let c = concat (map rlp_item xs) in
      peeked s (c @ rest) st List (of_nat (length c)) \<longrightarrow> length (c @ rest) < 2 ^ 64 \<longrightarrow>
      fits (length c) st \<longrightarrow> 3 * length c + 3 \<le> fuel \<longrightarrow>
      (\<exists>s'. decodeListSlice fuel s = (Inr xs, s') \<and> ready s' rest (adv (length c) st))) \<and>
   (\<forall>s p sz st xs rest. let c = concat (map rlp_item xs) in
      ready s (c @ rest) ((p, sz) # st) \<longrightarrow> length (c @ rest) < 2 ^ 64 \<longrightarrow>
      unat p + length c = unat sz \<longrightarrow> 3 * length c + 2 \<le> fuel \<longrightarrow>
      (\<exists>s'. decodeSliceElems fuel s = (Inr xs, s') \<and> ready s' rest ((sz, sz) # st)))"
proof (induction fuel)
  case 0
  show ?case by (simp add: Let_def)
next
  case (Suc fuel)
  note IH1 = Suc.IH [THEN conjunct1, rule_format]
  note IH2 = Suc.IH [THEN conjunct2, THEN conjunct1, unfolded Let_def, rule_format]
  note IH3 = Suc.IH [THEN conjunct2, THEN conjunct2, unfolded Let_def, rule_format]
  show ?case unfolding Let_def
  proof (intro conjI allI impI)
    fix s st x rest
    assume rdy: "ready s (rlp_item x @ rest) st" and len: "length (rlp_item x @ rest) < 2 ^ 64"
      and ft: "fits (length (rlp_item x)) st" and fuel: "3 * length (rlp_item x) + 1 \<le> Suc fuel"
    show "\<exists>s'. decodeInterface (Suc fuel) s = (Inr x, s') \<and> ready s' rest (adv (length (rlp_item x)) st)"
    proof (cases x)
      case (Str c)
      with Str_item [of s c rest st] rdy len ft show ?thesis by (auto simp: bindS_def returnS_def)
    next
      case (Lst xs)
      let ?c = "concat (map rlp_item xs)"
      let ?h = "length (head_bytes List (length ?c))"
      have fe: "rlp_item x = head_bytes List (length ?c) @ ?c"
        using frame_head [of List ?c] Lst by (simp add: rlp_item_frame)
      from Kind_item [OF rdy len, of List ?c rest] ft Lst obtain s1 where
        kd: "stream_Kind s = (Inr (List, of_nat (length ?c)), s1)"
        and pk: "peeked s1 (?c @ rest) (adv ?h st) List (of_nat (length ?c))"
        and fc: "fits (length ?c) (adv ?h st)" and h1: "1 \<le> ?h" by (auto simp: rlp_item_frame)
      from IH2 [OF pk _ fc] len fuel fe h1 obtain s' where
        "decodeListSlice fuel s1 = (Inr xs, s')" "ready s' rest (adv (length ?c) (adv ?h st))" by auto
      with kd fe Lst show ?thesis by (auto simp: bindS_def returnS_def)
    qed
  next
    fix s st xs rest
    let ?c = "concat (map rlp_item xs)"
    assume pk: "peeked s (?c @ rest) st List (of_nat (length ?c))" and len: "length (?c @ rest) < 2 ^ 64"
      and ft: "fits (length ?c) st" and fuel: "3 * length ?c + 3 \<le> Suc fuel"
    let ?s2 = "s\<lparr>stack := (0, of_nat (length ?c)) # st, skind := None, ssize := 0\<rparr>"
    note lp = List_peeked [OF pk]
    have un: "unat (of_nat (length ?c) :: u64) = length ?c" using len by simp
    show "\<exists>s'. decodeListSlice (Suc fuel) s = (Inr xs, s') \<and> ready s' rest (adv (length ?c) st)"
    proof (cases "xs = []")
      case True
      with ListEnd_ready [of ?s2 rest 0 st 0] lp show ?thesis by (auto simp: bindS_def returnS_def)
    next
      case False
      then have "length ?c \<noteq> 0" using rlp_item_not_Nil by (cases xs) auto
      then have n0: "(of_nat (length ?c) :: u64) \<noteq> 0" using len of_nat_u64_eq_0 [of "length ?c"] by simp
      from IH3 [OF lp(2) len] un fuel obtain s3 where
        el: "decodeSliceElems fuel ?s2 = (Inr xs, s3)" "ready s3 rest ((of_nat (length ?c), of_nat (length ?c)) # st)"
        by auto
      from ListEnd_ready [OF el(2) un] obtain s4 where
        "stream_ListEnd s3 = (Inr (), s4)" "ready s4 rest (adv (length ?c) st)" by blast
      with el(1) n0 lp(1) show ?thesis by (simp add: bindS_def returnS_def)
    qed
  next
    fix s p sz st xs rest
    let ?c = "concat (map rlp_item xs)"
    assume rdy: "ready s (?c @ rest) ((p, sz) # st)" and len: "length (?c @ rest) < 2 ^ 64"
      and psz: "unat p + length ?c = unat sz" and fuel: "3 * length ?c + 2 \<le> Suc fuel"
    show "\<exists>s'. decodeSliceElems (Suc fuel) s = (Inr xs, s') \<and> ready s' rest ((sz, sz) # st)"
    proof (cases xs)
      case Nil
      then have "p = sz" using psz by (simp add: word_unat_eq_iff)
      then have "at_end ((p, sz) # st)" by (simp add: at_end_def)
      from Kind_EOL [OF rdy this] fuel rdy Nil \<open>p = sz\<close> show ?thesis
        by (cases fuel) (auto simp: bindS_def)
    next
      case (Cons x ys)
      let ?d = "concat (map rlp_item ys)"
      have ft: "fits (length (rlp_item x)) ((p, sz) # st)" using psz Cons by simp
      have r1: "ready s (rlp_item x @ (?d @ rest)) ((p, sz) # st)" using rdy Cons by simp
      have l1: "length (rlp_item x @ (?d @ rest)) < 2 ^ 64" using len Cons by simp
      have fx: "3 * length (rlp_item x) + 1 \<le> fuel" using fuel Cons by simp
      from IH1 [OF r1 l1 ft fx] obtain s1 where d1: "decodeInterface fuel s = (Inr x, s1)"
        and r2: "ready s1 (?d @ rest) ((p + of_nat (length (rlp_item x)), sz) # st)" by auto
      have up: "unat (p + of_nat (length (rlp_item x))) = unat p + length (rlp_item x)"
        using ft by (intro unat_plus_of_nat) simp
      have fd: "3 * length ?d + 2 \<le> fuel" using fuel Cons rlp_item_not_Nil [of x]
        by (cases "rlp_item x") auto
      from IH3 [OF r2 _ _ fd] up psz Cons len d1 show ?thesis by (auto simp: bindS_def returnS_def)
    qed
  qed
qed

section \<open>The recursion ends\<close>

lemma decode_fuel:
  "(\<forall>s inp st. ready s inp st \<longrightarrow> fits 0 st \<longrightarrow> length inp < 2 ^ 64 \<longrightarrow> 3 * length inp + 1 \<le> fuel \<longrightarrow>
      fst (decodeInterface fuel s) \<noteq> Inl OutOfFuel) \<and>
   (\<forall>s inp st n. peeked s inp st List (of_nat n) \<longrightarrow> n < 2 ^ 64 \<longrightarrow> length inp < 2 ^ 64 \<longrightarrow>
      3 * length inp + 3 \<le> fuel \<longrightarrow> fst (decodeListSlice fuel s) \<noteq> Inl OutOfFuel) \<and>
   (\<forall>s inp p sz st. ready s inp ((p, sz) # st) \<longrightarrow> unat p \<le> unat sz \<longrightarrow> length inp < 2 ^ 64 \<longrightarrow>
      3 * length inp + 2 \<le> fuel \<longrightarrow> fst (decodeSliceElems fuel s) \<noteq> Inl OutOfFuel)"
proof (induction fuel)
  case 0
  show ?case by simp
next
  case (Suc fuel)
  note IH1 = Suc.IH [THEN conjunct1, rule_format]
  note IH2 = Suc.IH [THEN conjunct2, THEN conjunct1, rule_format]
  note IH3 = Suc.IH [THEN conjunct2, THEN conjunct2, rule_format]
  show ?case
  proof (intro conjI allI impI)
    fix s inp st
    assume rdy: "ready s inp st" "fits 0 st" "length inp < 2 ^ 64" and fuel: "3 * length inp + 1 \<le> Suc fuel"
    show "fst (decodeInterface (Suc fuel) s) \<noteq> Inl OutOfFuel"
    proof (cases "at_end st")
      case True
      with Kind_EOL [OF rdy(1)] show ?thesis by (simp add: bindS_def)
    next
      case False
      from Kind_cases [OF rdy False] show ?thesis
      proof
        assume "\<exists>k n h s'. hdr inp = Some (k, n, h) \<and> kind_ok inp st n h
            \<and> stream_Kind s = (Inr (k, of_nat n), s')
            \<and> peeked s' (drop h inp) (adv h st) k (of_nat n) \<and> (k = Byte \<longrightarrow> byteval s' = hd inp)"
        then obtain k n h s1 where hdr: "hdr inp = Some (k, n, h)" and ok: "kind_ok inp st n h"
          and kd: "stream_Kind s = (Inr (k, of_nat n), s1)"
          and pk: "peeked s1 (drop h inp) (adv h st) k (of_nat n)" by auto
        have fh: "fits h st" using ok fits_le by (auto simp: kind_ok_def)
        have f0: "fits 0 (adv h st)" using fits_adv [OF fh, of 0] fh by simp
        have n: "n < 2 ^ 64" using hdr_inv [OF hdr] hdr by (cases "k = Byte") (auto simp: hdr_Byte)
        have "k \<noteq> List \<Longrightarrow> fst (stream_Bytes s1) \<noteq> Inl OutOfFuel"
        proof (cases k)
          case String
          then show ?thesis using Bytes_String [of s1 "drop h inp" "adv h st" n] pk f0 rdy(3) n by auto
        qed (use pk Bytes_Byte in auto)
        moreover have "k = List \<Longrightarrow> fst (decodeListSlice fuel s1) \<noteq> Inl OutOfFuel"
          using IH2 [of s1 "drop h inp" "adv h st" n] pk n rdy(3) fuel hdr_length [OF hdr] by auto
        ultimately show ?thesis using kd
          by (auto simp: bindS_def returnS_def split: prod.splits sum.splits)
      next
        assume "(\<exists>e s'. stream_Kind s = (Inl e, s') \<and> e \<noteq> EOL \<and> e \<noteq> OutOfFuel)
          \<and> (case hdr inp of None \<Rightarrow> True | Some (k, n, h) \<Rightarrow> \<not> kind_ok inp st n h)"
        then show ?thesis by (auto simp: bindS_def)
      qed
    qed
  next
    fix s inp st n
    assume pk: "peeked s inp st List (of_nat n)" and n: "n < 2 ^ 64" and len: "length inp < 2 ^ 64"
      and fuel: "3 * length inp + 3 \<le> Suc fuel"
    let ?s2 = "s\<lparr>stack := (0, of_nat n) # st, skind := None, ssize := 0\<rparr>"
    note lp = List_peeked [OF pk]
    have le: "fst (stream_ListEnd s') \<noteq> Inl OutOfFuel" for s'
      by (auto simp: stream_ListEnd_def failS_def split: list.splits)
    have "fst (decodeSliceElems fuel ?s2) \<noteq> Inl OutOfFuel"
      using IH3 [OF lp(2) _ len] fuel by simp
    with lp(1) le show "fst (decodeListSlice (Suc fuel) s) \<noteq> Inl OutOfFuel"
      by (auto simp: bindS_def returnS_def split: prod.splits sum.splits) (metis fst_conv)+
  next
    fix s inp p sz st
    assume rdy: "ready s inp ((p, sz) # st)" and psz: "unat p \<le> unat sz" and len: "length inp < 2 ^ 64"
      and fuel: "3 * length inp + 2 \<le> Suc fuel"
    have f0: "fits 0 ((p, sz) # st)" using psz by simp
    obtain r s1 where d: "decodeInterface fuel s = (r, s1)" by fastforce
    have ne: "r \<noteq> Inl OutOfFuel" using IH1 [OF rdy f0 len] fuel d by simp
    have "fst (decodeSliceElems fuel s1) \<noteq> Inl OutOfFuel" if "r = Inr x" for x
    proof -
      from decode_sound [THEN conjunct1, rule_format, OF rdy f0 len] d that
      have "consumed inp ((p, sz) # st) (rlp_item x) s1" by simp
      then obtain rest where r: "inp = rlp_item x @ rest"
        "ready s1 rest ((p + of_nat (length (rlp_item x)), sz) # st)"
        "unat p + length (rlp_item x) \<le> unat sz" unfolding consumed_def by auto
      have "unat (p + of_nat (length (rlp_item x))) \<le> unat sz" using unat_plus_of_nat [OF r(3)] r(3) by simp
      moreover have "3 * length rest + 2 \<le> fuel"
        using fuel r(1) rlp_item_not_Nil [of x] by (cases "rlp_item x") auto
      ultimately show ?thesis using IH3 [OF r(2)] len r(1) by simp
    qed
    with d ne show "fst (decodeSliceElems (Suc fuel) s) \<noteq> Inl OutOfFuel"
      by (cases r) (auto simp: bindS_def returnS_def split: prod.splits sum.splits)
  qed
qed

section \<open>Decoding a byte string\<close>

lemma ready_NewStream:
  "length b < 2 ^ 64 \<Longrightarrow> b \<noteq> [] \<Longrightarrow> ready (NewStream b (of_nat (length b))) b []"
  by (auto simp: NewStream_def ready_def live_def of_nat_u64_eq_0)

lemma DecodeBytes_Nil: "\<exists>e. DecodeBytes [] = Inl e \<and> e \<noteq> OutOfFuel"
  by (simp add: DecodeBytes_def NewStream_def numeral_eq_Suc bindS_def stream_Kind_def stream_readKind_def
      readByte_def willRead_def Let_def)

lemma DecodeBytes_sound:
  assumes "DecodeBytes b = Inr x" "length b < 2 ^ 64"
  shows "b = rlp_item x"
proof (cases "b = []")
  case True
  with assms(1) DecodeBytes_Nil show ?thesis by auto
next
  case False
  from assms(1) obtain s where "decodeInterface (3 * length b + 3) (NewStream b (of_nat (length b))) = (Inr x, s)"
    "rd s = []" by (auto simp: DecodeBytes_def split: prod.splits sum.splits if_splits)
  moreover from this decode_sound [THEN conjunct1, rule_format, OF ready_NewStream [OF assms(2) False] _ assms(2)]
  have "consumed b [] (rlp_item x) s" by simp
  ultimately show ?thesis by (auto simp: consumed_def ready_def live_def)
qed

lemma DecodeBytes_complete:
  assumes "length (rlp_item x) < 2 ^ 64"
  shows "DecodeBytes (rlp_item x) = Inr x"
proof -
  from decode_complete [of "3 * length (rlp_item x) + 3", THEN conjunct1, rule_format, of "NewStream (rlp_item x) (of_nat (length (rlp_item x)))" x "[]" "[]"]
    ready_NewStream [OF assms rlp_item_not_Nil] assms
  obtain s where "decodeInterface (3 * length (rlp_item x) + 3) (NewStream (rlp_item x) (of_nat (length (rlp_item x)))) = (Inr x, s)"
    "ready s [] []" by fastforce
  then show ?thesis by (simp add: DecodeBytes_def ready_def live_def)
qed

lemma DecodeBytes_fuel:
  assumes "length b < 2 ^ 64"
  shows "DecodeBytes b \<noteq> Inl OutOfFuel"
proof (cases "b = []")
  case True
  with DecodeBytes_Nil show ?thesis by auto
next
  case False
  from decode_fuel [of "3 * length b + 3", THEN conjunct1, rule_format, OF ready_NewStream [OF assms False] _ assms]
  show ?thesis by (auto simp: DecodeBytes_def split: prod.splits sum.splits)
qed

section \<open>The codec\<close>

interpretation rlp: canonical_codec rlp_item DecodeBytes "\<lambda>x. length (rlp_item x) < 2 ^ 64"
    "\<lambda>b. length b < 2 ^ 64"
  using DecodeBytes_complete DecodeBytes_sound by unfold_locales auto

text \<open>The value \<open>decodeInterface\<close> leaves in an \<open>interface{}\<close> variable, as the encoder sees it: a
  \<open>[]byte\<close>, or an \<open>[]interface{}\<close> of such values.\<close>

fun goval_of :: "item \<Rightarrow> goval" where
  "goval_of (Str b) = GBytes b"
| "goval_of (Lst xs) = GSlice (map (\<lambda>x. GInterface (goval_of x)) xs)"

lemma ref_encode_goval_of: "ref_encode (goval_of x) = Inr (rlp_item x)"
proof (induction x)
  case (Lst xs)
  then have "ref_encode_elems (map (\<lambda>x. GInterface (goval_of x)) xs) = Inr (concat (map rlp_item xs))"
    by (induction xs) auto
  then show ?case by simp
qed simp

lemma reflect_goval_of [simp]: "reflect_ValueOf (goval_of x) \<noteq> None"
  by (cases x) simp_all

text \<open>
  C1. \<open>rlp.EncodeToBytes\<close> and \<open>rlp.Encode\<close> panic when they are passed a nil interface.  On every other
  value they produce the reference encoding, whatever the pooled buffer they start from still holds: the
  bytes returned and the concatenation of the chunks written are \<open>ref_encode v\<close>, and they fail exactly
  when the value has no encoding.  Booleans are among the values that are encoded, although the comment
  on \<open>Encode\<close> says that they are not supported.
\<close>

theorem EncodeToBytes_is_reference:
  assumes "\<forall>bs. ref_encode v = Inr bs \<longrightarrow> length bs < 2 ^ 64"
  shows "(case reflect_ValueOf v of
      None \<Rightarrow> EncodeToBytes eb v = Inl NilValue \<and> Encode eb v = Inl NilValue
    | Some _ \<Rightarrow> EncodeToBytes eb v = ref_encode v \<and> bindE (Encode eb v) (\<lambda>ws. Inr (concat ws)) = ref_encode v)"
proof (cases "reflect_ValueOf v")
  case None
  then show ?thesis by (simp add: EncodeToBytes_def Encode_def encbuf_encode_def)
next
  case (Some rval)
  then have nn: "reflect_ValueOf v \<noteq> None" by simp
  show ?thesis
  proof (cases "ref_encode v")
    case (Inl e)
    with EncodeToBytes_Inl [OF Inl nn] Some show ?thesis by simp
  next
    case (Inr bs)
    with assms have len: "length bs < 2 ^ 64" by blast
    from EncodeToBytes_Inr [OF Inr len nn, of eb] obtain ws where
      "EncodeToBytes eb v = Inr bs" "Encode eb v = Inr ws" "concat ws = bs" by blast
    with Inr Some show ?thesis by (simp only: bindE_simps simp_thms option.case)
  qed
qed

theorem EncodeToBytes_is_reference_witness:
  "EncodeToBytes \<lparr>str = [7], lheads = [\<lparr>offset = 9, lsize = 1\<rparr>], lhsize = 3\<rparr>
     (GStruct [GUint 1024, GSlice [GBytes [0x83], GString [0x61]]])
   = Inr [0xC7, 0x82, 0x04, 0x00, 0xC3, 0x81, 0x83, 0x61]"
proof -
  let ?v = "GStruct [GUint 1024, GSlice [GBytes [0x83], GString [0x61]]]"
  have "ref_encode ?v = Inr [0xC7, 0x82, 0x04, 0x00, 0xC3, 0x81, 0x83, 0x61]" by code_simp
  with EncodeToBytes_is_reference [of ?v] show ?thesis by simp
qed

text \<open>
  C2. The decoder is canonical: \<open>rlp.DecodeBytes\<close> into an \<open>interface{}\<close> accepts a byte string with
  the value \<open>x\<close> if and only if the string is the reference encoding of \<open>x\<close>, so two different byte
  strings never decode to the same value.
\<close>

theorem DecodeBytes_exactly_encodings:
  assumes "length b < 2 ^ 64"
  shows "DecodeBytes b = Inr x \<longleftrightarrow> b = rlp_item x"
  using assms rlp.dec_iff [of b x] by auto

theorem DecodeBytes_exactly_encodings_witness:
  "DecodeBytes [0xC7, 0x82, 0x04, 0x00, 0xC3, 0x81, 0x83, 0x61] = Inr (Lst [Str [4, 0], Lst [Str [0x83], Str [0x61]]])"
proof -
  have "[0xC7, 0x82, 0x04, 0x00, 0xC3, 0x81, 0x83, 0x61] = rlp_item (Lst [Str [4, 0], Lst [Str [0x83], Str [0x61]]])"
    by code_simp
  moreover have "length [0xC7, 0x82, 0x04, 0x00, 0xC3, 0x81, 0x83, 0x61 :: byte] < 2 ^ 64" by simp
  ultimately show ?thesis by (simp only: DecodeBytes_exactly_encodings)
qed

text \<open>
  C4. What \<open>DecodeBytes\<close> accepts, \<open>EncodeToBytes\<close> reproduces: encoding the decoded value gives back
  the input, byte for byte, and decoding that gives the value again.
\<close>

theorem decode_encode_interface:
  assumes "length b < 2 ^ 64" "DecodeBytes b = Inr x"
  shows "EncodeToBytes eb (goval_of x) = Inr b \<and> bindE (EncodeToBytes eb (goval_of x)) DecodeBytes = Inr x"
  using assms rlp.dec_iff [of b x] EncodeToBytes_Inr(1) [OF ref_encode_goval_of [of x] _ reflect_goval_of] by auto

theorem decode_encode_interface_witness:
  "EncodeToBytes \<lparr>str = [1, 2], lheads = [], lhsize = 0\<rparr> (goval_of (Lst [Str [0x83], Str []])) = Inr [0xC3, 0x81, 0x83, 0x80]"
proof -
  have "DecodeBytes [0xC3, 0x81, 0x83, 0x80] = Inr (Lst [Str [0x83], Str []])" by code_simp
  from decode_encode_interface [OF _ this, of "\<lparr>str = [1, 2], lheads = [], lhsize = 0\<rparr>"]
  show ?thesis by (simp del: goval_of.simps)
qed

text \<open>
  C5. \<open>DecodeBytes\<close> returns on every input: the recursion through nested lists never exceeds the
  bound given by the length of the input.
\<close>

theorem DecodeBytes_returns:
  assumes "length b < 2 ^ 64"
  shows "DecodeBytes b \<noteq> Inl OutOfFuel"
  using assms by (rule DecodeBytes_fuel)

theorem DecodeBytes_returns_witness:
  "length [0xC3, 0xC2, 0xC1, 0xC0 :: byte] < 2 ^ 64 \<and> DecodeBytes [0xC3, 0xC2, 0xC1, 0xC0] \<noteq> Inl OutOfFuel"
  using DecodeBytes_returns [of "[0xC3, 0xC2, 0xC1, 0xC0]"] by simp

text \<open>
  C6. \<open>rlp.Split\<close> cuts off exactly one well-formed value: it returns kind, content and rest if and
  only if the input is the encoding of that content followed by the rest.
\<close>

theorem Split_exact:
  assumes "length b < 2 ^ 64"
  shows "Split b = Inr (k, c, r) \<longleftrightarrow> frame_ok k c \<and> b = frame k c @ r"
  using assms Split_inv Split_frame by auto

theorem Split_exact_witness:
  "Split [0xC3, 0x81, 0x83, 0x80, 0x05] = Inr (List, [0x81, 0x83, 0x80], [0x05])"
proof -
  have "frame_ok List [0x81, 0x83, 0x80]" "[0xC3, 0x81, 0x83, 0x80, 0x05] = frame List [0x81, 0x83, 0x80] @ [0x05]"
    by code_simp+
  then show ?thesis using Split_exact [of "[0xC3, 0x81, 0x83, 0x80, 0x05]"] by simp
qed

text \<open>
  C7. \<open>rlp.CountValues\<close> returns \<open>n\<close> if and only if the input is the concatenation of \<open>n\<close>
  well-formed encodings, and its loop always ends.
\<close>

theorem CountValues_exact:
  assumes "length b < 2 ^ 64"
  shows "(CountValues b = Inr n \<longleftrightarrow>
      (\<exists>fs. (\<forall>(k, c) \<in> set fs. frame_ok k c) \<and> b = concat (map (\<lambda>(k, c). frame k c) fs) \<and> n = length fs))
    \<and> CountValues b \<noteq> Inl OutOfFuel"
proof (intro conjI iffI)
  assume "CountValues b = Inr n"
  then show "\<exists>fs. (\<forall>(k, c) \<in> set fs. frame_ok k c) \<and> b = concat (map (\<lambda>(k, c). frame k c) fs) \<and> n = length fs"
    using CountValues_loop_inv [of "length b" b 0 n] assms by (auto simp: CountValues_def)
next
  assume "\<exists>fs. (\<forall>(k, c) \<in> set fs. frame_ok k c) \<and> b = concat (map (\<lambda>(k, c). frame k c) fs) \<and> n = length fs"
  then obtain fs where fs: "\<forall>(k, c) \<in> set fs. frame_ok k c" "b = concat (map (\<lambda>(k, c). frame k c) fs)"
    "n = length fs" by auto
  have "length fs \<le> length b"
    unfolding fs(2) using fs(1)
  proof (induction fs)
    case (Cons f fs)
    then have "1 \<le> length (frame (fst f) (snd f))" using frame_not_Nil [of "fst f" "snd f"]
      by (cases "frame (fst f) (snd f)") auto
    with Cons show ?case by (auto simp: case_prod_beta)
  qed simp
  with CountValues_loop_frames [OF fs(1), of "length b" 0] fs assms show "CountValues b = Inr n"
    by (simp add: CountValues_def)
next
  show "CountValues b \<noteq> Inl OutOfFuel"
    using CountValues_loop_fuel [of b "length b"] assms by (simp add: CountValues_def)
qed

theorem CountValues_exact_witness: "CountValues [0xC3, 0x81, 0x83, 0x80, 0x05] = Inr 2"
proof -
  let ?fs = "[(List, [0x81, 0x83, 0x80 :: byte]), (Byte, [0x05])]"
  have "(\<forall>(k, c) \<in> set ?fs. frame_ok k c) \<and> [0xC3, 0x81, 0x83, 0x80, 0x05] = concat (map (\<lambda>(k, c). frame k c) ?fs)
    \<and> 2 = length ?fs"
    by code_simp
  then have "\<exists>fs. (\<forall>(k, c) \<in> set fs. frame_ok k c)
    \<and> [0xC3, 0x81, 0x83, 0x80, 0x05] = concat (map (\<lambda>(k, c). frame k c) fs) \<and> 2 = length fs" by blast
  then show ?thesis using CountValues_exact [of "[0xC3, 0x81, 0x83, 0x80, 0x05]" 2] by simp
qed

end
