(* ===== verification/Common_Types.thy ===== *)
theory Common_Types
  imports Go_Prelude
begin

text \<open>
  Fixed-size byte arrays (\<open>common.Hash\<close>, \<open>common.Address\<close>, \<open>types.BlockNonce\<close>) as words.  The word
  holds the array read as a big-endian number; \<open>word_bytes\<close> is the array itself (\<open>h[:]\<close>).
  \<open>bytes.Compare\<close> on such arrays is the order of the words (\<open>bytes_Compare_word\<close>).
\<close>

section \<open>Arrays and words\<close>

definition be_fixed :: "nat \<Rightarrow> nat \<Rightarrow> bytes" where
  "be_fixed k n = map (\<lambda>i. of_nat (n div 256 ^ (k - 1 - i))) [0..<k]"

definition word_bytes :: "'a :: len word \<Rightarrow> bytes" where
  "word_bytes w = be_fixed (LENGTH('a) div 8) (unat w)"

lemma length_be_fixed [simp]: "length (be_fixed k n) = k"
  by (simp add: be_fixed_def)

lemma be_fixed_0 [simp]: "be_fixed 0 n = []"
  by (simp add: be_fixed_def)

lemma be_fixed_Suc: "be_fixed (Suc k) n = be_fixed k (n div 256) @ [of_nat n]"
proof -
  have "(n div 256) div 256 ^ (k - 1 - i) = n div 256 ^ (k - i)" if "i < k" for i
  proof -
    have "k - i = Suc (k - 1 - i)" using that by simp
    then show ?thesis by (simp add: div_mult2_eq)
  qed
  then show ?thesis by (auto simp: be_fixed_def)
qed

lemma be_nat_be_fixed: "be_nat (be_fixed k n) = n mod 256 ^ k"
proof (induction k arbitrary: n)
  case (Suc k)
  have "be_nat (be_fixed (Suc k) n) = (n div 256) mod 256 ^ k * 256 + n mod 256"
    using Suc by (simp add: be_fixed_Suc be_nat_snoc)
  also have "\<dots> = n mod (256 * 256 ^ k)" by (simp add: mod_mult2_eq)
  finally show ?case by simp
qed simp

lemma be_fixed_be_nat: "be_fixed (length bs) (be_nat bs) = bs"
proof (induction bs rule: rev_induct)
  case (snoc b bs)
  have "(be_nat bs * 256 + unat b) div 256 = be_nat bs" using unat_byte_less [of b] by simp
  moreover have "of_nat (be_nat bs * 256 + unat b) = b"
    unfolding word_unat_eq_iff unat_of_nat_byte using unat_byte_less [of b] by simp
  ultimately show ?case using snoc by (simp only: be_fixed_Suc be_nat_snoc length_append_singleton)
qed simp

lemma length_word_bytes [simp]: "length (word_bytes (w :: 'a :: len word)) = LENGTH('a) div 8"
  by (simp add: word_bytes_def)

lemma be_nat_word_bytes: "8 dvd LENGTH('a) \<Longrightarrow> be_nat (word_bytes (w :: 'a :: len word)) = unat w"
proof -
  assume "8 dvd LENGTH('a)"
  then have "(256 :: nat) ^ (LENGTH('a) div 8) = 2 ^ LENGTH('a)"
    using power_mult [of "2 :: nat" 8 "LENGTH('a) div 8"] by simp
  then show ?thesis
    using unsigned_less [of w, where ?'a = nat] by (simp add: word_bytes_def be_nat_be_fixed)
qed

section \<open>\<open>SetBytes\<close>\<close>

text \<open>\<open>BytesToHash\<close>, \<open>BytesToAddress\<close>: a longer slice is cropped from the left, a shorter one fills the
  array from the right.\<close>

definition crop_left :: "nat \<Rightarrow> bytes \<Rightarrow> bytes" where
  "crop_left k b = (if length b > k then drop (length b - k) b else b)"

definition BytesToHash :: "bytes \<Rightarrow> hash" where
  "BytesToHash b = of_nat (be_nat (crop_left 32 b))"

definition BytesToAddress :: "bytes \<Rightarrow> address" where
  "BytesToAddress b = of_nat (be_nat (crop_left 20 b))"

lemma BytesToAddress_word_bytes [simp]: "BytesToAddress (word_bytes a) = a"
  by (simp add: BytesToAddress_def crop_left_def be_nat_word_bytes)

lemma BytesToHash_word_bytes [simp]: "BytesToHash (word_bytes h) = h"
  by (simp add: BytesToHash_def crop_left_def be_nat_word_bytes)

lemma drop_be_fixed: "j \<le> k \<Longrightarrow> drop j (be_fixed k n) = be_fixed (k - j) n"
  by (auto simp: be_fixed_def list_eq_iff_nth_eq diff_diff_left add.commute)

text \<open>\<open>copy(addr[:], h[12:])\<close> keeps the low 160 bits of a hash.\<close>

lemma address_of_hash: "BytesToAddress (drop 12 (word_bytes (h :: hash))) = ucast h"
proof -
  have "be_nat (drop 12 (word_bytes h)) = unat h mod 2 ^ 160"
    by (simp add: word_bytes_def drop_be_fixed be_nat_be_fixed)
  then show ?thesis
    by (simp add: BytesToAddress_def crop_left_def word_unat_eq_iff unat_of_nat unsigned_ucast_eq take_bit_eq_mod)
qed

interpretation address_codec: codec word_bytes "\<lambda>b. Inr (BytesToAddress b)" "\<lambda>_. True"
  by unfold_locales simp

interpretation hash_codec: codec word_bytes "\<lambda>b. Inr (BytesToHash b)" "\<lambda>_. True"
  by unfold_locales simp

section \<open>\<open>bytes.Compare\<close>\<close>

fun bytes_Compare :: "bytes \<Rightarrow> bytes \<Rightarrow> int" where
  "bytes_Compare [] [] = 0"
| "bytes_Compare [] (_ # _) = -1"
| "bytes_Compare (_ # _) [] = 1"
| "bytes_Compare (a # as) (b # bs) = (if a < b then -1 else if a > b then 1 else bytes_Compare as bs)"

lemma be_nat_Cons_less:
  assumes "length as = length bs" "a < b"
  shows "be_nat (a # as) < be_nat (b # bs)"
proof -
  have "be_nat as < 256 ^ length bs" using be_nat_less [of as] assms(1) by simp
  then have "be_nat (a # as) < (unat a + 1) * 256 ^ length bs" by (simp add: be_nat_Cons assms(1))
  also have "\<dots> \<le> unat b * 256 ^ length bs"
    using assms(2) by (intro mult_right_mono) (auto simp: word_less_nat_alt)
  also have "\<dots> \<le> be_nat (b # bs)" by (simp add: be_nat_Cons)
  finally show ?thesis .
qed

lemma bytes_Compare_be_nat:
  "length as = length bs \<Longrightarrow> bytes_Compare as bs =
     (if be_nat as < be_nat bs then -1 else if be_nat as > be_nat bs then 1 else 0)"
proof (induction as bs rule: bytes_Compare.induct)
  case (4 a as b bs)
  then have len: "length as = length bs" by simp
  consider "a < b" | "b < a" | "a = b" by fastforce
  then show ?case
  proof cases
    case 1
    with be_nat_Cons_less [OF len] show ?thesis by simp
  next
    case 2
    with be_nat_Cons_less [of bs as b a] len show ?thesis by simp
  next
    case 3
    with 4 len show ?thesis by (simp add: be_nat_Cons)
  qed
qed simp_all

lemma bytes_Compare_word:
  "bytes_Compare (word_bytes (a :: address)) (word_bytes b) > 0 \<longleftrightarrow> a > b"
  by (simp add: bytes_Compare_be_nat be_nat_word_bytes word_less_nat_alt)

end
