(* ===== verification/Block_Header.thy ===== *)
theory Block_Header
  imports Common_Types Rlp_Codec
begin

text \<open>
  Block headers (\<open>core/types/block.go\<close>), the bytes their hashes are taken of, and the signing hash of
  the clique engine.  A \<open>*big.Int\<close> field is an \<open>int option\<close> (\<open>None\<close> for nil).  Keccak-256 is the
  parameter \<open>keccak\<close>: the lemmas are about the bytes it is applied to.
\<close>

section \<open>The header\<close>

record Header =
  ParentHash :: hash
  UncleHash :: hash
  Coinbase :: address
  hSigners :: "address list"
  hVoters :: "address list"
  hSigner :: bytes
  Root :: hash
  TxHash :: hash
  ReceiptHash :: hash
  Bloom :: "2048 word"
  Difficulty :: "int option"
  hNumber :: "int option"
  GasLimit :: u64
  GasUsed :: u64
  Time :: "int option"
  Extra :: bytes
  MixDigest :: hash
  Nonce :: u64

definition EncodeNonce :: "u64 \<Rightarrow> bytes" where
  "EncodeNonce i = word_bytes i"

definition addresses_goval :: "address list \<Rightarrow> goval" where
  "addresses_goval as = GSlice (map (\<lambda>a. GBytes (word_bytes a)) as)"

definition Header_goval :: "Header \<Rightarrow> goval" where
  "Header_goval h = GPtr (GStruct
     [GBytes (word_bytes (ParentHash h)), GBytes (word_bytes (UncleHash h)),
      GBytes (word_bytes (Coinbase h)), addresses_goval (hSigners h), addresses_goval (hVoters h),
      GBytes (hSigner h), GBytes (word_bytes (Root h)), GBytes (word_bytes (TxHash h)),
      GBytes (word_bytes (ReceiptHash h)), GBytes (word_bytes (Bloom h)),
      GBigIntPtr (Difficulty h), GBigIntPtr (hNumber h), GUint (GasLimit h), GUint (GasUsed h),
      GBigIntPtr (Time h), GBytes (Extra h), GBytes (word_bytes (MixDigest h)),
      GBytes (EncodeNonce (Nonce h))])"

text \<open>\<open>rlpHash\<close> ignores the error of \<open>rlp.Encode\<close>: a value without an encoding hashes the empty
  string.\<close>

definition rlp_fed :: "goval \<Rightarrow> bytes" where
  "rlp_fed x = (case Encode \<lparr>str = [], lheads = [], lhsize = 0\<rparr> x of Inl _ \<Rightarrow> [] | Inr ws \<Rightarrow> concat ws)"

definition rlpHash :: "(bytes \<Rightarrow> hash) \<Rightarrow> goval \<Rightarrow> hash" where
  "rlpHash keccak x = keccak (rlp_fed x)"

definition Header_Hash :: "(bytes \<Rightarrow> hash) \<Rightarrow> Header \<Rightarrow> hash" where
  "Header_Hash keccak h = rlpHash keccak (Header_goval h)"

definition CalcUncleHash :: "(bytes \<Rightarrow> hash) \<Rightarrow> Header list \<Rightarrow> hash" where
  "CalcUncleHash keccak uncles = rlpHash keccak (GSlice (map Header_goval uncles))"

definition CopyHeader :: "Header \<Rightarrow> Header" where
  "CopyHeader h = h\<lparr>
     Time := Some (case Time h of None \<Rightarrow> 0 | Some t \<Rightarrow> t),
     Difficulty := Some (case Difficulty h of None \<Rightarrow> 0 | Some d \<Rightarrow> d),
     hNumber := Some (case hNumber h of None \<Rightarrow> 0 | Some n \<Rightarrow> n)\<rparr>"

section \<open>The signing hash\<close>

text \<open>\<open>sigHash\<close> encodes the fields in an order of its own and leaves out the signature.\<close>

definition sigHash_goval :: "Header \<Rightarrow> goval" where
  "sigHash_goval h = GSlice (map GInterface
     [GBytes (word_bytes (ParentHash h)), GBytes (word_bytes (UncleHash h)),
      GBytes (word_bytes (Coinbase h)), GBytes (word_bytes (Root h)), GBytes (word_bytes (TxHash h)),
      GBytes (word_bytes (ReceiptHash h)), GBytes (word_bytes (Bloom h)),
      GBigIntPtr (Difficulty h), GBigIntPtr (hNumber h), GUint (GasLimit h), GUint (GasUsed h),
      GBigIntPtr (Time h), addresses_goval (hSigners h), addresses_goval (hVoters h),
      GBytes (Extra h), GBytes (word_bytes (MixDigest h)), GBytes (EncodeNonce (Nonce h))])"

definition sigHash :: "(bytes \<Rightarrow> hash) \<Rightarrow> Header \<Rightarrow> hash" where
  "sigHash keccak h = rlpHash keccak (sigHash_goval h)"

section \<open>What the hashes commit to\<close>

definition big_bytes :: "int option \<Rightarrow> bytes" where
  "big_bytes x = (case x of None \<Rightarrow> [] | Some i \<Rightarrow> nat_be (nat i))"

definition addresses_item :: "address list \<Rightarrow> item" where
  "addresses_item as = Lst (map (\<lambda>a. Str (word_bytes a)) as)"

definition Header_item :: "Header \<Rightarrow> item" where
  "Header_item h = Lst
     [Str (word_bytes (ParentHash h)), Str (word_bytes (UncleHash h)),
      Str (word_bytes (Coinbase h)), addresses_item (hSigners h), addresses_item (hVoters h),
      Str (hSigner h), Str (word_bytes (Root h)), Str (word_bytes (TxHash h)),
      Str (word_bytes (ReceiptHash h)), Str (word_bytes (Bloom h)),
      Str (big_bytes (Difficulty h)), Str (big_bytes (hNumber h)), Str (nat_be (unat (GasLimit h))),
      Str (nat_be (unat (GasUsed h))), Str (big_bytes (Time h)), Str (Extra h),
      Str (word_bytes (MixDigest h)), Str (EncodeNonce (Nonce h))]"

definition sigHash_item :: "Header \<Rightarrow> item" where
  "sigHash_item h = Lst
     [Str (word_bytes (ParentHash h)), Str (word_bytes (UncleHash h)),
      Str (word_bytes (Coinbase h)), Str (word_bytes (Root h)), Str (word_bytes (TxHash h)),
      Str (word_bytes (ReceiptHash h)), Str (word_bytes (Bloom h)),
      Str (big_bytes (Difficulty h)), Str (big_bytes (hNumber h)), Str (nat_be (unat (GasLimit h))),
      Str (nat_be (unat (GasUsed h))), Str (big_bytes (Time h)), addresses_item (hSigners h),
      addresses_item (hVoters h), Str (Extra h), Str (word_bytes (MixDigest h)),
      Str (EncodeNonce (Nonce h))]"

text \<open>An upper bound of the size of an encoding: every header takes at most nine bytes.\<close>

fun item_bound :: "item \<Rightarrow> nat" where
  "item_bound (Str b) = length b + 9"
| "item_bound (Lst xs) = sum_list (map item_bound xs) + 9"

lemma length_rlp_string_le: "length b < 2 ^ 60 \<Longrightarrow> length (rlp_string b) \<le> length b + 9"
  using length_nat_be_le [of "length b" 8] by (simp add: rlp_string_def rlp_head_def)

lemma length_rlp_list_le: "length p < 2 ^ 60 \<Longrightarrow> length (rlp_list p) \<le> length p + 9"
  using length_nat_be_le [of "length p" 8] by (simp add: rlp_list_def rlp_head_def)

lemma item_bound: "item_bound x < 2 ^ 60 \<Longrightarrow> length (rlp_item x) \<le> item_bound x"
proof (induction x)
  case (Str b)
  with length_rlp_string_le [of b] show ?case by simp
next
  case (Lst xs)
  have "length (concat (map rlp_item xs)) \<le> sum_list (map item_bound xs)"
    if "sum_list (map item_bound xs) < 2 ^ 60" "\<And>x. x \<in> set xs \<Longrightarrow> item_bound x < 2 ^ 60 \<Longrightarrow> length (rlp_item x) \<le> item_bound x" for xs
    using that
  proof (induction xs)
    case (Cons x xs)
    then have "length (rlp_item x) \<le> item_bound x" "length (concat (map rlp_item xs)) \<le> sum_list (map item_bound xs)"
      by simp_all
    then show ?case by simp
  qed simp
  from this [of xs] Lst length_rlp_list_le [of "concat (map rlp_item xs)"] show ?case by simp
qed

text \<open>Headers whose big integers are present and not negative, as every decoded header's are, and
  whose encoding fits the encoder's 64-bit sizes.\<close>

definition natural :: "int option \<Rightarrow> bool" where
  "natural x \<longleftrightarrow> (case x of None \<Rightarrow> False | Some i \<Rightarrow> 0 \<le> i)"

definition encodable :: "Header \<Rightarrow> bool" where
  "encodable h \<longleftrightarrow> natural (Difficulty h) \<and> natural (hNumber h) \<and> natural (Time h)
     \<and> item_bound (Header_item h) < 2 ^ 60 \<and> item_bound (sigHash_item h) < 2 ^ 60"

lemma encodable_length:
  "encodable h \<Longrightarrow> length (rlp_item (Header_item h)) < 2 ^ 64"
  "encodable h \<Longrightarrow> length (rlp_item (sigHash_item h)) < 2 ^ 64"
  using item_bound [of "Header_item h"] item_bound [of "sigHash_item h"] by (auto simp: encodable_def)

lemma ref_encode_addresses: "ref_encode (addresses_goval as) = Inr (rlp_item (addresses_item as))"
proof -
  have "ref_encode_elems (map (\<lambda>a. GBytes (word_bytes a)) as) = Inr (concat (map (\<lambda>a. rlp_string (word_bytes a)) as))"
    by (induction as) simp_all
  then show ?thesis by (simp add: addresses_goval_def addresses_item_def comp_def)
qed

lemma ref_encode_big: "natural x \<Longrightarrow> ref_encode (GBigIntPtr x) = Inr (rlp_string (big_bytes x))"
  by (cases x) (simp_all add: natural_def big_bytes_def)

lemma ref_encode_Header:
  "encodable h \<Longrightarrow> ref_encode (Header_goval h) = Inr (rlp_item (Header_item h))"
  by (simp add: Header_goval_def Header_item_def ref_encode_addresses ref_encode_big encodable_def
      del: ref_encode.simps(4))

lemma ref_encode_sigHash:
  "encodable h \<Longrightarrow> ref_encode (sigHash_goval h) = Inr (rlp_item (sigHash_item h))"
  by (simp add: sigHash_goval_def sigHash_item_def ref_encode_addresses ref_encode_big encodable_def
      del: ref_encode.simps(4))

lemma rlp_fed_item:
  assumes "ref_encode v = Inr (rlp_item x)" "length (rlp_item x) < 2 ^ 64" "reflect_ValueOf v \<noteq> None"
  shows "rlp_fed v = rlp_item x"
  using EncodeToBytes_Inr(2) [OF assms, of "\<lparr>str = [], lheads = [], lhsize = 0\<rparr>"]
  by (auto simp: rlp_fed_def)

lemma word_bytes_inj: "8 dvd LENGTH('a) \<Longrightarrow> word_bytes (x :: 'a :: len word) = word_bytes y \<longleftrightarrow> x = y"
  by (metis be_nat_word_bytes word_unat_eq_iff)

lemma big_bytes_inj: "natural x \<Longrightarrow> natural y \<Longrightarrow> big_bytes x = big_bytes y \<longleftrightarrow> x = y"
  by (cases x; cases y) (auto simp: natural_def big_bytes_def)

lemma addresses_item_inj: "addresses_item as = addresses_item bs \<longleftrightarrow> as = bs"
proof -
  have "inj (\<lambda>a :: address. Str (word_bytes a))" by (auto intro: injI simp: word_bytes_inj)
  then show ?thesis by (auto simp: addresses_item_def dest: map_injective)
qed

lemmas item_inj = word_bytes_inj big_bytes_inj addresses_item_inj word_unat_eq_iff [symmetric]

lemma Header_item_inj: "encodable h \<Longrightarrow> encodable h' \<Longrightarrow> Header_item h = Header_item h' \<longleftrightarrow> h = h'"
  by (auto simp: Header_item_def EncodeNonce_def item_inj encodable_def)

lemma sigHash_item_inj:
  "encodable h \<Longrightarrow> encodable h' \<Longrightarrow>
   sigHash_item h = sigHash_item h' \<longleftrightarrow> h\<lparr>hSigner := []\<rparr> = h'\<lparr>hSigner := []\<rparr>"
  by (cases h; cases h') (auto simp: sigHash_item_def EncodeNonce_def item_inj encodable_def)

text \<open>
  C12. The bytes that \<open>Header.Hash\<close> hashes determine the header, and the bytes that \<open>sigHash\<close> hashes
  determine everything in it but the signature: a signature cannot be moved to a header that differs
  in any other field, unless Keccak-256 collides.  The signature is the header field \<open>Signer\<close>: \<open>sigHash\<close>
  covers the whole of the extra data, of any length, although its comments still speak of a signature
  at the end of the extra data and of a panic when that is short.
\<close>

theorem header_hashes_commit:
  assumes "encodable h" "encodable h'"
  shows "(rlp_fed (Header_goval h) = rlp_fed (Header_goval h') \<longleftrightarrow> h = h')
    \<and> (rlp_fed (sigHash_goval h) = rlp_fed (sigHash_goval h') \<longleftrightarrow> h\<lparr>hSigner := []\<rparr> = h'\<lparr>hSigner := []\<rparr>)"
proof -
  have fed: "rlp_fed (Header_goval h) = rlp_item (Header_item h)" "rlp_fed (sigHash_goval h) = rlp_item (sigHash_item h)"
    if "encodable h" for h
    using rlp_fed_item [OF ref_encode_Header [OF that] encodable_length(1) [OF that]]
      rlp_fed_item [OF ref_encode_sigHash [OF that] encodable_length(2) [OF that]]
    by (simp_all add: Header_goval_def sigHash_goval_def)
  note len = encodable_length [OF assms(1)] encodable_length [OF assms(2)]
  show ?thesis
    unfolding fed [OF assms(1)] fed [OF assms(2)] rlp.enc_inj [OF len(1,3)] rlp.enc_inj [OF len(2,4)]
    using Header_item_inj [OF assms] sigHash_item_inj [OF assms] by blast
qed

definition sample_header :: Header where
  "sample_header = \<lparr>ParentHash = 5, UncleHash = 6, Coinbase = 7, hSigners = [1, 2], hVoters = [1],
     hSigner = [0xAA, 0xBB], Root = 8, TxHash = 9, ReceiptHash = 10, Bloom = 0, Difficulty = Some 2,
     hNumber = Some 1000, GasLimit = 4700000, GasUsed = 21000, Time = Some 1500000000,
     Extra = [1, 2, 3], MixDigest = 0, Nonce = 0\<rparr>"

theorem header_hashes_commit_witness:
  "rlp_fed (sigHash_goval sample_header) = rlp_fed (sigHash_goval (sample_header\<lparr>hSigner := []\<rparr>))
   \<and> rlp_fed (sigHash_goval sample_header) \<noteq> rlp_fed (sigHash_goval (sample_header\<lparr>Extra := [1, 2]\<rparr>))"
proof -
  have "encodable sample_header" "encodable (sample_header\<lparr>hSigner := []\<rparr>)"
    "encodable (sample_header\<lparr>Extra := [1, 2]\<rparr>)"
    by (simp_all add: sample_header_def encodable_def natural_def Header_item_def sigHash_item_def
        addresses_item_def big_bytes_def EncodeNonce_def nat_be.simps)
  from header_hashes_commit [OF this(1,2)] header_hashes_commit [OF this(1,3)] show ?thesis
    by (simp add: sample_header_def)
qed

end
