(* ===== verification/Clique_Snapshot.thy ===== *)
theory Clique_Snapshot
  imports Block_Header
begin

text \<open>
  The authorization snapshots of the clique engine (\<open>consensus/clique/snapshot.go\<close>) and the helpers of
  \<open>clique.go\<close> they use: the vote in the extra data, \<open>ecrecover\<close> with its signature cache, and the
  replay of headers by \<open>apply\<close>.

  The configuration and the signature cache, pointers in the Go struct, are an argument and a threaded
  state.  An ARC cache is a Go map from which the parameter \<open>evict_sig\<close> may drop entries after an
  insertion; public-key recovery is the parameter \<open>Ecrecover\<close>.  A nil dereference, an index out of
  range and a division by zero are the error \<open>Panic\<close>.
\<close>

section \<open>Errors and parameters\<close>

datatype clique_error =
    errUnknownBlock | errInvalidCheckpointBeneficiary | errInvalidVote | errInvalidCheckpointVote
  | errMissingSignature | errMissingSigners | errMissingVoters | errInvalidCheckpointSigners
  | errInvalidCheckpointVoters | errInvalidMixDigest | errInvalidUncleHash | errInvalidDifficulty
  | ErrInvalidTimestamp | errInvalidVotingChain | errWaitTransactions
  | ErrUnknownAncestor | ErrFutureBlock
  | errNotAuthorized address | errSignedRecently address u64 u64 u64 | errTooRecently address
  | errForkHash | errRecover | errSign | errJson | errDatabase | Panic | Unresolved

type_synonym sigcache = "(hash, address) gomap"

record crypto =
  keccak :: "bytes \<Rightarrow> hash"
  Ecrecover :: "hash \<Rightarrow> bytes \<Rightarrow> bytes option"
  evict_sig :: "sigcache \<Rightarrow> sigcache"

record CliqueConfig =
  Period :: u64
  Epoch :: u64

definition signatureLength :: nat where "signatureLength = 65"
definition extraVanity :: nat where "extraVanity = 32"
definition extraPropose :: nat where "extraPropose = 20 + 1"
definition voterElection :: byte where "voterElection = 0xFF"
definition signerElection :: byte where "signerElection = 0x00"
definition nonceAuthVote :: u64 where "nonceAuthVote = 0xFFFFFFFFFFFFFFFF"
definition nonceDropVote :: u64 where "nonceDropVote = 0"

section \<open>Votes in the extra data\<close>

definition ExtraEnsureVanity :: "bytes \<Rightarrow> bytes" where
  "ExtraEnsureVanity extra =
     (if length extra < extraVanity then extra @ replicate (extraVanity - length extra) 0
      else take extraVanity extra)"

definition ExtraVanity :: "bytes \<Rightarrow> bytes" where
  "ExtraVanity extra = (if length extra < extraVanity then extra else take extraVanity extra)"

definition ExtraAppendVote :: "bytes \<Rightarrow> address \<Rightarrow> bool \<Rightarrow> bytes" where
  "ExtraAppendVote extra candidate voter =
     (extra @ word_bytes candidate) @ [if voter then voterElection else signerElection]"

definition ExtraHasVote :: "bytes \<Rightarrow> bool" where
  "ExtraHasVote extra \<longleftrightarrow> length extra = extraVanity + extraPropose"

definition ExtraCandidate :: "bytes \<Rightarrow> address" where
  "ExtraCandidate extra =
     (if length extra < extraVanity + 20 then 0
      else BytesToAddress (take 20 (drop extraVanity extra)))"

definition ExtraIsVoterElection :: "bytes \<Rightarrow> bool" where
  "ExtraIsVoterElection extra =
     (if length extra < extraVanity + extraPropose then False
      else extra ! (extraVanity + 20) = voterElection)"

section \<open>Signatures\<close>

definition ecrecover :: "crypto \<Rightarrow> Header \<Rightarrow> (sigcache, clique_error, address) stm" where
  "ecrecover ops header sigcache =
     (let hash = Header_Hash (keccak ops) header in
      case gget sigcache hash of
        Some address \<Rightarrow> (Inr address, sigcache)
      | None \<Rightarrow>
          if length (hSigner header) < signatureLength then (Inl errMissingSignature, sigcache)
          else case Ecrecover ops (sigHash (keccak ops) header) (hSigner header) of
                 None \<Rightarrow> (Inl errRecover, sigcache)
               | Some pubkey \<Rightarrow>
                   if pubkey = [] then (Inl Panic, sigcache)
                   else let h = keccak ops (drop 1 pubkey);
                            signer = BytesToAddress (drop 12 (word_bytes h))
                        in (Inr signer, evict_sig ops (gput sigcache hash signer)))"

section \<open>Snapshots\<close>

record Vote =
  v_Signer :: address
  v_Block :: u64
  v_Address :: address
  v_Authorize :: bool

record Tally =
  t_Authorize :: bool
  t_Votes :: int

record Snapshot =
  sNumber :: u64
  sHash :: hash
  Signers :: "(address, u64) gomap"
  Voters :: "(address, unit) gomap"
  Votes :: "Vote list"
  Tallies :: "(address, Tally) gomap"

definition newGenesisSnapshot :: "u64 \<Rightarrow> hash \<Rightarrow> address list \<Rightarrow> address list \<Rightarrow> Snapshot" where
  "newGenesisSnapshot number hash signers voters =
     \<lparr>sNumber = number, sHash = hash,
      Signers = foldl (\<lambda>m a. gput m a 0) [] signers,
      Voters = foldl (\<lambda>m a. gput m a ()) [] voters,
      Votes = [], Tallies = []\<rparr>"

definition Snapshot_copy :: "Snapshot \<Rightarrow> Snapshot" where
  "Snapshot_copy s = s\<lparr>Signers := gcopy (Signers s), Voters := gcopy (Voters s), Tallies := gcopy (Tallies s)\<rparr>"

definition validVote :: "Snapshot \<Rightarrow> address \<Rightarrow> bool \<Rightarrow> bool \<Rightarrow> bool" where
  "validVote s address authorize election =
     (if election then
        let voter = gget (Voters s) address \<noteq> None in (voter \<and> \<not> authorize) \<or> (\<not> voter \<and> authorize)
      else
        let signer = gget (Signers s) address \<noteq> None in (signer \<and> \<not> authorize) \<or> (\<not> signer \<and> authorize))"

definition cast_vote :: "address \<Rightarrow> bool \<Rightarrow> bool \<Rightarrow> Snapshot \<Rightarrow> bool \<times> Snapshot" where
  "cast_vote address authorize election s =
     (if \<not> validVote s address authorize election then (False, s)
      else case gget (Tallies s) address of
             Some old \<Rightarrow> (True, s\<lparr>Tallies := gput (Tallies s) address (old\<lparr>t_Votes := t_Votes old + 1\<rparr>)\<rparr>)
           | None \<Rightarrow> (True, s\<lparr>Tallies := gput (Tallies s) address \<lparr>t_Authorize = authorize, t_Votes = 1\<rparr>\<rparr>))"

definition uncast :: "address \<Rightarrow> bool \<Rightarrow> Snapshot \<Rightarrow> bool \<times> Snapshot" where
  "uncast address authorize s =
     (case gget (Tallies s) address of
        None \<Rightarrow> (False, s)
      | Some tally \<Rightarrow>
          if t_Authorize tally \<noteq> authorize then (False, s)
          else if t_Votes tally > 1
               then (True, s\<lparr>Tallies := gput (Tallies s) address (tally\<lparr>t_Votes := t_Votes tally - 1\<rparr>)\<rparr>)
               else (True, s\<lparr>Tallies := gdel (Tallies s) address\<rparr>))"

definition nextSignableBlockNumber :: "Snapshot \<Rightarrow> u64 \<Rightarrow> u64" where
  "nextSignableBlockNumber s lastSignedBlockNumber =
     (let n = of_nat (length (Signers s)) in lastSignedBlockNumber + n div 2 + 1)"

text \<open>\<open>signers\<close> and \<open>voters\<close> sort by exchanging: the inner loop carries \<open>signers[i]\<close> along the tail.\<close>

fun sort_inner :: "address \<Rightarrow> address list \<Rightarrow> address \<times> address list" where
  "sort_inner x [] = (x, [])"
| "sort_inner x (y # ys) =
     (if bytes_Compare (word_bytes x) (word_bytes y) > 0
      then let (m, zs) = sort_inner y ys in (m, x # zs)
      else let (m, zs) = sort_inner x ys in (m, y # zs))"

lemma length_sort_inner: "length (snd (sort_inner x ys)) = length ys"
  by (induction x ys rule: sort_inner.induct) (auto simp: Let_def split: prod.split)

function sort_outer :: "address list \<Rightarrow> address list" where
  "sort_outer [] = []"
| "sort_outer (x # xs) = (let (m, rest) = sort_inner x xs in m # sort_outer rest)"
  by pat_completeness auto
termination
  by (relation "measure length") (auto, metis length_sort_inner lessI snd_conv)

definition snap_signers :: "Snapshot \<Rightarrow> address list" where
  "snap_signers s = sort_outer (gkeys (Signers s))"

definition snap_voters :: "Snapshot \<Rightarrow> address list" where
  "snap_voters s = sort_outer (gkeys (Voters s))"

section \<open>Replaying headers\<close>

text \<open>The vote a signer has already cast on the candidate, if any, is discarded; only one is removed.\<close>

definition discardVote :: "address \<Rightarrow> address \<Rightarrow> Snapshot \<Rightarrow> Snapshot" where
  "discardVote signer candidate s =
     (case List.extract (\<lambda>v. v_Signer v = signer \<and> v_Address v = candidate) (Votes s) of
        None \<Rightarrow> s
      | Some (pre, vote, post) \<Rightarrow>
          (snd (uncast (v_Address vote) (v_Authorize vote) s))\<lparr>Votes := pre @ post\<rparr>)"

lemma Votes_uncast [simp]: "Votes (snd (uncast a b s)) = Votes s"
  by (simp add: uncast_def split: option.split)

text \<open>The two loops that drop votes in place: after a removal the index stays.\<close>

function discardCast :: "address \<Rightarrow> nat \<Rightarrow> Snapshot \<Rightarrow> Snapshot" where
  "discardCast candidate i s =
     (if i < length (Votes s) then
        let vote = Votes s ! i in
        if v_Signer vote = candidate
        then discardCast candidate i
               ((snd (uncast (v_Address vote) (v_Authorize vote) s))\<lparr>Votes := take i (Votes s) @ drop (i + 1) (Votes s)\<rparr>)
        else discardCast candidate (i + 1) s
      else s)"
  by pat_completeness auto
termination
  by (relation "measure (\<lambda>(c, i, s). length (Votes s) - i)") auto

function discardAbout :: "address \<Rightarrow> nat \<Rightarrow> Snapshot \<Rightarrow> Snapshot" where
  "discardAbout candidate i s =
     (if i < length (Votes s) then
        if v_Address (Votes s ! i) = candidate
        then discardAbout candidate i (s\<lparr>Votes := take i (Votes s) @ drop (i + 1) (Votes s)\<rparr>)
        else discardAbout candidate (i + 1) s
      else s)"
  by pat_completeness auto
termination
  by (relation "measure (\<lambda>(c, i, s). length (Votes s) - i)") auto

declare discardCast.simps [simp del] discardAbout.simps [simp del]

text \<open>The change a passed vote makes.\<close>

definition passVote :: "address \<Rightarrow> Tally \<Rightarrow> Snapshot \<Rightarrow> Snapshot" where
  "passVote candidate tally s =
     (let s1 =
        (if t_Authorize tally then
           if gget (Signers s) candidate = None
           then s\<lparr>Signers := gput (Signers s) candidate 0\<rparr>
           else s\<lparr>Voters := gput (Voters s) candidate ()\<rparr>
         else
           if gget (Voters s) candidate = None
           then s\<lparr>Signers := gdel (Signers s) candidate\<rparr>
           else discardCast candidate 0 (s\<lparr>Voters := gdel (Voters s) candidate\<rparr>));
          s2 = discardAbout candidate 0 s1
      in s2\<lparr>Tallies := gdel (Tallies s2) candidate\<rparr>)"

definition castAndPass :: "address \<Rightarrow> u64 \<Rightarrow> address \<Rightarrow> bool \<Rightarrow> bool \<Rightarrow> Snapshot \<Rightarrow> Snapshot" where
  "castAndPass signer number candidate authorize election s =
     (let (ok, s1) = cast_vote candidate authorize election s;
          s2 = (if ok then s1\<lparr>Votes := Votes s1 @
                  [\<lparr>v_Signer = signer, v_Block = number, v_Address = candidate, v_Authorize = authorize\<rparr>]\<rparr>
                else s1)
      in case gget (Tallies s2) candidate of
           None \<Rightarrow> s2
         | Some tally \<Rightarrow>
             if t_Votes tally > int (length (Voters s2) div 2) then passVote candidate tally s2 else s2)"

definition apply_vote :: "Header \<Rightarrow> u64 \<Rightarrow> address \<Rightarrow> Snapshot \<Rightarrow> clique_error + Snapshot" where
  "apply_vote header number signer s =
     (let (candidate, election) =
            (if ExtraHasVote (Extra header)
             then (ExtraCandidate (Extra header), ExtraIsVoterElection (Extra header))
             else (0, False));
          s1 = discardVote signer candidate s
      in if Nonce header = nonceAuthVote then Inr (castAndPass signer number candidate True election s1)
         else if Nonce header = nonceDropVote then Inr (castAndPass signer number candidate False election s1)
         else Inl errInvalidVote)"

definition apply_signed :: "Header \<Rightarrow> u64 \<Rightarrow> address \<Rightarrow> Snapshot \<Rightarrow> clique_error + Snapshot" where
  "apply_signed header number signer s =
     (case gget (Signers s) signer of
        None \<Rightarrow> Inl (errNotAuthorized signer)
      | Some lastBlockSigned \<Rightarrow>
          let next = nextSignableBlockNumber s lastBlockSigned in
          if lastBlockSigned > 0 \<and> number < next
          then Inl (errSignedRecently signer number lastBlockSigned next)
          else let s1 = s\<lparr>Signers := gput (Signers s) signer number\<rparr> in
               if gget (Voters s1) signer \<noteq> None then apply_vote header number signer s1 else Inr s1)"

definition header_number :: "Header \<Rightarrow> clique_error + u64" where
  "header_number h = (case hNumber h of None \<Rightarrow> Inl Panic | Some n \<Rightarrow> Inr (big_Uint64 n))"

definition apply_header ::
    "crypto \<Rightarrow> CliqueConfig \<Rightarrow> Header \<Rightarrow> Snapshot \<Rightarrow> (sigcache, clique_error, Snapshot) stm" where
  "apply_header ops config header s =
     bindS (liftS (header_number header)) (\<lambda>number.
       if Epoch config = 0 then failS Panic
       else let s1 = (if number mod Epoch config = 0 then s\<lparr>Votes := [], Tallies := []\<rparr> else s)
            in bindS (ecrecover ops header) (\<lambda>signer. liftS (apply_signed header number signer s1)))"

definition apply_headers ::
    "crypto \<Rightarrow> CliqueConfig \<Rightarrow> Header list \<Rightarrow> Snapshot \<Rightarrow> (sigcache, clique_error, Snapshot) stm" where
  "apply_headers ops config = foldS (apply_header ops config)"

fun check_contiguous :: "Header list \<Rightarrow> clique_error + unit" where
  "check_contiguous (h1 # h2 # hs) =
     bindE (header_number h2) (\<lambda>n2. bindE (header_number h1) (\<lambda>n1.
       if n2 \<noteq> n1 + 1 then Inl errInvalidVotingChain else check_contiguous (h2 # hs)))"
| "check_contiguous _ = Inr ()"

definition Snapshot_apply ::
    "crypto \<Rightarrow> CliqueConfig \<Rightarrow> Header list \<Rightarrow> Snapshot \<Rightarrow> (sigcache, clique_error, Snapshot) stm" where
  "Snapshot_apply ops config headers s =
     (if headers = [] then returnS s
      else bindS (liftS (check_contiguous headers)) (\<lambda>_.
           bindS (liftS (header_number (hd headers))) (\<lambda>n0.
             if n0 \<noteq> sNumber s + 1 then failS errInvalidVotingChain
             else bindS (apply_headers ops config headers (Snapshot_copy s)) (\<lambda>snap.
                    returnS (snap\<lparr>sNumber := sNumber snap + of_nat (length headers),
                                   sHash := Header_Hash (keccak ops) (last headers)\<rparr>)))))"

end
