(* ===== verification/Clique_Votes.thy ===== *)
theory Clique_Votes
  imports Clique_Snapshot
begin

text \<open>
  What replaying headers keeps: the well-formedness of a snapshot, and, as long as only signers are
  elected, the agreement between the tally and the list of votes, which makes every change of the
  membership the decision of a majority of the voters.
\<close>

section \<open>The in-place loops are filters\<close>

definition uncast_by :: "address \<Rightarrow> Vote list \<Rightarrow> Snapshot \<Rightarrow> Snapshot" where
  "uncast_by c vs s =
     foldl (\<lambda>s v. if v_Signer v = c then snd (uncast (v_Address v) (v_Authorize v) s) else s) s vs"

lemma uncast_fields [simp]:
  "Signers (snd (uncast a b s)) = Signers s" "Voters (snd (uncast a b s)) = Voters s"
  "sNumber (snd (uncast a b s)) = sNumber s" "sHash (snd (uncast a b s)) = sHash s"
  by (simp_all add: uncast_def split: option.split)

lemma uncast_Votes_update: "snd (uncast a b (s\<lparr>Votes := vs\<rparr>)) = (snd (uncast a b s))\<lparr>Votes := vs\<rparr>"
  by (simp add: uncast_def split: option.split)

lemma uncast_by_Votes_update: "uncast_by c ws (s\<lparr>Votes := vs\<rparr>) = (uncast_by c ws s)\<lparr>Votes := vs\<rparr>"
  unfolding uncast_by_def by (induction ws arbitrary: s) (simp_all add: uncast_Votes_update)

lemma uncast_by_fields [simp]:
  "Signers (uncast_by c vs s) = Signers s" "Voters (uncast_by c vs s) = Voters s"
  "Votes (uncast_by c vs s) = Votes s" "sNumber (uncast_by c vs s) = sNumber s"
  unfolding uncast_by_def by (induction vs arbitrary: s; simp)+

lemma nth_take_drop: "i < length xs \<Longrightarrow> xs = take i xs @ xs ! i # drop (Suc i) xs"
  by (simp add: id_take_nth_drop)

lemma discardAbout_eq:
  "i \<le> length (Votes s) \<Longrightarrow> discardAbout c i s =
     s\<lparr>Votes := take i (Votes s) @ filter (\<lambda>v. v_Address v \<noteq> c) (drop i (Votes s))\<rparr>"
proof (induction c i s rule: discardAbout.induct)
  case (1 c i s)
  show ?case
  proof (cases "i < length (Votes s)")
    case True
    have dr: "drop i (Votes s) = Votes s ! i # drop (Suc i) (Votes s)" using True by (simp add: Cons_nth_drop_Suc)
    show ?thesis
      using 1 True by (subst discardAbout.simps) (auto simp: dr take_Suc_conv_app_nth min_def)
  qed (use 1 in \<open>simp add: discardAbout.simps\<close>)
qed

lemma discardCast_eq:
  "i \<le> length (Votes s) \<Longrightarrow> discardCast c i s =
     (uncast_by c (drop i (Votes s)) s)\<lparr>Votes := take i (Votes s) @ filter (\<lambda>v. v_Signer v \<noteq> c) (drop i (Votes s))\<rparr>"
proof (induction c i s rule: discardCast.induct)
  case (1 c i s)
  show ?case
  proof (cases "i < length (Votes s)")
    case True
    have dr: "drop i (Votes s) = Votes s ! i # drop (Suc i) (Votes s)" using True by (simp add: Cons_nth_drop_Suc)
    have step: "uncast_by c (drop i (Votes s)) s = uncast_by c (drop (Suc i) (Votes s))
        (if v_Signer (Votes s ! i) = c then snd (uncast (v_Address (Votes s ! i)) (v_Authorize (Votes s ! i)) s) else s)"
      unfolding uncast_by_def dr by simp
    show ?thesis
      using 1 True by (subst discardCast.simps)
        (auto simp: dr step [unfolded dr] take_Suc_conv_app_nth min_def uncast_by_Votes_update Let_def)
  qed (use 1 in \<open>simp add: discardCast.simps uncast_by_def\<close>)
qed

section \<open>Well-formed snapshots\<close>

abbreviation signer_set :: "Snapshot \<Rightarrow> address set" where
  "signer_set s \<equiv> set (gkeys (Signers s))"

abbreviation voter_set :: "Snapshot \<Rightarrow> address set" where
  "voter_set s \<equiv> set (gkeys (Voters s))"

definition vote_key :: "Vote \<Rightarrow> address \<times> address" where
  "vote_key v = (v_Signer v, v_Address v)"

definition votes_ok :: "Snapshot \<Rightarrow> bool" where
  "votes_ok s \<longleftrightarrow> distinct (map vote_key (Votes s)) \<and> v_Signer ` set (Votes s) \<subseteq> voter_set s"

definition snapshot_ok :: "Snapshot \<Rightarrow> bool" where
  "snapshot_ok s \<longleftrightarrow> gmap_ok (Signers s) \<and> gmap_ok (Voters s) \<and> gmap_ok (Tallies s) \<and> votes_ok s"

text \<open>Nothing in the code checks that the voters of a genesis block are signers; \<open>members_ok\<close> says that only
  the accounts in \<open>X\<close> vote without being signers, and that there are signers, unless \<open>none\<close>.\<close>

definition members_ok :: "address set \<Rightarrow> bool \<Rightarrow> Snapshot \<Rightarrow> bool" where
  "members_ok X none s \<longleftrightarrow> voter_set s - signer_set s \<subseteq> X \<and> (none \<or> signer_set s \<noteq> {})"

lemma gget_key: "gget m k = None \<longleftrightarrow> k \<notin> set (gkeys m)" "gget m k \<noteq> None \<longleftrightarrow> k \<in> set (gkeys m)"
  by (simp_all add: gget_None_iff)

lemma gmap_ok_uncast: "gmap_ok (Tallies s) \<Longrightarrow> gmap_ok (Tallies (snd (uncast a b s)))"
  by (simp add: uncast_def split: option.split)

lemma gmap_ok_uncast_by: "gmap_ok (Tallies s) \<Longrightarrow> gmap_ok (Tallies (uncast_by c vs s))"
  unfolding uncast_by_def by (induction vs arbitrary: s) (simp_all add: gmap_ok_uncast)

lemma discardCast_fields:
  "Signers (discardCast c 0 s) = Signers s" "Voters (discardCast c 0 s) = Voters s"
  "Votes (discardCast c 0 s) = filter (\<lambda>v. v_Signer v \<noteq> c) (Votes s)"
  "gmap_ok (Tallies s) \<Longrightarrow> gmap_ok (Tallies (discardCast c 0 s))"
  by (simp_all add: discardCast_eq gmap_ok_uncast_by)

lemma passVote_fields:
  "Signers (passVote c t s) =
     (if t_Authorize t then if c \<in> signer_set s then Signers s else gput (Signers s) c 0
      else if c \<in> voter_set s then Signers s else gdel (Signers s) c)"
  "Voters (passVote c t s) =
     (if t_Authorize t then if c \<in> signer_set s then gput (Voters s) c () else Voters s
      else if c \<in> voter_set s then gdel (Voters s) c else Voters s)"
  "Votes (passVote c t s) = filter (\<lambda>v. v_Address v \<noteq> c)
     (if \<not> t_Authorize t \<and> c \<in> voter_set s then filter (\<lambda>v. v_Signer v \<noteq> c) (Votes s) else Votes s)"
  "gmap_ok (Tallies s) \<Longrightarrow> gmap_ok (Tallies (passVote c t s))"
  by (auto simp: passVote_def Let_def discardAbout_eq discardCast_fields gget_key)

lemma discardVote_fields [simp]:
  "Signers (discardVote g c s) = Signers s" "Voters (discardVote g c s) = Voters s"
  by (simp_all add: discardVote_def split: option.split prod.split)

lemma gmap_ok_discardVote: "gmap_ok (Tallies s) \<Longrightarrow> gmap_ok (Tallies (discardVote g c s))"
  by (simp add: discardVote_def gmap_ok_uncast split: option.split prod.split)

lemma discardVote_votes:
  assumes "votes_ok s"
  shows "Votes (discardVote g c s) = filter (\<lambda>v. vote_key v \<noteq> (g, c)) (Votes s)"
proof (cases "List.extract (\<lambda>v. v_Signer v = g \<and> v_Address v = c) (Votes s)")
  case None
  then have "filter (\<lambda>v. vote_key v \<noteq> (g, c)) (Votes s) = Votes s"
    by (auto simp: extract_None_iff vote_key_def intro!: filter_True)
  with None show ?thesis by (simp add: discardVote_def)
next
  case (Some r)
  then obtain pre v post where r: "r = (pre, v, post)" by (cases r) auto
  from Some r have vs: "Votes s = pre @ v # post" "v_Signer v = g" "v_Address v = c"
    by (auto simp: extract_Some_iff)
  have key: "vote_key v = (g, c)" using vs by (simp add: vote_key_def)
  have dist: "distinct (map vote_key (pre @ v # post))" using assms vs(1) by (simp add: votes_ok_def)
  then have "vote_key v \<notin> vote_key ` set (pre @ post)" by auto
  then have "(g, c) \<notin> vote_key ` set (pre @ post)" using key by simp
  then have "filter (\<lambda>v. vote_key v \<noteq> (g, c)) (pre @ post) = pre @ post"
    by (intro filter_True) (metis image_eqI)
  with Some r vs key show ?thesis by (simp add: discardVote_def)
qed

lemma distinct_map_filter': "distinct (map f xs) \<Longrightarrow> distinct (map f (filter P xs))"
  by (induction xs) auto

lemma votes_ok_discardVote: "votes_ok s \<Longrightarrow> votes_ok (discardVote g c s)"
  by (auto simp: votes_ok_def discardVote_votes distinct_map_filter')

lemma snapshot_ok_discardVote: "snapshot_ok s \<Longrightarrow> snapshot_ok (discardVote g c s)"
  by (simp add: snapshot_ok_def votes_ok_discardVote gmap_ok_discardVote)

lemma snapshot_ok_passVote: "snapshot_ok s \<Longrightarrow> snapshot_ok (passVote c t s)"
  unfolding snapshot_ok_def votes_ok_def
  by (auto simp: passVote_fields gomap_simps distinct_map_filter')

text \<open>The author of the header that passes a vote stays a member.\<close>

lemma members_ok_passVote:
  assumes "members_ok X none s" "g \<in> voter_set s" "g \<in> signer_set s"
  shows "members_ok X none (passVote c t s)"
proof -
  have "g \<in> signer_set (passVote c t s)" using assms(2,3) by (auto simp: passVote_fields gomap_simps)
  with assms(1) show ?thesis unfolding members_ok_def by (auto simp: passVote_fields gomap_simps)
qed

lemma cast_vote_fields [simp]:
  "Signers (snd (cast_vote a b e s)) = Signers s" "Voters (snd (cast_vote a b e s)) = Voters s"
  "Votes (snd (cast_vote a b e s)) = Votes s"
  by (simp_all add: cast_vote_def split: option.split)

lemma gmap_ok_cast_vote: "gmap_ok (Tallies s) \<Longrightarrow> gmap_ok (Tallies (snd (cast_vote a b e s)))"
  by (simp add: cast_vote_def split: option.split)

text \<open>The snapshot with the vote added, before it is checked whether it passes.\<close>

definition with_vote :: "address \<Rightarrow> u64 \<Rightarrow> address \<Rightarrow> bool \<Rightarrow> bool \<Rightarrow> Snapshot \<Rightarrow> Snapshot" where
  "with_vote g n c b e s =
     (let s1 = snd (cast_vote c b e s) in
      if fst (cast_vote c b e s)
      then s1\<lparr>Votes := Votes s1 @ [\<lparr>v_Signer = g, v_Block = n, v_Address = c, v_Authorize = b\<rparr>]\<rparr>
      else s1)"

lemma castAndPass_with_vote:
  "castAndPass g n c b e s =
     (case gget (Tallies (with_vote g n c b e s)) c of
        None \<Rightarrow> with_vote g n c b e s
      | Some t \<Rightarrow> if t_Votes t > int (length (Voters s) div 2) then passVote c t (with_vote g n c b e s)
                 else with_vote g n c b e s)"
proof -
  have "Voters (with_vote g n c b e s) = Voters s" by (simp add: with_vote_def Let_def)
  then show ?thesis
    unfolding castAndPass_def by (simp add: with_vote_def case_prod_beta Let_def split: option.split)
qed

lemma snapshot_ok_with_vote:
  assumes "snapshot_ok s" "g \<in> voter_set s" "(g, c) \<notin> vote_key ` set (Votes s)"
  shows "snapshot_ok (with_vote g n c b e s)"
  using assms
  by (auto simp: with_vote_def Let_def snapshot_ok_def votes_ok_def gmap_ok_cast_vote vote_key_def)

lemma with_vote_fields [simp]:
  "Signers (with_vote g n c b e s) = Signers s" "Voters (with_vote g n c b e s) = Voters s"
  by (simp_all add: with_vote_def Let_def)

lemma snapshot_ok_castAndPass:
  assumes "snapshot_ok s" "g \<in> voter_set s" "(g, c) \<notin> vote_key ` set (Votes s)"
  shows "snapshot_ok (castAndPass g n c b e s)"
  using snapshot_ok_with_vote [OF assms, of n b e]
  by (auto simp: castAndPass_with_vote intro!: snapshot_ok_passVote split: option.split)

lemma members_ok_castAndPass:
  assumes "members_ok X none s" "g \<in> voter_set s" "g \<in> signer_set s"
  shows "members_ok X none (castAndPass g n c b e s)"
proof -
  have "members_ok X none (with_vote g n c b e s)" using assms(1) by (simp add: members_ok_def)
  then show ?thesis
    using assms(2,3) members_ok_passVote [of X none "with_vote g n c b e s" g] by (simp add: castAndPass_with_vote split: option.split)
qed

lemma gput_not_Nil [simp]: "gput m k v \<noteq> []"
  by (metis gget_Nil gget_gput option.distinct(1))

lemma gkeys_gput_mem: "k \<in> set (gkeys m) \<Longrightarrow> set (gkeys (gput m k v)) = set (gkeys m)"
  by (auto simp: gomap_simps)

lemma snapshot_ok_apply_signed:
  assumes "snapshot_ok s" "apply_signed h n g s = Inr s'"
  shows "snapshot_ok s'"
proof -
  let ?s1 = "s\<lparr>Signers := gput (Signers s) g n\<rparr>"
  from assms(2) have g: "g \<in> signer_set s"
    by (auto simp: apply_signed_def gget_key split: option.splits dest: gget_Some_in)
  have ok1: "snapshot_ok ?s1"
    using assms(1) g by (auto simp: snapshot_ok_def votes_ok_def gomap_simps)
  show ?thesis
  proof (cases "g \<in> voter_set s")
    case False
    with assms(2) ok1 show ?thesis
      by (auto simp: apply_signed_def gget_key Let_def split: option.splits if_splits)
  next
    case True
    have "snapshot_ok (castAndPass g n c b e (discardVote g c ?s1))" for c b e
      using True ok1 discardVote_votes [of ?s1 g c]
      by (intro snapshot_ok_castAndPass snapshot_ok_discardVote) (auto simp: snapshot_ok_def)
    with assms(2) True show ?thesis
      by (auto simp: apply_signed_def apply_vote_def gget_key Let_def case_prod_beta
          split: option.splits if_splits)
  qed
qed

lemma apply_header_signed:
  assumes "apply_header ops cfg h s cache = (Inr s', cache')"
  obtains n g where "header_number h = Inr n" "Epoch cfg \<noteq> 0" "ecrecover ops h cache = (Inr g, cache')"
    "apply_signed h n g (if n mod Epoch cfg = 0 then s\<lparr>Votes := [], Tallies := []\<rparr> else s) = Inr s'"
proof -
  let ?s = "\<lambda>n. if n mod Epoch cfg = 0 then s\<lparr>Votes := [], Tallies := []\<rparr> else s"
  from assms obtain n where n: "header_number h = Inr n"
    by (cases "header_number h") (simp_all add: apply_header_def failS_def)
  with assms have e: "Epoch cfg \<noteq> 0" by (auto simp: apply_header_def bindS_def liftS_def failS_def)
  have "bindS (ecrecover ops h) (\<lambda>g. liftS (apply_signed h n g (?s n))) cache = (Inr s', cache')"
    using assms e by (simp only: apply_header_def n bindS_liftS if_False Let_def)
  then obtain g where "ecrecover ops h cache = (Inr g, cache')" "apply_signed h n g (?s n) = Inr s'"
    unfolding bindS_Inr liftS_def by blast
  with n e show ?thesis by (rule that)
qed

definition signer_election :: "Header \<Rightarrow> bool" where
  "signer_election h \<longleftrightarrow> \<not> (ExtraHasVote (Extra h) \<and> ExtraIsVoterElection (Extra h))"

text \<open>The vote of a header: on the zero address if its extra data carries none.\<close>

definition header_candidate :: "Header \<Rightarrow> address" where
  "header_candidate h = (if ExtraHasVote (Extra h) then ExtraCandidate (Extra h) else 0)"

definition header_votes :: "Header \<Rightarrow> address \<Rightarrow> bool \<Rightarrow> bool" where
  "header_votes h c b \<longleftrightarrow> c = header_candidate h \<and> Nonce h = (if b then nonceAuthVote else nonceDropVote)"

lemma apply_signed_cases:
  assumes "apply_signed h n g s = Inr s'"
  obtains (no_vote) "g \<in> signer_set s" "g \<notin> voter_set s" "s' = s\<lparr>Signers := gput (Signers s) g n\<rparr>"
  | (vote) c b e where "g \<in> signer_set s" "g \<in> voter_set s"
      "s' = castAndPass g n c b e (discardVote g c (s\<lparr>Signers := gput (Signers s) g n\<rparr>))"
      "signer_election h \<Longrightarrow> \<not> e"
      "header_votes h c b"
proof -
  from assms have g: "g \<in> signer_set s"
    by (auto simp: apply_signed_def gget_key split: option.splits dest: gget_Some_in)
  show ?thesis
  proof (cases "g \<in> voter_set s")
    case False
    with assms g show ?thesis
      by (intro no_vote) (auto simp: apply_signed_def gget_key Let_def split: option.splits if_splits)
  next
    case True
    have ne: "nonceAuthVote \<noteq> nonceDropVote" by (simp add: nonceAuthVote_def nonceDropVote_def)
    let ?c = "if ExtraHasVote (Extra h) then ExtraCandidate (Extra h) else 0"
    let ?e = "ExtraHasVote (Extra h) \<and> ExtraIsVoterElection (Extra h)"
    from assms g True have "apply_vote h n g (s\<lparr>Signers := gput (Signers s) g n\<rparr>) = Inr s'"
      by (auto simp: apply_signed_def gget_key Let_def split: option.splits if_splits)
    then have "s' = castAndPass g n ?c (Nonce h = nonceAuthVote) ?e (discardVote g ?c (s\<lparr>Signers := gput (Signers s) g n\<rparr>))"
        "header_votes h ?c (Nonce h = nonceAuthVote)"
      using ne by (auto simp: apply_vote_def header_votes_def header_candidate_def Let_def split: if_splits)
    with g True show ?thesis by (intro vote [where e = ?e]) (auto simp: signer_election_def)
  qed
qed

lemma members_ok_apply_signed:
  assumes "members_ok X none s" "apply_signed h n g s = Inr s'"
  shows "members_ok X none s'"
  using assms(2)
proof (cases rule: apply_signed_cases)
  case no_vote
  with assms(1) show ?thesis by (simp add: members_ok_def gkeys_gput_mem)
next
  case (vote c b e)
  let ?s = "discardVote g c (s\<lparr>Signers := gput (Signers s) g n\<rparr>)"
  have "members_ok X none ?s" using assms(1) vote(1) by (simp add: members_ok_def gkeys_gput_mem)
  then show ?thesis unfolding vote(3) using vote(1,2) by (intro members_ok_castAndPass) (simp_all add: gkeys_gput_mem)
qed

lemma snapshot_ok_reset: "snapshot_ok s \<Longrightarrow> snapshot_ok (s\<lparr>Votes := [], Tallies := []\<rparr>)"
  by (simp add: snapshot_ok_def votes_ok_def)

lemma snapshot_ok_apply_header:
  assumes "snapshot_ok s" "apply_header ops cfg h s cache = (Inr s', cache')"
  shows "snapshot_ok s'"
  using assms(2)
proof (rule apply_header_signed)
  fix n g
  assume "apply_signed h n g (if n mod Epoch cfg = 0 then s\<lparr>Votes := [], Tallies := []\<rparr> else s) = Inr s'"
  then show ?thesis
    using assms(1) snapshot_ok_reset [OF assms(1)] by (elim snapshot_ok_apply_signed [rotated]) (simp split: if_split)
qed

lemma members_ok_apply_header:
  assumes "members_ok X none s" "apply_header ops cfg h s cache = (Inr s', cache')"
  shows "members_ok X none s'"
  using assms(2)
proof (rule apply_header_signed)
  fix n g
  assume "apply_signed h n g (if n mod Epoch cfg = 0 then s\<lparr>Votes := [], Tallies := []\<rparr> else s) = Inr s'"
  then show ?thesis using assms(1) by (elim members_ok_apply_signed [rotated]) (simp add: members_ok_def)
qed

interpretation wf_run: preserving_loop "apply_header ops cfg" snapshot_ok "\<lambda>_. True"
  by unfold_locales (rule snapshot_ok_apply_header)

interpretation member_run: preserving_loop "apply_header ops cfg" "members_ok X none" "\<lambda>_. True"
  by unfold_locales (rule members_ok_apply_header)

lemma Snapshot_copy_id: "snapshot_ok s \<Longrightarrow> Snapshot_copy s = s"
  by (simp add: Snapshot_copy_def snapshot_ok_def gcopy_id)

section \<open>The tally counts the votes\<close>

definition votes_on :: "Snapshot \<Rightarrow> address \<Rightarrow> Vote list" where
  "votes_on s a = filter (\<lambda>v. v_Address v = a) (Votes s)"

text \<open>What the tally of an account says when only signers are elected: it counts the votes on the
  account, and they all ask for the change that is still possible.\<close>

definition tally_ok_at :: "Snapshot \<Rightarrow> address \<Rightarrow> bool" where
  "tally_ok_at s a = (case gget (Tallies s) a of
       None \<Rightarrow> votes_on s a = []
     | Some t \<Rightarrow> t_Votes t = int (length (votes_on s a)) \<and> votes_on s a \<noteq> []
         \<and> (\<forall>v \<in> set (votes_on s a). v_Authorize v = t_Authorize t)
         \<and> (t_Authorize t \<longleftrightarrow> a \<notin> signer_set s))"

definition tally_ok :: "Snapshot \<Rightarrow> bool" where
  "tally_ok s \<longleftrightarrow> (\<forall>a. tally_ok_at s a)"

lemma tally_ok_at_cong:
  "gget (Tallies s') a = gget (Tallies s) a \<Longrightarrow> votes_on s' a = votes_on s a \<Longrightarrow>
   (a \<in> signer_set s' \<longleftrightarrow> a \<in> signer_set s) \<Longrightarrow> tally_ok_at s' a = tally_ok_at s a"
  by (simp only: tally_ok_at_def)

lemma tally_ok_uncast:
  assumes ok: "tally_ok s" and vs: "Votes s = pre @ v # post"
  shows "tally_ok ((snd (uncast (v_Address v) (v_Authorize v) s))\<lparr>Votes := pre @ post\<rparr>)" (is "tally_ok ?s'")
  unfolding tally_ok_def
proof
  fix a
  let ?a = "v_Address v"
  show "tally_ok_at ?s' a"
  proof (cases "a = ?a")
    case False
    then have "gget (Tallies ?s') a = gget (Tallies s) a"
      by (simp add: uncast_def gomap_simps split: option.split)
    moreover have "votes_on ?s' a = votes_on s a" using False by (simp add: votes_on_def vs)
    ultimately have "tally_ok_at ?s' a = tally_ok_at s a" by (intro tally_ok_at_cong) simp_all
    with ok show ?thesis by (simp add: tally_ok_def)
  next
    case True
    define rest where "rest = filter (\<lambda>w. v_Address w = ?a) (pre @ post)"
    have on: "set (votes_on s ?a) = insert v (set rest)" "length (votes_on s ?a) = Suc (length rest)"
      by (auto simp: votes_on_def vs rest_def)
    have on': "votes_on ?s' ?a = rest" by (simp add: votes_on_def rest_def)
    from ok have "tally_ok_at s ?a" by (simp add: tally_ok_def)
    then obtain t where t: "gget (Tallies s) ?a = Some t" "t_Votes t = int (Suc (length rest))"
      "t_Authorize t = v_Authorize v" "\<forall>w \<in> set rest. v_Authorize w = t_Authorize t"
      "t_Authorize t \<longleftrightarrow> ?a \<notin> signer_set s"
      using on by (cases "gget (Tallies s) ?a") (auto simp: tally_ok_at_def)
    have "gget (Tallies ?s') ?a = (if rest = [] then None else Some (t\<lparr>t_Votes := int (length rest)\<rparr>))"
      using t(1-3) by (auto simp: uncast_def gomap_simps)
    with t True show ?thesis unfolding tally_ok_at_def True on' by (cases "rest = []") auto
  qed
qed

lemma tally_ok_discardVote:
  assumes "tally_ok s"
  shows "tally_ok (discardVote g c s)"
proof (cases "List.extract (\<lambda>v. v_Signer v = g \<and> v_Address v = c) (Votes s)")
  case None
  with assms show ?thesis by (simp add: discardVote_def)
next
  case (Some r)
  then obtain pre v post where r: "r = (pre, v, post)" by (cases r) auto
  with Some have "Votes s = pre @ v # post" by (auto simp: extract_Some_iff)
  from tally_ok_uncast [OF assms this] Some r show ?thesis by (simp add: discardVote_def)
qed

lemma tally_ok_discardCast: "tally_ok s \<Longrightarrow> tally_ok (discardCast c i s)"
proof (induction c i s rule: discardCast.induct)
  case (1 c i s)
  show ?case
  proof (cases "i < length (Votes s)")
    case True
    have "Votes s = take i (Votes s) @ Votes s ! i # drop (Suc i) (Votes s)"
      using True by (rule nth_take_drop)
    from tally_ok_uncast [OF "1.prems" this] 1 True show ?thesis
      by (subst discardCast.simps) (auto simp: Let_def)
  qed (use 1 in \<open>simp add: discardCast.simps\<close>)
qed

lemma tally_ok_Voters [simp]: "tally_ok (s\<lparr>Voters := vs\<rparr>) = tally_ok s"
  by (simp add: tally_ok_def tally_ok_at_def votes_on_def cong: option.case_cong)

lemma tally_ok_passVote:
  assumes "tally_ok s"
  shows "tally_ok (passVote c t s)"
  unfolding tally_ok_def
proof
  fix a
  let ?s1 = "if t_Authorize t then
           if gget (Signers s) c = None then s\<lparr>Signers := gput (Signers s) c 0\<rparr>
           else s\<lparr>Voters := gput (Voters s) c ()\<rparr>
         else
           if gget (Voters s) c = None then s\<lparr>Signers := gdel (Signers s) c\<rparr>
           else discardCast c 0 (s\<lparr>Voters := gdel (Voters s) c\<rparr>)"
  have pv: "passVote c t s = ?s1\<lparr>Votes := filter (\<lambda>v. v_Address v \<noteq> c) (Votes ?s1), Tallies := gdel (Tallies ?s1) c\<rparr>"
    by (simp add: passVote_def discardAbout_eq Let_def)
  show "tally_ok_at (passVote c t s) a"
  proof (cases "a = c")
    case True
    then show ?thesis unfolding pv tally_ok_at_def by (simp add: votes_on_def gomap_simps)
  next
    case False
    have "tally_ok (discardCast c 0 (s\<lparr>Voters := gdel (Voters s) c\<rparr>))"
      using assms by (intro tally_ok_discardCast) simp
    then have s1: "tally_ok_at ?s1 a"
      using assms False by (auto simp: tally_ok_def tally_ok_at_def votes_on_def gomap_simps cong: option.case_cong)
    have "votes_on (passVote c t s) a = votes_on ?s1 a"
      unfolding pv using False by (auto simp: votes_on_def intro: filter_cong)
    moreover have "gget (Tallies (passVote c t s)) a = gget (Tallies ?s1) a"
      unfolding pv using False by (simp add: gomap_simps)
    moreover have "Signers (passVote c t s) = Signers ?s1" unfolding pv by simp
    ultimately have "tally_ok_at (passVote c t s) a = tally_ok_at ?s1 a" by (intro tally_ok_at_cong) simp_all
    with s1 show ?thesis by simp
  qed
qed

lemma tally_ok_with_vote:
  assumes "tally_ok s"
  shows "tally_ok (with_vote g n c b False s)"
  unfolding tally_ok_def
proof
  fix a
  have ok: "tally_ok_at s a" for a using assms by (simp add: tally_ok_def)
  show "tally_ok_at (with_vote g n c b False s) a"
  proof (cases "validVote s c b False")
    case False
    with ok show ?thesis by (simp add: with_vote_def cast_vote_def)
  next
    case valid: True
    then have dir: "b \<longleftrightarrow> c \<notin> signer_set s" by (auto simp: validVote_def gget_key Let_def)
    let ?v = "\<lparr>v_Signer = g, v_Block = n, v_Address = c, v_Authorize = b\<rparr>"
    let ?t = "case gget (Tallies s) c of Some old \<Rightarrow> old\<lparr>t_Votes := t_Votes old + 1\<rparr>
      | None \<Rightarrow> \<lparr>t_Authorize = b, t_Votes = 1\<rparr>"
    have wv: "with_vote g n c b False s = s\<lparr>Tallies := gput (Tallies s) c ?t, Votes := Votes s @ [?v]\<rparr>"
      using valid by (simp add: with_vote_def cast_vote_def split: option.split)
    show ?thesis
    proof (cases "a = c")
      case False
      have "tally_ok_at (with_vote g n c b False s) a = tally_ok_at s a"
        unfolding wv using False by (intro tally_ok_at_cong) (simp_all add: votes_on_def gomap_simps)
      with ok show ?thesis by simp
    next
      case True
      have on: "votes_on (with_vote g n c b False s) c = votes_on s c @ [?v]"
        unfolding wv by (simp add: votes_on_def)
      have tal: "gget (Tallies (with_vote g n c b False s)) c = Some ?t" unfolding wv by (simp add: gomap_simps)
      have sg: "Signers (with_vote g n c b False s) = Signers s" by simp
      show ?thesis using ok [of c] dir unfolding tally_ok_at_def True on tal sg
        by (cases "gget (Tallies s) c") auto
    qed
  qed
qed

lemma tally_ok_castAndPass: "tally_ok s \<Longrightarrow> tally_ok (castAndPass g n c b False s)"
  by (auto simp: castAndPass_with_vote tally_ok_with_vote tally_ok_passVote split: option.split)

lemma tally_ok_Signers_gput: "g \<in> signer_set s \<Longrightarrow> tally_ok (s\<lparr>Signers := gput (Signers s) g n\<rparr>) = tally_ok s"
  unfolding tally_ok_def tally_ok_at_def votes_on_def
  by (simp add: gkeys_gput_mem cong: option.case_cong)

lemma tally_ok_apply_signed:
  assumes "apply_signed h n g s = Inr s'" "tally_ok s" "signer_election h"
  shows "tally_ok s'"
  using assms(1)
proof (cases rule: apply_signed_cases)
  case no_vote
  with assms(2) show ?thesis by (simp add: tally_ok_Signers_gput)
next
  case (vote c b e)
  with assms(2,3) show ?thesis
    by (simp add: tally_ok_castAndPass tally_ok_discardVote tally_ok_Signers_gput)
qed

lemma tally_ok_apply_header:
  assumes "tally_ok s" "signer_election h" "apply_header ops cfg h s cache = (Inr s', cache')"
  shows "tally_ok s'"
  using assms(3)
proof (rule apply_header_signed)
  fix n g
  assume ap: "apply_signed h n g (if n mod Epoch cfg = 0 then s\<lparr>Votes := [], Tallies := []\<rparr> else s) = Inr s'"
  have "tally_ok (s\<lparr>Votes := [], Tallies := []\<rparr>)" by (simp add: tally_ok_def tally_ok_at_def votes_on_def)
  with assms(1) show ?thesis by (intro tally_ok_apply_signed [OF ap _ assms(2)]) (simp split: if_split)
qed

interpretation tally_run: preserving_loop "apply_header ops cfg" tally_ok signer_election
  by unfold_locales (rule tally_ok_apply_header)

section \<open>A change of the membership is a majority decision\<close>

lemma castAndPass_change:
  assumes "signer_set (castAndPass g n c b e s) \<noteq> signer_set s \<or> voter_set (castAndPass g n c b e s) \<noteq> voter_set s"
  obtains t where "gget (Tallies (with_vote g n c b e s)) c = Some t" "t_Votes t > int (length (Voters s) div 2)"
    "castAndPass g n c b e s = passVote c t (with_vote g n c b e s)"
  using assms by (auto simp: castAndPass_with_vote split: option.splits if_splits)

lemma passVote_only_candidate:
  "signer_set (passVote c t s) - {c} = signer_set s - {c}" "voter_set (passVote c t s) - {c} = voter_set s - {c}"
  by (auto simp: passVote_fields gomap_simps)

lemma majority_of_votes:
  assumes ok: "snapshot_ok s" "tally_ok s" and t: "gget (Tallies s) c = Some t" "t_Votes t > int (length (Voters s) div 2)"
  defines "W \<equiv> v_Signer ` set (votes_on s c)"
  shows "W \<subseteq> voter_set s" "2 * card W > card (voter_set s)" "\<forall>v \<in> set (votes_on s c). v_Authorize v = t_Authorize t"
    "t_Authorize t \<longleftrightarrow> c \<notin> signer_set s"
proof -
  have at: "tally_ok_at s c" using ok(2) by (simp add: tally_ok_def)
  have "inj_on v_Signer (set (votes_on s c))"
  proof (rule inj_onI)
    fix v w
    assume "v \<in> set (votes_on s c)" "w \<in> set (votes_on s c)" "v_Signer v = v_Signer w"
    then have "v \<in> set (Votes s)" "w \<in> set (Votes s)" "vote_key v = vote_key w"
      by (auto simp: votes_on_def vote_key_def)
    with ok(1) show "v = w" by (auto simp: snapshot_ok_def votes_ok_def distinct_map dest: inj_onD)
  qed
  moreover have "distinct (votes_on s c)"
    using ok(1) by (auto simp: snapshot_ok_def votes_ok_def votes_on_def distinct_map)
  ultimately have "card W = length (votes_on s c)"
    unfolding W_def by (simp add: card_image distinct_card)
  moreover have "t_Votes t = int (length (votes_on s c))" using at t by (simp add: tally_ok_at_def)
  moreover have "card (voter_set s) = length (Voters s)" using ok(1) by (simp add: snapshot_ok_def length_gmap)
  ultimately show "2 * card W > card (voter_set s)" using t(2) by linarith
  show "W \<subseteq> voter_set s" using ok(1) by (auto simp: W_def votes_on_def snapshot_ok_def votes_ok_def)
  show "\<forall>v \<in> set (votes_on s c). v_Authorize v = t_Authorize t" "t_Authorize t \<longleftrightarrow> c \<notin> signer_set s"
    using at t by (simp_all add: tally_ok_at_def)
qed

text \<open>The votes on the candidate after the new vote: the recorded ones of other voters, and the new one.\<close>

lemma votes_on_with_vote:
  assumes "votes_ok s" "v \<in> set (votes_on (with_vote g n c b e (discardVote g c (s\<lparr>Signers := x\<rparr>))) c)"
  shows "if v_Signer v = g then v_Authorize v = b else v \<in> set (votes_on s c)"
proof -
  have "votes_ok (s\<lparr>Signers := x\<rparr>)" using assms(1) by (simp add: votes_ok_def)
  then have "Votes (discardVote g c (s\<lparr>Signers := x\<rparr>)) = filter (\<lambda>v. vote_key v \<noteq> (g, c)) (Votes s)"
    by (simp add: discardVote_votes)
  with assms(2) consider "v \<in> set (Votes s)" "v_Address v = c" "vote_key v \<noteq> (g, c)"
    | "v = \<lparr>v_Signer = g, v_Block = n, v_Address = c, v_Authorize = b\<rparr>"
    unfolding votes_on_def with_vote_def Let_def by (auto split: if_splits)
  then show ?thesis by cases (auto simp: votes_on_def vote_key_def)
qed

lemma majority_change:
  assumes ok: "snapshot_ok s" "tally_ok s" "signer_election h" and ap: "apply_signed h n g s = Inr s'"
    and ch: "signer_set s' \<noteq> signer_set s \<or> voter_set s' \<noteq> voter_set s"
  shows "\<exists>c b W. c = header_candidate h \<and> W \<subseteq> voter_set s \<and> 2 * card W > card (voter_set s)
    \<and> (\<forall>w \<in> W. if w = g then header_votes h c b
               else \<exists>v \<in> set (Votes s). v_Signer v = w \<and> v_Address v = c \<and> v_Authorize v = b)
    \<and> (b \<longleftrightarrow> c \<notin> signer_set s)
    \<and> signer_set s' - {c} = signer_set s - {c} \<and> voter_set s' - {c} = voter_set s - {c}"
  using ap
proof (cases rule: apply_signed_cases)
  case no_vote
  with ch show ?thesis by (simp add: gkeys_gput_mem)
next
  case (vote c b e)
  let ?s0 = "s\<lparr>Signers := gput (Signers s) g n\<rparr>"
  let ?s1 = "discardVote g c ?s0"
  let ?s2 = "with_vote g n c b e ?s1"
  have sets: "signer_set ?s0 = signer_set s" using vote by (simp add: gkeys_gput_mem)
  have ok0: "snapshot_ok ?s0" using ok(1) by (simp add: snapshot_ok_def votes_ok_def)
  have e: "\<not> e" using vote ok(3) by blast
  have g1: "g \<in> voter_set ?s1" using vote by simp
  have "(g, c) \<notin> vote_key ` set (Votes ?s1)"
    using discardVote_votes [of ?s0 g c] ok0 by (auto simp: snapshot_ok_def)
  from snapshot_ok_with_vote [OF snapshot_ok_discardVote [OF ok0] g1 this]
  have ok2: "snapshot_ok ?s2" .
  have t2: "tally_ok ?s2"
    using e ok(2) vote by (simp add: tally_ok_with_vote tally_ok_discardVote tally_ok_Signers_gput)
  from ch vote sets have "signer_set (castAndPass g n c b e ?s1) \<noteq> signer_set ?s1
      \<or> voter_set (castAndPass g n c b e ?s1) \<noteq> voter_set ?s1" by simp
  then obtain t where t: "gget (Tallies ?s2) c = Some t" "t_Votes t > int (length (Voters ?s1) div 2)"
    "castAndPass g n c b e ?s1 = passVote c t ?s2" by (rule castAndPass_change)
  have vs2: "Voters ?s2 = Voters s" and ss2: "signer_set ?s2 = signer_set s" using sets by simp_all
  have "t_Votes t > int (length (Voters ?s2) div 2)" using t(2) by simp
  note maj = majority_of_votes [OF ok2 t2 t(1) this, unfolded vs2 ss2]
  let ?W = "v_Signer ` set (votes_on ?s2 c)"
  have "?W \<subseteq> voter_set s \<and> 2 * card ?W > card (voter_set s)" "t_Authorize t \<longleftrightarrow> c \<notin> signer_set s"
    by (intro conjI maj)+
  moreover have "if v_Signer v = g then header_votes h c (t_Authorize t)
      else \<exists>u \<in> set (Votes s). v_Signer u = v_Signer v \<and> v_Address u = c \<and> v_Authorize u = t_Authorize t"
    if v: "v \<in> set (votes_on ?s2 c)" for v
  proof -
    have "v_Authorize v = t_Authorize t" using maj(3) v by blast
    moreover have "if v_Signer v = g then v_Authorize v = b else v \<in> set (votes_on s c)"
      using votes_on_with_vote [OF _ v] ok(1) unfolding snapshot_ok_def by blast
    ultimately show ?thesis using vote(5) by (auto simp: votes_on_def split: if_splits)
  qed
  moreover have "signer_set s' - {c} = signer_set s - {c} \<and> voter_set s' - {c} = voter_set s - {c}"
    using passVote_only_candidate [of c t ?s2] unfolding vote(3) t(3) vs2 ss2 by (intro conjI)
  moreover have "c = header_candidate h" using vote(5) by (simp add: header_votes_def)
  ultimately show ?thesis by (intro exI [of _ c] exI [of _ "t_Authorize t"] exI [of _ ?W]) blast
qed

end
