(* ===== verification/Clique_Difficulty.thy ===== *)
theory Clique_Difficulty
  imports Clique_Votes
begin

text \<open>
  \<open>CalcDifficulty\<close> (\<open>consensus/clique/clique.go\<close>) ranks the signers by how long ago they signed.  The
  lemmas show that the ranks are a permutation: every difficulty from \<open>n/2+1\<close> to \<open>n\<close> belongs to exactly
  one signer, and a signer with a difficulty is one the recent-signer rule lets sign.
\<close>

definition CalcDifficulty :: "(address, u64) gomap \<Rightarrow> address \<Rightarrow> u64" where
  "CalcDifficulty lastSigned signer =
     (let last = (case gget lastSigned signer of None \<Rightarrow> 0 | Some n \<Rightarrow> n);
          difficulty =
            (if last > 0
             then foldl (\<lambda>d (addr, n). if n > last then d + 1 else d) 1 lastSigned
             else foldl (\<lambda>d (addr, n). if n > 0 \<or> bytes_Compare (word_bytes addr) (word_bytes signer) > 0
                                      then d + 1 else d) 1 lastSigned)
      in if difficulty \<le> length lastSigned div 2 then 0 else of_nat difficulty)"

section \<open>Ranks\<close>

text \<open>The block numbers last signed, zero for a signer that has not signed, are distinct otherwise.\<close>

definition lasts_distinct :: "(address, u64) gomap \<Rightarrow> bool" where
  "lasts_distinct m \<longleftrightarrow> distinct (filter (\<lambda>n. n \<noteq> 0) (map snd m))"

definition prio :: "address \<times> u64 \<Rightarrow> nat" where
  "prio = (\<lambda>(a, n). if n = 0 then unat a else 2 ^ 160 + unat n)"

definition rank :: "(address, u64) gomap \<Rightarrow> address \<times> u64 \<Rightarrow> nat" where
  "rank m x = length (filter (\<lambda>y. prio x < prio y) m)"

lemma unat_address_less: "unat (a :: address) < 2 ^ 160"
  using unsigned_less [of a, where ?'a = nat] by simp

lemma foldl_count: "foldl (\<lambda>d x. if P x then d + 1 else d) k xs = k + length (filter P xs)"
  by (induction xs arbitrary: k) auto

lemma prio_less:
  "prio (a, l) < prio (b, n) \<longleftrightarrow> (if l > 0 then n > l else n > 0 \<or> b > a)"
  using unat_address_less [of a] unat_address_less [of b]
  by (auto simp: prio_def word_less_nat_alt word_neq_0_conv)

lemma CalcDifficulty_rank:
  assumes "gget m a = Some n"
  shows "CalcDifficulty m a = (if Suc (rank m (a, n)) \<le> length m div 2 then 0 else of_nat (Suc (rank m (a, n))))"
proof -
  have c1: "foldl (\<lambda>d (addr, k). if k > n then d + 1 else d) 1 m = 1 + length (filter (\<lambda>x. snd x > n) m)"
    using foldl_count [of "\<lambda>x. snd x > n" 1 m] by (simp add: case_prod_unfold)
  have c2: "foldl (\<lambda>d (addr, k). if k > 0 \<or> bytes_Compare (word_bytes addr) (word_bytes a) > 0 then d + 1 else d) 1 m
      = 1 + length (filter (\<lambda>x. snd x > 0 \<or> fst x > a) m)"
    using foldl_count [of "\<lambda>x. snd x > 0 \<or> fst x > a" 1 m] by (simp add: case_prod_unfold bytes_Compare_word)
  have "rank m (a, n) = length (filter (\<lambda>x. if n > 0 then snd x > n else snd x > 0 \<or> fst x > a) m)"
    unfolding rank_def by (rule arg_cong [where f = length], rule filter_cong) (auto simp: prio_less)
  then show ?thesis
    using assms unfolding CalcDifficulty_def Let_def c2 by (cases "n > 0") (simp_all add: c1 [simplified])
qed

lemma prio_inj:
  assumes "gmap_ok m" "lasts_distinct m" "x \<in> set m" "y \<in> set m" "prio x = prio y"
  shows "x = y"
proof -
  obtain a n b k where xy: "x = (a, n)" "y = (b, k)" by fastforce
  show ?thesis
  proof (cases "n = 0")
    case True
    with assms(5) xy have "k = 0" "a = b"
      using unat_address_less [of a] by (auto simp: prio_def word_unat_eq_iff split: if_splits)
    with True xy show ?thesis by simp
  next
    case False
    with assms(5) xy have nk: "k = n" "k \<noteq> 0"
      using unat_address_less [of b] by (auto simp: prio_def word_unat_eq_iff split: if_splits)
    have "distinct (map snd (filter (\<lambda>p. snd p \<noteq> 0) m))"
      using assms(2) by (simp add: lasts_distinct_def filter_map comp_def)
    then have "inj_on snd (set (filter (\<lambda>p. snd p \<noteq> 0) m))" by (simp add: distinct_map)
    from inj_onD [OF this, of x y] show ?thesis using assms(3,4) xy nk False by simp
  qed
qed

lemma rank_less: "x \<in> set m \<Longrightarrow> rank m x < length m"
  unfolding rank_def by (rule length_filter_less [of x]) auto

lemma rank_strict:
  assumes "x \<in> set m" "y \<in> set m" "prio x < prio y"
  shows "rank m y < rank m x"
proof -
  have "filter (\<lambda>z. prio y < prio z) m = filter (\<lambda>z. prio y < prio z) (filter (\<lambda>z. prio x < prio z) m)"
    using assms(3) by (auto intro: filter_cong)
  also have "length \<dots> < length (filter (\<lambda>z. prio x < prio z) m)"
    by (rule length_filter_less [of y]) (use assms in auto)
  finally show ?thesis by (simp add: rank_def)
qed

lemma rank_inj: "gmap_ok m \<Longrightarrow> lasts_distinct m \<Longrightarrow> inj_on (rank m) (set m)"
proof (rule inj_onI)
  fix x y
  assume m: "gmap_ok m" "lasts_distinct m" and xy: "x \<in> set m" "y \<in> set m" "rank m x = rank m y"
  have "prio x = prio y" using rank_strict [OF xy(1,2)] rank_strict [OF xy(2,1)] xy(3) by linarith
  with m xy show "x = y" by (intro prio_inj)
qed

lemma rank_bij: 
  assumes "gmap_ok m" "lasts_distinct m"
  shows "rank m ` set m = {0..<length m}"
proof -
  have "distinct m" using assms(1) by (simp add: gmap_ok_def distinct_map)
  then have "card (rank m ` set m) = length m"
    using rank_inj [OF assms] by (simp add: card_image distinct_card)
  moreover have "rank m ` set m \<subseteq> {0..<length m}" using rank_less by auto
  ultimately show ?thesis by (intro card_subset_eq) simp_all
qed

lemma gkeys_entry: "gmap_ok m \<Longrightarrow> a \<in> set (gkeys m) \<longleftrightarrow> (\<exists>n. gget m a = Some n \<and> (a, n) \<in> set m)"
  by (auto simp: gmap_ok_gget set_gkeys)

lemma difficulty_of_rank:
  assumes "gget m a = Some n" "(a, n) \<in> set m" "length m < 2 ^ 64"
  shows "unat (CalcDifficulty m a) = (if Suc (rank m (a, n)) \<le> length m div 2 then 0 else Suc (rank m (a, n)))"
  using CalcDifficulty_rank [OF assms(1)] rank_less [OF assms(2)] assms(3)
  by (simp del: of_nat_Suc)

lemma difficulty_bij:
  assumes m: "gmap_ok m" "lasts_distinct m" "length m < 2 ^ 64"
  shows "bij_betw (\<lambda>a. unat (CalcDifficulty m a)) {a \<in> set (gkeys m). CalcDifficulty m a \<noteq> 0} {length m div 2 + 1..length m}"
proof (rule bij_betwI')
  fix a b
  assume "a \<in> {a \<in> set (gkeys m). CalcDifficulty m a \<noteq> 0}" "b \<in> {a \<in> set (gkeys m). CalcDifficulty m a \<noteq> 0}"
  then obtain n k where a: "gget m a = Some n" "(a, n) \<in> set m" "CalcDifficulty m a \<noteq> 0"
    and b: "gget m b = Some k" "(b, k) \<in> set m" "CalcDifficulty m b \<noteq> 0"
    using gkeys_entry [OF m(1)] by blast
  have "rank m (a, n) = rank m (b, k) \<Longrightarrow> a = b" using rank_inj [OF m(1,2)] a(2) b(2) by (auto dest: inj_onD)
  then show "(unat (CalcDifficulty m a) = unat (CalcDifficulty m b)) = (a = b)"
    using difficulty_of_rank [OF a(1,2) m(3)] difficulty_of_rank [OF b(1,2) m(3)] a(3) b(3)
    by (auto simp: unat_eq_0 split: if_splits)
next
  fix a
  assume "a \<in> {a \<in> set (gkeys m). CalcDifficulty m a \<noteq> 0}"
  then obtain n where a: "gget m a = Some n" "(a, n) \<in> set m" "CalcDifficulty m a \<noteq> 0"
    using gkeys_entry [OF m(1)] by blast
  then show "unat (CalcDifficulty m a) \<in> {length m div 2 + 1..length m}"
    using difficulty_of_rank [OF a(1,2) m(3)] rank_less [OF a(2)] by (auto simp: unat_eq_0 split: if_splits)
next
  fix d
  assume d: "d \<in> {length m div 2 + 1..length m}"
  then have "d - 1 \<in> rank m ` set m" using rank_bij [OF m(1,2)] by auto
  then obtain a n where an: "(a, n) \<in> set m" "rank m (a, n) = d - 1" by auto
  then have g: "gget m a = Some n" using m(1) by (simp add: gmap_ok_gget)
  have "unat (CalcDifficulty m a) = d" using difficulty_of_rank [OF g an(1) m(3)] an(2) d by auto
  moreover have "a \<in> set (gkeys m)" using g by (rule gget_Some_in)
  ultimately show "\<exists>a \<in> {a \<in> set (gkeys m). CalcDifficulty m a \<noteq> 0}. d = unat (CalcDifficulty m a)"
    using d by (intro bexI [of _ a]) auto
qed

section \<open>A difficulty implies eligibility\<close>

lemma distinct_words_card:
  assumes "distinct xs" "\<forall>n \<in> set xs. a < n \<and> n < (b :: u64)"
  shows "unat a + length xs < unat b \<or> xs = []"
proof (cases xs)
  case (Cons x ys)
  have "unat ` set xs \<subseteq> {unat a + 1..<unat b}" using assms(2) by (auto simp: word_less_nat_alt)
  then have "card (unat ` set xs) \<le> unat b - (unat a + 1)" using card_mono [of "{unat a + 1..<unat b}"] by fastforce
  moreover have "card (unat ` set xs) = length xs"
    using assms(1) by (simp add: card_image distinct_card inj_on_def word_unat_eq_iff [symmetric])
  moreover have "unat a < unat b" using assms(2) Cons by (auto simp: word_less_nat_alt)
  ultimately show ?thesis by linarith
qed simp

lemma difficulty_signable:
  assumes m: "lasts_distinct m" "\<forall>(a, n) \<in> set m. n < number"
    and g: "gget m a = Some l" "l > 0" "CalcDifficulty m a \<noteq> 0"
  shows "unat l + length m div 2 + 1 \<le> unat number"
proof -
  let ?xs = "map snd (filter (\<lambda>y. snd y > l) m)"
  have "prio (a, l) < prio y \<longleftrightarrow> snd y > l" for y using g(2) by (cases y) (simp add: prio_less)
  then have r: "rank m (a, l) = length ?xs" by (simp add: rank_def)
  have "\<not> Suc (rank m (a, l)) \<le> length m div 2" using g(3) CalcDifficulty_rank [OF g(1)] by auto
  with r have len: "length m div 2 \<le> length ?xs" by simp
  have "distinct (map snd (filter (\<lambda>y. snd y \<noteq> 0) m))"
    using m(1) by (simp add: lasts_distinct_def filter_map comp_def)
  then have "distinct (map snd (filter (\<lambda>y. snd y > l) (filter (\<lambda>y. snd y \<noteq> 0) m)))"
    by (rule distinct_map_filter')
  moreover have "filter (\<lambda>y. snd y > l) (filter (\<lambda>y. snd y \<noteq> 0) m) = filter (\<lambda>y. snd y > l) m"
    using g(2) by (auto simp: word_less_nat_alt intro!: filter_cong)
  ultimately have "distinct ?xs" by simp
  moreover have "\<forall>n \<in> set ?xs. l < n \<and> n < number" using m(2) by auto
  ultimately have "unat l + length ?xs < unat number \<or> ?xs = []" by (rule distinct_words_card)
  moreover have "unat l < unat number"
    using m(2) g(1) by (auto simp: gget_def word_less_nat_alt dest: map_of_SomeD)
  ultimately show ?thesis using len by auto
qed

end
