(* ===== verification/Chain_Config.thy ===== *)
theory Chain_Config
  imports Common_Types
begin

text \<open>
  The chain configuration (\<open>params/config.go\<close>): which rules are active at a block, and whether a stored
  chain can go on under a new configuration.  A \<open>*big.Int\<close> is an \<open>int option\<close>, \<open>None\<close> for nil.
\<close>

record ChainConfig =
  ChainId :: "int option"
  HomesteadBlock :: "int option"
  EIP150Block :: "int option"
  EIP150Hash :: hash
  EIP155Block :: "int option"
  EIP158Block :: "int option"
  ByzantiumBlock :: "int option"

record Rules =
  r_ChainId :: int
  r_IsHomestead :: bool
  r_IsEIP150 :: bool
  r_IsEIP155 :: bool
  r_IsEIP158 :: bool
  r_IsByzantium :: bool

definition isForked :: "int option \<Rightarrow> int option \<Rightarrow> bool" where
  "isForked s head = (case (s, head) of (Some s', Some head') \<Rightarrow> s' \<le> head' | _ \<Rightarrow> False)"

definition configNumEqual :: "int option \<Rightarrow> int option \<Rightarrow> bool" where
  "configNumEqual x y =
     (case x of None \<Rightarrow> y = None
      | Some x' \<Rightarrow> (case y of None \<Rightarrow> x = None | Some y' \<Rightarrow> x' = y'))"

definition IsHomestead :: "ChainConfig \<Rightarrow> int option \<Rightarrow> bool" where
  "IsHomestead c num = isForked (HomesteadBlock c) num"

definition IsEIP150 :: "ChainConfig \<Rightarrow> int option \<Rightarrow> bool" where
  "IsEIP150 c num = isForked (EIP150Block c) num"

definition IsEIP155 :: "ChainConfig \<Rightarrow> int option \<Rightarrow> bool" where
  "IsEIP155 c num = isForked (EIP155Block c) num"

definition IsEIP158 :: "ChainConfig \<Rightarrow> int option \<Rightarrow> bool" where
  "IsEIP158 c num = isForked (EIP158Block c) num"

definition IsByzantium :: "ChainConfig \<Rightarrow> int option \<Rightarrow> bool" where
  "IsByzantium c num = isForked (ByzantiumBlock c) num"

definition chain_Rules :: "ChainConfig \<Rightarrow> int option \<Rightarrow> Rules" where
  "chain_Rules c num =
     \<lparr>r_ChainId = (case ChainId c of None \<Rightarrow> 0 | Some i \<Rightarrow> i),
      r_IsHomestead = IsHomestead c num, r_IsEIP150 = IsEIP150 c num, r_IsEIP155 = IsEIP155 c num,
      r_IsEIP158 = IsEIP158 c num, r_IsByzantium = IsByzantium c num\<rparr>"

record ConfigCompatError =
  What :: string
  StoredConfig :: "int option"
  NewConfig :: "int option"
  RewindTo :: u64

definition newCompatError :: "string \<Rightarrow> int option \<Rightarrow> int option \<Rightarrow> ConfigCompatError" where
  "newCompatError what storedblock newblock =
     (let rew = (case storedblock of
                   None \<Rightarrow> newblock
                 | Some s \<Rightarrow> (case newblock of
                              None \<Rightarrow> storedblock
                            | Some n \<Rightarrow> if s < n then storedblock else newblock))
      in \<lparr>What = what, StoredConfig = storedblock, NewConfig = newblock,
          RewindTo = (case rew of None \<Rightarrow> 0 | Some r \<Rightarrow> if r > 0 then big_Uint64 r - 1 else 0)\<rparr>)"

definition isForkIncompatible :: "int option \<Rightarrow> int option \<Rightarrow> int option \<Rightarrow> bool" where
  "isForkIncompatible s1 s2 head \<longleftrightarrow> (isForked s1 head \<or> isForked s2 head) \<and> \<not> configNumEqual s1 s2"

definition checkCompatible_at :: "ChainConfig \<Rightarrow> ChainConfig \<Rightarrow> int option \<Rightarrow> ConfigCompatError option" where
  "checkCompatible_at c newcfg head =
     (if isForkIncompatible (HomesteadBlock c) (HomesteadBlock newcfg) head
      then Some (newCompatError ''Homestead fork block'' (HomesteadBlock c) (HomesteadBlock newcfg))
      else if isForkIncompatible (EIP150Block c) (EIP150Block newcfg) head
      then Some (newCompatError ''EIP150 fork block'' (EIP150Block c) (EIP150Block newcfg))
      else if isForkIncompatible (EIP155Block c) (EIP155Block newcfg) head
      then Some (newCompatError ''EIP155 fork block'' (EIP155Block c) (EIP155Block newcfg))
      else if isForkIncompatible (EIP158Block c) (EIP158Block newcfg) head
      then Some (newCompatError ''EIP158 fork block'' (EIP158Block c) (EIP158Block newcfg))
      else if IsEIP158 c head \<and> \<not> configNumEqual (ChainId c) (ChainId newcfg)
      then Some (newCompatError ''EIP158 chain ID'' (EIP158Block c) (EIP158Block newcfg))
      else if isForkIncompatible (ByzantiumBlock c) (ByzantiumBlock newcfg) head
      then Some (newCompatError ''Byzantium fork block'' (ByzantiumBlock c) (ByzantiumBlock newcfg))
      else None)"

section \<open>The search for the lowest conflict ends\<close>

definition head_of :: "u64 \<Rightarrow> int option" where
  "head_of n = Some (int (unat n))"

lemma configNumEqual_eq: "configNumEqual x y \<longleftrightarrow> x = y"
  by (auto simp: configNumEqual_def split: option.splits)

lemma RewindTo_newCompatError:
  assumes "isForked s1 (head_of h) \<or> isForked s2 (head_of h)"
  shows "RewindTo (newCompatError what s1 s2) \<le> h"
proof -
  have bound: "(if r > 0 then big_Uint64 r - 1 else 0) \<le> h" if "r \<le> int (unat h)" for r
  proof (cases "r > 0")
    case True
    then have r: "big_Uint64 r = of_nat (nat r)" by (simp add: big_Uint64_def)
    have le: "nat r \<le> unat h" using that by linarith
    moreover have "unat h < 2 ^ 64" using unsigned_less [of h, where ?'a = nat] by simp
    ultimately have u: "unat (of_nat (nat r) :: u64) = nat r" by (simp add: unat_of_nat)
    have "(1 :: u64) \<le> of_nat (nat r)" using True u by (simp add: word_le_nat_alt)
    then have "unat (of_nat (nat r) - 1 :: u64) = nat r - 1" using u by (simp add: unat_sub)
    then show ?thesis using True le r by (simp add: word_le_nat_alt)
  qed simp
  show ?thesis
  proof (cases s1)
    case None
    with assms obtain n where "s2 = Some n" "n \<le> int (unat h)"
      by (auto simp: isForked_def head_of_def split: option.splits)
    with None bound [of n] show ?thesis by (simp add: newCompatError_def)
  next
    case (Some k)
    show ?thesis
    proof (cases s2)
      case None
      with Some assms have "k \<le> int (unat h)" by (simp add: isForked_def head_of_def)
      with None Some bound [of k] show ?thesis by (simp add: newCompatError_def)
    next
      case (Some n)
      with \<open>s1 = Some k\<close> assms have "k \<le> int (unat h) \<or> n \<le> int (unat h)" by (simp add: isForked_def head_of_def)
      with Some \<open>s1 = Some k\<close> bound [of k] bound [of n] show ?thesis by (cases "k < n") (auto simp: newCompatError_def)
    qed
  qed
qed

lemma RewindTo_checkCompatible_at:
  assumes "checkCompatible_at c newcfg (head_of h) = Some err"
  shows "RewindTo err \<le> h"
proof -
  have "isForkIncompatible s1 s2 (head_of h) \<Longrightarrow> RewindTo (newCompatError what s1 s2) \<le> h" for s1 s2 what
    unfolding isForkIncompatible_def by (intro RewindTo_newCompatError) blast
  moreover have "IsEIP158 c (head_of h) \<Longrightarrow> RewindTo (newCompatError what (EIP158Block c) s2) \<le> h" for s2 what
    unfolding IsEIP158_def by (intro RewindTo_newCompatError) blast
  ultimately show ?thesis
    using assms unfolding checkCompatible_at_def by (simp split: if_split_asm) metis+
qed

function CheckCompatible_loop ::
    "ChainConfig \<Rightarrow> ChainConfig \<Rightarrow> u64 \<Rightarrow> ConfigCompatError option \<Rightarrow> ConfigCompatError option" where
  "CheckCompatible_loop c newcfg bhead lasterr =
     (case checkCompatible_at c newcfg (head_of bhead) of
        None \<Rightarrow> lasterr
      | Some err \<Rightarrow>
          if lasterr \<noteq> None \<and> RewindTo err = RewindTo (the lasterr) then lasterr
          else CheckCompatible_loop c newcfg (RewindTo err) (Some err))"
  by pat_completeness auto
termination
proof (relation "measures [\<lambda>(c, n, h, e). unat h,
    \<lambda>(c, n, h, e). if e = None \<or> RewindTo (the e) \<noteq> h then 1 else 0]")
  show "wf (measures [\<lambda>(c :: ChainConfig, n :: ChainConfig, h :: u64, e :: ConfigCompatError option). unat h,
    \<lambda>(c, n, h, e). if e = None \<or> RewindTo (the e) \<noteq> h then 1 else 0])" by simp
next
  fix c newcfg bhead and lasterr :: "ConfigCompatError option" and err
  assume err: "checkCompatible_at c newcfg (head_of bhead) = Some err"
    and go: "\<not> (lasterr \<noteq> None \<and> RewindTo err = RewindTo (the lasterr))"
  have "unat (RewindTo err) \<le> unat bhead" using RewindTo_checkCompatible_at [OF err] by (simp add: word_le_nat_alt)
  then show "((c, newcfg, RewindTo err, Some err), c, newcfg, bhead, lasterr) \<in> measures
    [\<lambda>(c, n, h, e). unat h, \<lambda>(c, n, h, e). if e = None \<or> RewindTo (the e) \<noteq> h then 1 else 0]"
    using go by (cases "unat (RewindTo err) = unat bhead") (auto simp: word_unat_eq_iff)
qed

declare CheckCompatible_loop.simps [simp del]

definition CheckCompatible :: "ChainConfig \<Rightarrow> ChainConfig \<Rightarrow> u64 \<Rightarrow> ConfigCompatError option" where
  "CheckCompatible c newcfg height = CheckCompatible_loop c newcfg height None"

definition settled :: "ChainConfig \<Rightarrow> ChainConfig \<Rightarrow> ConfigCompatError \<Rightarrow> bool" where
  "settled c newcfg err \<longleftrightarrow>
     (case checkCompatible_at c newcfg (head_of (RewindTo err)) of None \<Rightarrow> True | Some e \<Rightarrow> RewindTo e = RewindTo err)"

lemma loop_settles:
  "CheckCompatible_loop c newcfg (RewindTo e) (Some e) = r \<Longrightarrow>
   \<exists>err. r = Some err \<and> RewindTo err \<le> RewindTo e \<and> settled c newcfg err"
proof (induction "unat (RewindTo e)" arbitrary: e rule: less_induct)
  case less
  show ?case
  proof (cases "checkCompatible_at c newcfg (head_of (RewindTo e))")
    case None
    with less.prems show ?thesis by (subst (asm) CheckCompatible_loop.simps) (auto simp: settled_def)
  next
    case (Some err)
    show ?thesis
    proof (cases "RewindTo err = RewindTo e")
      case True
      with Some less.prems show ?thesis by (subst (asm) CheckCompatible_loop.simps) (auto simp: settled_def)
    next
      case False
      have le: "RewindTo err \<le> RewindTo e" using RewindTo_checkCompatible_at [OF Some] .
      with False have lt: "unat (RewindTo err) < unat (RewindTo e)" by (simp add: word_less_nat_alt [symmetric])
      have "CheckCompatible_loop c newcfg (RewindTo e) (Some e) = CheckCompatible_loop c newcfg (RewindTo err) (Some err)"
        using Some False by (subst CheckCompatible_loop.simps) simp
      with less.hyps [OF lt] less.prems le show ?thesis by (metis order_trans)
    qed
  qed
qed

text \<open>
  C27. \<open>CheckCompatible\<close> always returns; it reports no error exactly when the head is compatible, and the
  error it reports rewinds far enough: at that block the configurations are compatible, or every remaining
  conflict asks for the same block again (a conflict at genesis).  It never rewinds past the head.
\<close>

theorem CheckCompatible_lowest_conflict:
  "case CheckCompatible c newcfg height of
     None \<Rightarrow> checkCompatible_at c newcfg (head_of height) = None
   | Some err \<Rightarrow> checkCompatible_at c newcfg (head_of height) \<noteq> None \<and> RewindTo err \<le> height \<and>
       (case checkCompatible_at c newcfg (head_of (RewindTo err)) of None \<Rightarrow> True | Some e \<Rightarrow> RewindTo e = RewindTo err)"
proof (cases "checkCompatible_at c newcfg (head_of height)")
  case None
  then show ?thesis unfolding CheckCompatible_def by (subst CheckCompatible_loop.simps) simp
next
  case (Some e)
  have step: "CheckCompatible c newcfg height = CheckCompatible_loop c newcfg (RewindTo e) (Some e)"
    unfolding CheckCompatible_def using Some by (subst CheckCompatible_loop.simps) simp
  from loop_settles [OF refl, of c newcfg e] obtain err where
    err: "CheckCompatible_loop c newcfg (RewindTo e) (Some e) = Some err" "RewindTo err \<le> RewindTo e" "settled c newcfg err"
    by blast
  have "RewindTo err \<le> height" using err(2) RewindTo_checkCompatible_at [OF Some] by (rule order_trans)
  with err(3) Some show ?thesis unfolding step err(1) by (simp add: settled_def)
qed

end
