(* ===== verification/Clique_Engine.thy ===== *)
theory Clique_Engine
  imports Clique_Difficulty Chain_Config
begin

text \<open>
  The clique engine (\<open>consensus/clique/clique.go\<close>, \<open>api.go\<close>): header verification, the retrieval of
  snapshots through the in-memory cache, the database and the chain, the preparation and sealing of
  headers, and the RPC interface.

  The engine's state is the record \<open>Clique\<close>.  Its database maps keys to blobs; reads and writes may fail
  (\<open>db_Get_fails\<close>, \<open>db_Put_fails\<close>), and the JSON form of a snapshot is given by the parameters
  \<open>json_Marshal\<close> and \<open>json_Unmarshal\<close>.  The chain is a \<open>ChainReader\<close>, an interface, and so a parameter; so are
  the wall clock \<open>now\<close>, the eviction policy of the snapshot cache and, in the operations that use them,
  the signing function and the random choice.

  \<open>snapshot\<close> verifies the genesis header, and verification asks for snapshots: the recursion is cut by
  fuel, and two rounds are enough for a chain whose block 0 has number 0 (\<open>VerifyHeader_genesis\<close>).
\<close>

section \<open>State\<close>

record propose =
  p_Authorize :: bool
  p_VoterElection :: bool

record Clique =
  config :: CliqueConfig
  db :: "(bytes, bytes) gomap"
  recents :: "(hash, Snapshot) gomap"
  signatures :: sigcache
  proposals :: "(address, propose) gomap"
  c_signer :: address

record ChainReader =
  chain_Config :: ChainConfig
  CurrentHeader :: "Header option"
  GetHeader :: "hash \<Rightarrow> u64 \<Rightarrow> Header option"
  GetHeaderByNumber :: "u64 \<Rightarrow> Header option"
  GetHeaderByHash :: "hash \<Rightarrow> Header option"

record engine_env =
  ops :: crypto
  evict_recents :: "(hash, Snapshot) gomap \<Rightarrow> (hash, Snapshot) gomap"
  now :: int
  json_Marshal :: "Snapshot \<Rightarrow> bytes option"
  json_Unmarshal :: "bytes \<Rightarrow> Snapshot option"
  db_Get_fails :: "bytes \<Rightarrow> bool"
  db_Put_fails :: "bytes \<Rightarrow> bytes \<Rightarrow> bool"

type_synonym 'a engine = "(Clique, clique_error, 'a) stm"

definition checkpointInterval :: u64 where "checkpointInterval = 1024"
definition DefaultCliqueEpoch :: u64 where "DefaultCliqueEpoch = 3000"

definition Clique_New :: "CliqueConfig \<Rightarrow> (bytes, bytes) gomap \<Rightarrow> Clique" where
  "Clique_New cfg d =
     \<lparr>config = (if Epoch cfg = 0 then cfg\<lparr>Epoch := DefaultCliqueEpoch\<rparr> else cfg), db = d,
      recents = [], signatures = [], proposals = [], c_signer = 0\<rparr>"

definition need :: "'a option \<Rightarrow> clique_error + 'a" where
  "need x = (case x of None \<Rightarrow> Inl Panic | Some y \<Rightarrow> Inr y)"

text \<open>Run an operation on the signature cache of the engine.\<close>

definition with_signatures :: "(sigcache, clique_error, 'a) stm \<Rightarrow> 'a engine" where
  "with_signatures m c = (case m (signatures c) of (r, sc) \<Rightarrow> (r, c\<lparr>signatures := sc\<rparr>))"

definition Clique_Author :: "engine_env \<Rightarrow> Header \<Rightarrow> address engine" where
  "Clique_Author env header = with_signatures (ecrecover (ops env) header)"

section \<open>Standalone checks\<close>

definition verifyForkHashes :: "engine_env \<Rightarrow> ChainConfig \<Rightarrow> Header \<Rightarrow> clique_error + unit" where
  "verifyForkHashes env cfg header =
     (if EIP150Block cfg \<noteq> None \<and> EIP150Block cfg = hNumber header
         \<and> EIP150Hash cfg \<noteq> 0 \<and> EIP150Hash cfg \<noteq> Header_Hash (keccak (ops env)) header
      then Inl errForkHash else Inr ())"

definition verifyHeader :: "engine_env \<Rightarrow> ChainReader \<Rightarrow> CliqueConfig \<Rightarrow> Header \<Rightarrow> clique_error + unit" where
  "verifyHeader env chain cfg header =
     (case hNumber header of
        None \<Rightarrow> Inl errUnknownBlock
      | Some n \<Rightarrow>
          if Epoch cfg = 0 then Inl Panic
          else let number = big_Uint64 n; checkpoint = (number mod Epoch cfg = 0) in
          if checkpoint \<and> length (Extra header) > extraVanity then Inl errInvalidCheckpointBeneficiary
          else if Nonce header \<noteq> nonceAuthVote \<and> Nonce header \<noteq> nonceDropVote then Inl errInvalidVote
          else if checkpoint \<and> Nonce header \<noteq> nonceDropVote then Inl errInvalidCheckpointVote
          else if checkpoint \<and> length (hSigners header) < 1 then Inl errMissingSigners
          else if checkpoint \<and> length (hVoters header) < 1 then Inl errMissingVoters
          else if length (hSigner header) < signatureLength then Inl errMissingSignature
          else if MixDigest header \<noteq> 0 then Inl errInvalidMixDigest
          else if UncleHash header \<noteq> CalcUncleHash (keccak (ops env)) [] then Inl errInvalidUncleHash
          else if number > 0 \<and> (case Difficulty header of None \<Rightarrow> True | Some d \<Rightarrow> big_Uint64 d = 0)
          then Inl errInvalidDifficulty
          else verifyForkHashes env (chain_Config chain) header)"

section \<open>Snapshots\<close>

text \<open>\<open>append([]byte("clique-"), hash[:]...)\<close>.\<close>

definition snapshot_key :: "hash \<Rightarrow> bytes" where
  "snapshot_key h = [0x63, 0x6C, 0x69, 0x71, 0x75, 0x65, 0x2D] @ word_bytes h"

definition loadSnapshot :: "engine_env \<Rightarrow> hash \<Rightarrow> Clique \<Rightarrow> clique_error + Snapshot" where
  "loadSnapshot env h c =
     (case (if db_Get_fails env (snapshot_key h) then None else gget (db c) (snapshot_key h)) of
        None \<Rightarrow> Inl errDatabase
      | Some blob \<Rightarrow> (case json_Unmarshal env blob of None \<Rightarrow> Inl errJson | Some snap \<Rightarrow> Inr snap))"

definition Snapshot_store :: "engine_env \<Rightarrow> Snapshot \<Rightarrow> unit engine" where
  "Snapshot_store env s c =
     (case json_Marshal env s of
        None \<Rightarrow> (Inl errJson, c)
      | Some blob \<Rightarrow>
          if db_Put_fails env (snapshot_key (sHash s)) blob then (Inl errDatabase, c)
          else (Inr (), c\<lparr>db := gput (db c) (snapshot_key (sHash s)) blob\<rparr>))"

text \<open>The header to gather next: the last explicit parent, or one from the chain.\<close>

definition snapshot_ancestor ::
    "engine_env \<Rightarrow> ChainReader \<Rightarrow> u64 \<Rightarrow> hash \<Rightarrow> Header list \<Rightarrow> clique_error + Header \<times> Header list" where
  "snapshot_ancestor env chain number h parents =
     (if parents \<noteq> [] then
        if Header_Hash (keccak (ops env)) (last parents) \<noteq> h then Inl ErrUnknownAncestor
        else bindE (header_number (last parents)) (\<lambda>n.
               if n \<noteq> number then Inl ErrUnknownAncestor else Inr (last parents, butlast parents))
      else (case GetHeader chain h number of
              None \<Rightarrow> Inl ErrUnknownAncestor | Some header \<Rightarrow> Inr (header, parents)))"

definition snapshot_genesis :: "(Header \<Rightarrow> unit engine) \<Rightarrow> engine_env \<Rightarrow> ChainReader \<Rightarrow> Snapshot engine" where
  "snapshot_genesis vg env chain =
     bindS (liftS (need (GetHeaderByNumber chain 0))) (\<lambda>genesis.
     bindS (vg genesis) (\<lambda>_.
       let s = newGenesisSnapshot 0 (Header_Hash (keccak (ops env)) genesis) (hSigners genesis) (hVoters genesis)
       in bindS (Snapshot_store env s) (\<lambda>_. returnS s)))"

text \<open>The search backwards: \<open>vg\<close> verifies the genesis header, \<open>headers\<close> are those gathered so far,
  newest first.\<close>

lemma unat_pred: "(n :: u64) \<noteq> 0 \<Longrightarrow> unat (n - 1) = unat n - 1"
  by (simp add: unat_sub word_le_nat_alt unat_gt_0 Suc_le_eq)

function snapshot_search ::
    "(Header \<Rightarrow> unit engine) \<Rightarrow> engine_env \<Rightarrow> ChainReader \<Rightarrow> u64 \<Rightarrow> hash \<Rightarrow> Header list \<Rightarrow> Header list
     \<Rightarrow> Clique \<Rightarrow> (clique_error + Snapshot \<times> Header list) \<times> Clique" where
  "snapshot_search vg env chain number h parents headers c =
     (case gget (recents c) h of
        Some s \<Rightarrow> (Inr (s, headers), c)
      | None \<Rightarrow>
        (case (if number mod checkpointInterval = 0 then case loadSnapshot env h c of Inr s \<Rightarrow> Some s | Inl _ \<Rightarrow> None else None) of
           Some s \<Rightarrow> (Inr (s, headers), c)
         | None \<Rightarrow>
             if number = 0 then bindS (snapshot_genesis vg env chain) (\<lambda>s. returnS (s, headers)) c
             else (case snapshot_ancestor env chain number h parents of
                     Inl e \<Rightarrow> (Inl e, c)
                   | Inr (header, ps) \<Rightarrow>
                       snapshot_search vg env chain (number - 1) (ParentHash header) ps (headers @ [header]) c)))"
  by pat_completeness auto
termination
  by (relation "measure (\<lambda>(vg, env, chain, number, h, ps, hs, c). unat number)")
     (auto simp: unat_pred unat_gt_0)

declare snapshot_search.simps [simp del]

definition Clique_snapshot ::
    "(Header \<Rightarrow> unit engine) \<Rightarrow> engine_env \<Rightarrow> ChainReader \<Rightarrow> u64 \<Rightarrow> hash \<Rightarrow> Header list \<Rightarrow> Snapshot engine" where
  "Clique_snapshot vg env chain number h parents =
     bindS (snapshot_search vg env chain number h parents []) (\<lambda>(s, headers) c.
     bindS (with_signatures (Snapshot_apply (ops env) (config c) (rev headers) s)) (\<lambda>snap c.
       let c1 = c\<lparr>recents := evict_recents env (gput (recents c) (sHash snap) snap)\<rparr> in
       if sNumber snap mod checkpointInterval = 0 \<and> length headers > 0
       then bindS (Snapshot_store env snap) (\<lambda>_. returnS snap) c1
       else (Inr snap, c1)) c)"

section \<open>Checks against the snapshot\<close>

text \<open>\<open>for i, x := range xs { if x != ys[i] ... }\<close>: indexing past the end panics.\<close>

fun check_members :: "clique_error \<Rightarrow> address list \<Rightarrow> address list \<Rightarrow> clique_error + unit" where
  "check_members e [] ys = Inr ()"
| "check_members e (x # xs) [] = Inl Panic"
| "check_members e (x # xs) (y # ys) = (if x \<noteq> y then Inl e else check_members e xs ys)"

definition verifyCascadingFields ::
    "(Header \<Rightarrow> unit engine) \<Rightarrow> engine_env \<Rightarrow> ChainReader \<Rightarrow> Header \<Rightarrow> Header list \<Rightarrow> unit engine" where
  "verifyCascadingFields vg env chain header parents c =
     (case need (Time header) of Inl e \<Rightarrow> (Inl e, c) | Inr time \<Rightarrow>
      if time > now env then (Inl ErrFutureBlock, c)
      else case header_number header of Inl e \<Rightarrow> (Inl e, c) | Inr number \<Rightarrow>
      if number = 0 then (Inr (), c)
      else case (if parents \<noteq> [] then Some (last parents) else GetHeader chain (ParentHash header) (number - 1)) of
             None \<Rightarrow> (Inl ErrUnknownAncestor, c)
           | Some parent \<Rightarrow>
               bindS (liftS (header_number parent)) (\<lambda>pn.
                 if pn \<noteq> number - 1 \<or> Header_Hash (keccak (ops env)) parent \<noteq> ParentHash header
                 then failS ErrUnknownAncestor
                 else bindS (liftS (need (Time parent))) (\<lambda>ptime.
                   if big_Uint64 ptime + Period (config c) > big_Uint64 time then failS ErrInvalidTimestamp
                   else bindS (Clique_snapshot vg env chain (number - 1) (ParentHash header) parents) (\<lambda>snap c.
                     if Epoch (config c) = 0 then (Inl Panic, c)
                     else if number mod Epoch (config c) = 0 then
                       (bindE (check_members errInvalidCheckpointSigners (snap_signers snap) (hSigners header)) (\<lambda>_.
                          check_members errInvalidCheckpointVoters (snap_voters snap) (hVoters header)), c)
                     else (Inr (), c)))) c)"

definition verifySeal ::
    "(Header \<Rightarrow> unit engine) \<Rightarrow> engine_env \<Rightarrow> ChainReader \<Rightarrow> Header \<Rightarrow> Header list \<Rightarrow> unit engine" where
  "verifySeal vg env chain header parents =
     bindS (liftS (header_number header)) (\<lambda>number.
       if number = 0 then returnS ()
       else bindS (Clique_snapshot vg env chain (number - 1) (ParentHash header) parents) (\<lambda>snap.
            bindS (with_signatures (ecrecover (ops env) header)) (\<lambda>signer.
              case gget (Signers snap) signer of
                None \<Rightarrow> failS (errNotAuthorized signer)
              | Some lastBlockSigned \<Rightarrow>
                  if lastBlockSigned > 0 \<and> number < nextSignableBlockNumber snap lastBlockSigned
                  then failS (errSignedRecently signer number lastBlockSigned (nextSignableBlockNumber snap lastBlockSigned))
                  else bindS (liftS (need (Difficulty header))) (\<lambda>d.
                    if big_Uint64 d \<noteq> CalcDifficulty (Signers snap) signer then failS errInvalidDifficulty
                    else returnS ()))))"

primrec VerifyHeader :: "nat \<Rightarrow> engine_env \<Rightarrow> ChainReader \<Rightarrow> Header \<Rightarrow> unit engine" where
  "VerifyHeader 0 env chain header = failS Unresolved"
| "VerifyHeader (Suc fuel) env chain header =
     bindS (\<lambda>c. (verifyHeader env chain (config c) header, c)) (\<lambda>_.
     bindS (verifyCascadingFields (VerifyHeader fuel env chain) env chain header []) (\<lambda>_.
       verifySeal (VerifyHeader fuel env chain) env chain header []))"

text \<open>The verification a snapshot request needs (the genesis header) does not ask for a snapshot.\<close>

definition vg :: "engine_env \<Rightarrow> ChainReader \<Rightarrow> Header \<Rightarrow> unit engine" where
  "vg env chain = VerifyHeader 1 env chain"

text \<open>\<open>VerifyHeaders\<close> without an abort: one result per header, in order, later headers being checked
  whatever became of the earlier ones.\<close>

definition verify_one :: "engine_env \<Rightarrow> ChainReader \<Rightarrow> Header \<Rightarrow> Header list \<Rightarrow> unit engine" where
  "verify_one env chain header parents =
     bindS (\<lambda>c. (verifyHeader env chain (config c) header, c)) (\<lambda>_.
     bindS (verifyCascadingFields (vg env chain) env chain header parents) (\<lambda>_.
       verifySeal (vg env chain) env chain header parents))"

fun verifyHeaders ::
    "engine_env \<Rightarrow> ChainReader \<Rightarrow> Header list \<Rightarrow> Header list \<Rightarrow> Clique \<Rightarrow> (clique_error + unit) list \<times> Clique" where
  "verifyHeaders env chain parents [] c = ([], c)"
| "verifyHeaders env chain parents (h # hs) c =
     (let (r, c1) = verify_one env chain h parents c;
          (rs, c2) = verifyHeaders env chain (parents @ [h]) hs c1
      in (r # rs, c2))"

definition VerifyHeaders ::
    "engine_env \<Rightarrow> ChainReader \<Rightarrow> Header list \<Rightarrow> Clique \<Rightarrow> (clique_error + unit) list \<times> Clique" where
  "VerifyHeaders env chain headers c = verifyHeaders env chain [] headers c"

section \<open>Preparing and sealing\<close>

text \<open>\<open>pick n\<close> is the choice of \<open>rand.Intn(n)\<close>.\<close>

definition prepare_vote :: "(nat \<Rightarrow> nat) \<Rightarrow> Clique \<Rightarrow> Snapshot \<Rightarrow> Header \<Rightarrow> Header" where
  "prepare_vote pick c snap header =
     (let addresses = map fst (filter (\<lambda>(a, p). validVote snap a (p_Authorize p) (p_VoterElection p)) (proposals c)) in
      if length addresses > 0 then
        let candidate = addresses ! pick (length addresses) in
        (case gget (proposals c) candidate of
           None \<Rightarrow> header
         | Some p \<Rightarrow> header\<lparr>Extra := ExtraAppendVote (Extra header) candidate (p_VoterElection p),
                           Nonce := (if p_Authorize p then nonceAuthVote else nonceDropVote)\<rparr>)
      else header)"

definition Clique_Prepare :: "(nat \<Rightarrow> nat) \<Rightarrow> engine_env \<Rightarrow> ChainReader \<Rightarrow> Header \<Rightarrow> Header engine" where
  "Clique_Prepare pick env chain header0 =
     bindS (liftS (header_number header0)) (\<lambda>number.
     bindS (Clique_snapshot (vg env chain) env chain (number - 1) (ParentHash header0) []) (\<lambda>snap c.
       if c_signer c \<noteq> 0 \<and> gget (Signers snap) (c_signer c) = None then (Inl (errNotAuthorized (c_signer c)), c)
       else let diff = CalcDifficulty (Signers snap) (c_signer c) in
       if c_signer c \<noteq> 0 \<and> diff = 0 then (Inl (errTooRecently (c_signer c)), c)
       else if Epoch (config c) = 0 then (Inl Panic, c)
       else let h1 = header0\<lparr>Nonce := 0, Difficulty := Some (uint diff), Extra := ExtraEnsureVanity (Extra header0)\<rparr>;
                h2 = (if number mod Epoch (config c) \<noteq> 0 then prepare_vote pick c snap h1
                      else h1\<lparr>hSigners := snap_signers snap, hVoters := snap_voters snap\<rparr>);
                h3 = h2\<lparr>MixDigest := 0\<rparr>
            in case GetHeader chain (ParentHash header0) (number - 1) of
                 None \<Rightarrow> (Inl ErrUnknownAncestor, c)
               | Some parent \<Rightarrow>
                   bindS (liftS (need (Time parent))) (\<lambda>ptime.
                     let t = ptime + uint (Period (config c)) in
                     returnS (h3\<lparr>Time := Some (if big_Int64 t < now env then now env else t)\<rparr>)) c))"

definition Clique_Authorize :: "address \<Rightarrow> unit engine" where
  "Clique_Authorize signer c = (Inr (), c\<lparr>c_signer := signer\<rparr>)"

text \<open>\<open>Seal\<close> on the header of a block with \<open>txs\<close> transactions.  \<open>stop\<close> says whether the stop channel
  fires before the delay is over; a nil block is \<open>None\<close>.\<close>

definition wiggleTime :: int where "wiggleTime = 200 * 1000000"

definition seal_delay :: "Header \<Rightarrow> u64 \<Rightarrow> int" where
  "seal_delay header diff =
     (let n = of_nat (length (hSigners header)) in if diff < n then uint (n - diff) * wiggleTime else 0)"

definition Clique_Seal ::
    "(hash \<Rightarrow> bytes option) \<Rightarrow> bool \<Rightarrow> engine_env \<Rightarrow> ChainReader \<Rightarrow> nat \<Rightarrow> Header \<Rightarrow> Header option engine" where
  "Clique_Seal signFn stop env chain txs header0 =
     (let header = CopyHeader header0 in
      bindS (liftS (header_number header)) (\<lambda>number c.
        if number = 0 then (Inl errUnknownBlock, c)
        else if Period (config c) = 0 \<and> txs = 0 then (Inl errWaitTransactions, c)
        else let signer = c_signer c in
        bindS (Clique_snapshot (vg env chain) env chain (number - 1) (ParentHash header) []) (\<lambda>snap.
          case gget (Signers snap) signer of
            None \<Rightarrow> failS (errNotAuthorized signer)
          | Some lastBlockSigned \<Rightarrow>
              if lastBlockSigned > 0 \<and> number < nextSignableBlockNumber snap lastBlockSigned then returnS None
              else bindS (liftS (need (Difficulty header))) (\<lambda>d.
                   bindS (liftS (need (Time header))) (\<lambda>time.
                     let until = big_Int64 time * 1000000000 + seal_delay header (big_Uint64 d) in
                     if now env * 1000000000 < until \<and> stop then returnS None
                     else case signFn (sigHash (keccak (ops env)) header) of
                            None \<Rightarrow> failS errSign
                          | Some sig \<Rightarrow> returnS (Some (header\<lparr>hSigner := sig\<rparr>))))) c))"

section \<open>The RPC interface\<close>

text \<open>The header a block number stands for: the current one for a nil or the ``latest'' number.\<close>

definition api_header :: "ChainReader \<Rightarrow> int option \<Rightarrow> clique_error + Header" where
  "api_header chain number =
     (case (if number = None \<or> number = Some (-1) then CurrentHeader chain
            else GetHeaderByNumber chain (word_of_int (the number))) of
        None \<Rightarrow> Inl errUnknownBlock | Some h \<Rightarrow> Inr h)"

definition api_snapshot :: "engine_env \<Rightarrow> ChainReader \<Rightarrow> Header \<Rightarrow> Snapshot engine" where
  "api_snapshot env chain header =
     bindS (liftS (header_number header)) (\<lambda>n.
       Clique_snapshot (vg env chain) env chain n (Header_Hash (keccak (ops env)) header) [])"

definition GetSnapshot :: "engine_env \<Rightarrow> ChainReader \<Rightarrow> int option \<Rightarrow> Snapshot engine" where
  "GetSnapshot env chain number = bindS (liftS (api_header chain number)) (api_snapshot env chain)"

definition GetSnapshotAtHash :: "engine_env \<Rightarrow> ChainReader \<Rightarrow> hash \<Rightarrow> Snapshot engine" where
  "GetSnapshotAtHash env chain h =
     (case GetHeaderByHash chain h of None \<Rightarrow> failS errUnknownBlock | Some header \<Rightarrow> api_snapshot env chain header)"

definition GetSigners :: "engine_env \<Rightarrow> ChainReader \<Rightarrow> int option \<Rightarrow> address list engine" where
  "GetSigners env chain number = bindS (GetSnapshot env chain number) (\<lambda>s. returnS (snap_signers s))"

definition GetVoters :: "engine_env \<Rightarrow> ChainReader \<Rightarrow> int option \<Rightarrow> address list engine" where
  "GetVoters env chain number = bindS (GetSnapshot env chain number) (\<lambda>s. returnS (snap_voters s))"

definition GetSignersAtHash :: "engine_env \<Rightarrow> ChainReader \<Rightarrow> hash \<Rightarrow> address list engine" where
  "GetSignersAtHash env chain h = bindS (GetSnapshotAtHash env chain h) (\<lambda>s. returnS (snap_signers s))"

definition api_Proposals :: "Clique \<Rightarrow> (address, propose) gomap" where
  "api_Proposals c = gcopy (proposals c)"

definition api_Propose :: "address \<Rightarrow> bool \<Rightarrow> Clique \<Rightarrow> Clique" where
  "api_Propose a auth c = c\<lparr>proposals := gput (proposals c) a \<lparr>p_Authorize = auth, p_VoterElection = False\<rparr>\<rparr>"

definition api_ProposeVoter :: "address \<Rightarrow> bool \<Rightarrow> Clique \<Rightarrow> Clique" where
  "api_ProposeVoter a auth c = c\<lparr>proposals := gput (proposals c) a \<lparr>p_Authorize = auth, p_VoterElection = True\<rparr>\<rparr>"

definition api_Discard :: "address \<Rightarrow> Clique \<Rightarrow> Clique" where
  "api_Discard a c = c\<lparr>proposals := gdel (proposals c) a\<rparr>"

end
