(* ===== verification/Clique_Reach.thy ===== *)
theory Clique_Reach
  imports Clique_Difficulty
begin

text \<open>
  The snapshots a node can hold: those made for a genesis block and those \<open>apply\<close> returns.  What holds of
  all of them follows by rule induction from the lemmas on one header.
\<close>

section \<open>The blocks last signed\<close>

definition lasts_ok :: "u64 \<Rightarrow> (address, u64) gomap \<Rightarrow> bool" where
  "lasts_ok number m \<longleftrightarrow> lasts_distinct m \<and> (\<forall>(a, n) \<in> set m. n \<le> number)"

lemma lasts_distinct_gget:
  assumes "gmap_ok m"
  shows "lasts_distinct m \<longleftrightarrow> (\<forall>a b n. gget m a = Some n \<longrightarrow> gget m b = Some n \<longrightarrow> n \<noteq> 0 \<longrightarrow> a = b)"
proof -
  have "distinct m" using assms by (simp add: gmap_ok_def distinct_map)
  then have "lasts_distinct m \<longleftrightarrow> inj_on snd {x \<in> set m. snd x \<noteq> 0}"
    by (simp add: lasts_distinct_def filter_map comp_def distinct_map)
  also have "\<dots> \<longleftrightarrow> (\<forall>a b n. gget m a = Some n \<longrightarrow> gget m b = Some n \<longrightarrow> n \<noteq> 0 \<longrightarrow> a = b)"
    by (auto simp: inj_on_def gmap_ok_gget [OF assms])
  finally show ?thesis .
qed

lemma lasts_ok_gget:
  assumes "gmap_ok m"
  shows "lasts_ok k m \<longleftrightarrow> (\<forall>a b n. gget m a = Some n \<longrightarrow> gget m b = Some n \<longrightarrow> n \<noteq> 0 \<longrightarrow> a = b)
    \<and> (\<forall>a n. gget m a = Some n \<longrightarrow> n \<le> k)"
  by (auto simp: lasts_ok_def lasts_distinct_gget [OF assms] gmap_ok_gget [OF assms])

lemma lasts_okD:
  assumes "gmap_ok m" "lasts_ok k m"
  shows "gget m a = Some n \<Longrightarrow> n \<le> k" "gget m a = Some n \<Longrightarrow> gget m b = Some n \<Longrightarrow> n \<noteq> 0 \<Longrightarrow> a = b"
  using assms by (auto simp: lasts_ok_gget)

lemma lasts_ok_sign:
  assumes m: "gmap_ok m" "lasts_ok k m" and n: "k < n"
  shows "lasts_ok n (gput m g n)"
  unfolding lasts_ok_gget [OF gmap_ok_gput [OF m(1)]] gget_gput
proof (intro conjI allI impI)
  fix a b v
  assume "(if a = g then Some n else gget m a) = Some v" "(if b = g then Some n else gget m b) = Some v" "v \<noteq> 0"
  then show "a = b" using lasts_okD [OF m] n by (fastforce split: if_splits)
next
  fix a v
  assume "(if a = g then Some n else gget m a) = Some v"
  then show "v \<le> n" using lasts_okD(1) [OF m] n by (fastforce split: if_splits)
qed

lemma lasts_ok_gput_0:
  assumes m: "gmap_ok m" "lasts_ok k m"
  shows "lasts_ok k (gput m c 0)"
  unfolding lasts_ok_gget [OF gmap_ok_gput [OF m(1)]] gget_gput
  using lasts_okD [OF m] by (auto split: if_splits)

lemma lasts_ok_gdel:
  assumes m: "gmap_ok m" "lasts_ok k m"
  shows "lasts_ok k (gdel m c)"
  unfolding lasts_ok_gget [OF gmap_ok_gdel [OF m(1)]] gget_gdel
  using lasts_okD [OF m] by (auto split: if_splits)

lemma castAndPass_Signers:
  "Signers (castAndPass g n c b e s) \<in> {Signers s, gput (Signers s) c 0, gdel (Signers s) c}"
  by (simp add: castAndPass_with_vote passVote_fields split: option.split)

lemma apply_signed_Signers:
  assumes "apply_signed h n g s = Inr s'"
  obtains c where "Signers s' \<in> {gput (Signers s) g n, gput (gput (Signers s) g n) c 0, gdel (gput (Signers s) g n) c}"
  using assms
proof (cases rule: apply_signed_cases)
  case (vote c b e)
  with castAndPass_Signers [of g n c b e "discardVote g c (s\<lparr>Signers := gput (Signers s) g n\<rparr>)"]
  show ?thesis by (intro that [of c]) simp
qed (use that in simp)

lemma lasts_ok_apply_signed:
  assumes "gmap_ok (Signers s)" "lasts_ok k (Signers s)" "k < n" "apply_signed h n g s = Inr s'"
  shows "lasts_ok n (Signers s')"
proof -
  note sign = lasts_ok_sign [OF assms(1-3), of g]
  obtain c where "Signers s' \<in> {gput (Signers s) g n, gput (gput (Signers s) g n) c 0, gdel (gput (Signers s) g n) c}"
    using assms(4) by (rule apply_signed_Signers)
  with sign lasts_ok_gput_0 [OF _ sign, of c] lasts_ok_gdel [OF _ sign, of c] assms(1) show ?thesis by auto
qed

lemma lasts_ok_apply_header:
  assumes ok: "snapshot_ok s" "lasts_ok k (Signers s)" "k < n" and "header_number h = Inr n"
    and ap: "apply_header ops cfg h s cache = (Inr s', cache')"
  shows "lasts_ok n (Signers s')"
  using ap
proof (rule apply_header_signed)
  fix n' g
  assume n': "header_number h = Inr n'"
    and r: "apply_signed h n' g (if n' mod Epoch cfg = 0 then s\<lparr>Votes := [], Tallies := []\<rparr> else s) = Inr s'"
  let ?s = "if n' mod Epoch cfg = 0 then s\<lparr>Votes := [], Tallies := []\<rparr> else s"
  have eq: "Signers ?s = Signers s" by simp
  have "n' = n" using n' assms(4) by simp
  moreover have "gmap_ok (Signers ?s)" "lasts_ok k (Signers ?s)"
    unfolding eq using ok by (simp_all add: snapshot_ok_def)
  ultimately show ?thesis using lasts_ok_apply_signed [OF _ _ ok(3)] r by blast
qed

text \<open>A batch of headers numbered one after the other.\<close>

fun numbered :: "u64 \<Rightarrow> Header list \<Rightarrow> bool" where
  "numbered k [] \<longleftrightarrow> True"
| "numbered k (h # hs) \<longleftrightarrow> header_number h = Inr (k + 1) \<and> numbered (k + 1) hs"

lemma check_contiguous_numbered:
  "check_contiguous (h # hs) = Inr () \<Longrightarrow> header_number h = Inr (k + 1) \<Longrightarrow> numbered k (h # hs)"
proof (induction hs arbitrary: h k)
  case (Cons h2 hs)
  then have "header_number h2 = Inr (k + 1 + 1)" "check_contiguous (h2 # hs) = Inr ()"
    by (cases "header_number h2"; auto split: if_splits)+
  with Cons.IH [of h2 "k + 1"] Cons.prems(2) show ?case by simp
qed simp

lemma of_nat_u64_step: "unat (k :: u64) + Suc n < 2 ^ 64 \<Longrightarrow> k < k + 1 \<and> unat (k + 1) = unat k + 1"
  by (simp add: word_less_nat_alt unat_word_ariths)

lemma lasts_ok_apply_headers:
  assumes "snapshot_ok s" "lasts_ok k (Signers s)" "numbered k hs" "unat k + length hs < 2 ^ 64"
    and "apply_headers ops cfg hs s cache = (Inr s', cache')"
  shows "lasts_ok (k + of_nat (length hs)) (Signers s')"
  using assms
proof (induction hs arbitrary: s k cache)
  case Nil
  then show ?case by (simp add: apply_headers_def returnS_def)
next
  case (Cons h hs)
  from Cons.prems(5) obtain s1 cache1 where s1: "apply_header ops cfg h s cache = (Inr s1, cache1)"
    and rest: "apply_headers ops cfg hs s1 cache1 = (Inr s', cache')"
    by (auto simp: apply_headers_def bindS_Inr)
  have k1: "k < k + 1" "unat (k + 1) = unat k + 1" using Cons.prems(4) of_nat_u64_step [of k "length hs"] by auto
  have "lasts_ok (k + 1) (Signers s1)"
    using Cons.prems(1-3) k1(1) s1 by (intro lasts_ok_apply_header [OF _ _ _ _ s1]) simp_all
  from Cons.IH [OF snapshot_ok_apply_header [OF Cons.prems(1) s1] this _ _ rest] Cons.prems(3,4) k1
  show ?case by (simp add: add.assoc)
qed

section \<open>Fields \<open>apply\<close> leaves alone\<close>

lemma sNumber_uncast [simp]: "sNumber (snd (uncast a b s)) = sNumber s"
  by (rule uncast_fields)

lemma sNumber_castAndPass [simp]: "sNumber (castAndPass g n c b e s) = sNumber s"
proof -
  have "sNumber (with_vote g n c b e s) = sNumber s" by (simp add: with_vote_def cast_vote_def Let_def split: option.split)
  then show ?thesis
    by (simp add: castAndPass_with_vote passVote_def Let_def discardAbout_eq discardCast_eq split: option.split)
qed

lemma sNumber_apply_signed: "apply_signed h n g s = Inr s' \<Longrightarrow> sNumber s' = sNumber s"
  by (erule apply_signed_cases) (simp_all add: discardVote_def split: option.split prod.split)

lemma sNumber_apply_headers: "apply_headers ops cfg hs s cache = (Inr s', cache') \<Longrightarrow> sNumber s' = sNumber s"
proof (induction hs arbitrary: s cache)
  case (Cons h hs)
  then obtain s1 cache1 where s1: "apply_header ops cfg h s cache = (Inr s1, cache1)"
    "apply_headers ops cfg hs s1 cache1 = (Inr s', cache')" by (auto simp: apply_headers_def bindS_Inr)
  have "sNumber s1 = sNumber s" using s1(1)
    by (rule apply_header_signed) (auto dest: sNumber_apply_signed)
  with Cons.IH [OF s1(2)] show ?case by simp
qed (simp add: apply_headers_def returnS_def)

section \<open>Reachable snapshots\<close>

text \<open>From a given snapshot, with batches of headers that satisfy \<open>admit\<close>; a node starts from the snapshot of a
  genesis block, whatever lists of signers and voters that has.\<close>

inductive reachable_from :: "crypto \<Rightarrow> CliqueConfig \<Rightarrow> (Header \<Rightarrow> bool) \<Rightarrow> Snapshot \<Rightarrow> Snapshot \<Rightarrow> bool"
  for ops cfg admit s0 where
  start: "reachable_from ops cfg admit s0 s0"
| replay: "reachable_from ops cfg admit s0 s \<Longrightarrow> list_all admit hs \<Longrightarrow> unat (sNumber s) + length hs < 2 ^ 64 \<Longrightarrow>
    Snapshot_apply ops cfg hs s cache = (Inr s', cache') \<Longrightarrow> reachable_from ops cfg admit s0 s'"

definition reachable :: "crypto \<Rightarrow> CliqueConfig \<Rightarrow> (Header \<Rightarrow> bool) \<Rightarrow> Snapshot \<Rightarrow> bool" where
  "reachable ops cfg admit s \<longleftrightarrow>
     (\<exists>number hash signers voters. reachable_from ops cfg admit (newGenesisSnapshot number hash signers voters) s)"

lemma Snapshot_apply_Inr:
  assumes "Snapshot_apply ops cfg hs s cache = (Inr s', cache')" "hs \<noteq> []"
  obtains snap where "numbered (sNumber s) hs" "apply_headers ops cfg hs (Snapshot_copy s) cache = (Inr snap, cache')"
    "s' = snap\<lparr>sNumber := sNumber snap + of_nat (length hs), sHash := Header_Hash (keccak ops) (last hs)\<rparr>"
proof -
  obtain h hs' where hs: "hs = h # hs'" using assms(2) by (cases hs) auto
  from assms obtain snap where c: "check_contiguous hs = Inr ()" "header_number h = Inr (sNumber s + 1)"
    and a: "apply_headers ops cfg hs (Snapshot_copy s) cache = (Inr snap, cache')"
    and e: "s' = snap\<lparr>sNumber := sNumber snap + of_nat (length hs), sHash := Header_Hash (keccak ops) (last hs)\<rparr>"
    unfolding Snapshot_apply_def hs
    by (cases "check_contiguous (h # hs')"; cases "header_number h")
       (auto simp: bindS_Inr failS_def returnS_def split: if_split_asm)
  have "numbered (sNumber s) hs" using check_contiguous_numbered c hs by simp
  then show ?thesis using a e by (rule that)
qed

lemma gkeys_foldl_gput: "set (gkeys (foldl (\<lambda>m a. gput m a v) m as)) = set (gkeys m) \<union> set as"
  by (induction as arbitrary: m) (auto simp: gomap_simps)

lemma gmap_ok_foldl_gput: "gmap_ok m \<Longrightarrow> gmap_ok (foldl (\<lambda>m a. gput m a v) m as)"
  by (induction as arbitrary: m) auto

lemma gget_foldl_gput: "gget (foldl (\<lambda>m a. gput m a v) m as) k = (if k \<in> set as then Some v else gget m k)"
  by (induction as arbitrary: m) (auto simp: gomap_simps)

lemma gkeys_Nil [simp]: "gkeys [] = []"
  by (simp add: gkeys_def)

lemma genesis_ok:
  "snapshot_ok (newGenesisSnapshot number hash signers voters)"
  "lasts_ok number (Signers (newGenesisSnapshot number hash signers voters))"
  "tally_ok (newGenesisSnapshot number hash signers voters)"
  "members_ok (set voters - set signers) (signers = []) (newGenesisSnapshot number hash signers voters)"
  by (simp_all add: newGenesisSnapshot_def snapshot_ok_def votes_ok_def gmap_ok_foldl_gput lasts_ok_gget gget_foldl_gput
      tally_ok_def tally_ok_at_def votes_on_def members_ok_def gkeys_foldl_gput)

lemma snapshot_ok_stamp [simp]: "snapshot_ok (s\<lparr>sNumber := n, sHash := x\<rparr>) = snapshot_ok s"
  by (simp add: snapshot_ok_def votes_ok_def)

lemma tally_ok_stamp [simp]: "tally_ok (s\<lparr>sNumber := n, sHash := x\<rparr>) = tally_ok s"
  unfolding tally_ok_def tally_ok_at_def votes_on_def by (simp cong: option.case_cong)

lemma list_all_True [simp]: "list_all (\<lambda>_. True) xs"
  by (simp add: list_all_iff)

lemma members_ok_stamp [simp]: "members_ok X none (s\<lparr>sNumber := n, sHash := x\<rparr>) = members_ok X none s"
  by (simp add: members_ok_def)

lemma reachable_from_ok:
  "reachable_from ops cfg admit s0 s \<Longrightarrow> snapshot_ok s0 \<Longrightarrow> lasts_ok (sNumber s0) (Signers s0) \<Longrightarrow>
   snapshot_ok s \<and> lasts_ok (sNumber s) (Signers s) \<and> (members_ok X none s0 \<longrightarrow> members_ok X none s)"
proof (induction rule: reachable_from.induct)
  case (replay s hs cache s' cache')
  show ?case
  proof (cases "hs = []")
    case True
    with replay show ?thesis by (simp add: Snapshot_apply_def returnS_def)
  next
    case False
    from replay(4) False obtain snap where r: "numbered (sNumber s) hs"
      "apply_headers ops cfg hs s cache = (Inr snap, cache')"
      "s' = snap\<lparr>sNumber := sNumber snap + of_nat (length hs), sHash := Header_Hash (keccak ops) (last hs)\<rparr>"
      using replay.IH replay.prems by (elim Snapshot_apply_Inr) (simp_all add: Snapshot_copy_id)
    have "snapshot_ok snap"
      using wf_run.loop_inv [of s hs ops cfg cache snap cache'] r(2) replay.IH replay.prems by (simp add: apply_headers_def)
    moreover have "members_ok X none s0 \<longrightarrow> members_ok X none snap"
      using member_run.loop_inv [of X none s hs ops cfg cache snap cache'] r(2) replay.IH replay.prems by (simp add: apply_headers_def)
    moreover have "lasts_ok (sNumber s + of_nat (length hs)) (Signers snap)"
      using lasts_ok_apply_headers [OF _ _ r(1) _ r(2)] replay by blast
    ultimately show ?thesis using r(3) sNumber_apply_headers [OF r(2)] by simp
  qed
qed simp

lemma reachable_ok:
  "reachable ops cfg admit s \<Longrightarrow> snapshot_ok s \<and> lasts_ok (sNumber s) (Signers s)"
  unfolding reachable_def using reachable_from_ok genesis_ok(1,2) by (fastforce simp: newGenesisSnapshot_def)

lemma reachable_from_tally_ok:
  "reachable_from ops cfg signer_election s0 s \<Longrightarrow> snapshot_ok s0 \<Longrightarrow> lasts_ok (sNumber s0) (Signers s0) \<Longrightarrow> tally_ok s0 \<Longrightarrow> tally_ok s"
proof (induction rule: reachable_from.induct)
  case (replay s hs cache s' cache')
  have ok: "snapshot_ok s" using reachable_from_ok replay(1) replay.prems by blast
  show ?case
  proof (cases "hs = []")
    case True
    with replay show ?thesis by (simp add: Snapshot_apply_def returnS_def)
  next
    case False
    from replay(4) False obtain snap where r: "apply_headers ops cfg hs s cache = (Inr snap, cache')"
      "s' = snap\<lparr>sNumber := sNumber snap + of_nat (length hs), sHash := Header_Hash (keccak ops) (last hs)\<rparr>"
      using ok by (elim Snapshot_apply_Inr) (simp_all add: Snapshot_copy_id)
    then show ?thesis
      using tally_run.loop_inv [of s hs ops cfg cache snap cache'] replay by (simp add: apply_headers_def)
  qed
qed simp

lemma reachable_tally_ok: "reachable ops cfg signer_election s \<Longrightarrow> tally_ok s"
  unfolding reachable_def using reachable_from_tally_ok genesis_ok(1-3) by (fastforce simp: newGenesisSnapshot_def)

end
