(* ===== verification/Clique_Safety.thy ===== *)
theory Clique_Safety
  imports Clique_Reach "HOL-Library.Multiset"
begin

text \<open>
  The properties of the snapshots a clique node computes: what every reachable snapshot satisfies, when
  the membership can change, who may sign and with what difficulty.
\<close>

section \<open>Sorting\<close>

lemma sort_inner_props:
  "sort_inner x ys = (m, zs) \<Longrightarrow> mset (m # zs) = mset (x # ys) \<and> (\<forall>y \<in> set (x # ys). m \<le> y)"
proof (induction x ys arbitrary: m zs rule: sort_inner.induct)
  case (2 x y ys)
  show ?case
  proof (cases "bytes_Compare (word_bytes x) (word_bytes y) > 0")
    case True
    then have "y < x" by (simp add: bytes_Compare_word)
    moreover obtain zs' where "sort_inner y ys = (m, zs')" "zs = x # zs'"
      using 2(3) True by (auto simp: Let_def split: prod.splits)
    ultimately show ?thesis using 2(1) [OF True, of m zs'] by fastforce
  next
    case False
    then have "x \<le> y" by (simp add: bytes_Compare_word)
    moreover obtain zs' where "sort_inner x ys = (m, zs')" "zs = y # zs'"
      using 2(3) False by (auto simp: Let_def split: prod.splits)
    ultimately show ?thesis using 2(2) [OF False, of m zs'] by fastforce
  qed
qed simp

lemma sort_outer_props: "mset (sort_outer xs) = mset xs \<and> sorted (sort_outer xs)"
proof (induction xs rule: sort_outer.induct)
  case (2 x xs)
  obtain m zs where mz: "sort_inner x xs = (m, zs)" by fastforce
  note p = sort_inner_props [OF mz]
  have IH: "mset (sort_outer zs) = mset zs" "sorted (sort_outer zs)" using 2 [OF mz [symmetric]] by simp_all
  have "set (sort_outer zs) = set zs" using IH(1) by (rule mset_eq_setD)
  moreover have "set zs \<subseteq> set (x # xs)" using p mset_eq_setD [of "m # zs" "x # xs"] by auto
  ultimately have "\<forall>y \<in> set (sort_outer zs). m \<le> y" using p by auto
  with IH p mz show ?case by simp
qed simp

lemma sort_outer_sort: "sort_outer xs = sort xs"
  using sort_outer_props [of xs] by (metis properties_for_sort)

section \<open>Nobody signs twice within half a round\<close>

lemma castAndPass_gget_signer:
  assumes "a \<in> signer_set s" "a \<in> signer_set (castAndPass g n c b e s)"
  shows "gget (Signers (castAndPass g n c b e s)) a = gget (Signers s) a"
  using assms
  by (auto simp: castAndPass_with_vote passVote_fields gomap_simps split: option.splits if_splits)

lemma apply_signed_gget:
  assumes "apply_signed h n g s = Inr s'" "a \<in> signer_set s" "a \<in> signer_set s'"
  shows "gget (Signers s') a = (if a = g then Some n else gget (Signers s) a)"
  using assms(1)
proof (cases rule: apply_signed_cases)
  case no_vote
  then show ?thesis by (simp add: gomap_simps)
next
  case (vote c b e)
  let ?s = "discardVote g c (s\<lparr>Signers := gput (Signers s) g n\<rparr>)"
  have "a \<in> signer_set ?s" using assms(2) by (simp add: gomap_simps)
  with castAndPass_gget_signer [of a ?s g n c b e] vote assms(3) show ?thesis by (simp add: gomap_simps)
qed

lemma apply_header_gget:
  assumes "apply_header ops cfg h s cache = (Inr s', cache')" "header_number h = Inr n"
    "a \<in> signer_set s" "a \<in> signer_set s'"
  shows "gget (Signers s') a = (if ecrecover ops h cache = (Inr a, cache') then Some n else gget (Signers s) a)"
  using assms(1)
proof (rule apply_header_signed)
  fix n' g
  assume n': "header_number h = Inr n'" and g: "ecrecover ops h cache = (Inr g, cache')"
    and r: "apply_signed h n' g (if n' mod Epoch cfg = 0 then s\<lparr>Votes := [], Tallies := []\<rparr> else s) = Inr s'"
  have "Signers (if n' mod Epoch cfg = 0 then s\<lparr>Votes := [], Tallies := []\<rparr> else s) = Signers s" by simp
  with apply_signed_gget [OF r, of a] n' g assms(2-4) show ?thesis by auto
qed

text \<open>As long as the signer stays authorized, its entry never falls below a block it signed.\<close>

definition stays :: "crypto \<Rightarrow> CliqueConfig \<Rightarrow> address \<Rightarrow> Header list \<Rightarrow> Snapshot \<Rightarrow> sigcache \<Rightarrow> bool" where
  "stays ops cfg a hs s cache \<longleftrightarrow> (\<forall>i \<le> length hs.
     case apply_headers ops cfg (take i hs) s cache of (Inl e, _) \<Rightarrow> True | (Inr s', _) \<Rightarrow> a \<in> signer_set s')"

lemma stays_Cons:
  assumes "stays ops cfg a (h # hs) s cache" "apply_header ops cfg h s cache = (Inr s1, cache1)"
  shows "a \<in> signer_set s" "stays ops cfg a hs s1 cache1"
proof -
  show "a \<in> signer_set s"
    using assms(1) unfolding stays_def by (auto simp: apply_headers_def returnS_def dest: spec [of _ 0])
  have "apply_headers ops cfg (take (Suc i) (h # hs)) s cache = apply_headers ops cfg (take i hs) s1 cache1" for i
    using assms(2) by (simp add: apply_headers_def bindS_def)
  then show "stays ops cfg a hs s1 cache1"
    using assms(1) unfolding stays_def by (metis Suc_le_mono length_Cons)
qed

lemma stays_member: "stays ops cfg a hs s cache \<Longrightarrow> a \<in> signer_set s"
  unfolding stays_def by (auto simp: apply_headers_def returnS_def dest: spec [of _ 0])

lemma entry_kept:
  assumes "apply_headers ops cfg hs s cache = (Inr s', cache')" "numbered k hs" "unat k + length hs < 2 ^ 64"
    "stays ops cfg a hs s cache" "gget (Signers s) a = Some l" "k0 \<le> l" "k0 \<le> k"
  shows "\<exists>l'. gget (Signers s') a = Some l' \<and> k0 \<le> l'"
  using assms
proof (induction hs arbitrary: s k cache l)
  case Nil
  then show ?case by (simp add: apply_headers_def returnS_def)
next
  case (Cons h hs)
  from Cons.prems(1) obtain s1 cache1 where s1: "apply_header ops cfg h s cache = (Inr s1, cache1)"
    and rest: "apply_headers ops cfg hs s1 cache1 = (Inr s', cache')"
    by (auto simp: apply_headers_def bindS_Inr)
  note st = stays_Cons [OF Cons.prems(4) s1]
  have k1: "k < k + 1" "unat (k + 1) = unat k + 1" using Cons.prems(3) of_nat_u64_step [of k "length hs"] by auto
  have num: "header_number h = Inr (k + 1)" "numbered (k + 1) hs" using Cons.prems(2) by simp_all
  have "gget (Signers s1) a = (if ecrecover ops h cache = (Inr a, cache1) then Some (k + 1) else gget (Signers s) a)"
    using apply_header_gget [OF s1 num(1) st(1) stays_member [OF st(2)]] .
  with Cons.prems(5-7) k1(1) obtain l1 where l1: "gget (Signers s1) a = Some l1" "k0 \<le> l1"
    by (auto split: if_splits intro: order_trans less_imp_le)
  have "k0 \<le> k + 1" using Cons.prems(7) k1(1) by (auto intro: order_trans less_imp_le)
  from Cons.IH [OF rest num(2) _ st(2) l1 this] Cons.prems(3) k1(2) show ?case by simp
qed

lemma apply_header_recent:
  assumes "apply_header ops cfg h s cache = (Inr s', cache')" "header_number h = Inr n"
    "ecrecover ops h cache = (Inr g, cache')" "gget (Signers s) g = Some l" "l > 0"
  shows "l + of_nat (length (Signers s)) div 2 + 1 \<le> n"
  using assms(1)
proof (rule apply_header_signed)
  fix n' g'
  assume n': "header_number h = Inr n'" and g: "ecrecover ops h cache = (Inr g', cache')"
    and r: "apply_signed h n' g' (if n' mod Epoch cfg = 0 then s\<lparr>Votes := [], Tallies := []\<rparr> else s) = Inr s'"
  let ?s = "if n' mod Epoch cfg = 0 then s\<lparr>Votes := [], Tallies := []\<rparr> else s"
  have "Signers ?s = Signers s" by simp
  with r n' g assms(2-5) show ?thesis
    by (auto simp: apply_signed_def nextSignableBlockNumber_def Let_def linorder_not_less split: if_split_asm)
qed

lemma numbered_append:
  "numbered k (hs @ hs') \<longleftrightarrow> numbered k hs \<and> numbered (k + of_nat (length hs)) hs'"
  by (induction hs arbitrary: k) (simp_all add: add.assoc)

lemma unat_plus_u64: "unat (a :: u64) + unat b < 2 ^ 64 \<Longrightarrow> unat (a + b) = unat a + unat b"
  by (simp add: unat_word_ariths)

lemma unat_next:
  assumes "unat (l :: u64) + n div 2 + 1 < 2 ^ 64" "n < 2 ^ 64"
  shows "unat (l + of_nat n div 2 + 1) = unat l + n div 2 + 1"
proof -
  have d: "unat (of_nat n div 2 :: u64) = n div 2" using assms(2) by (simp add: unat_div)
  then have "unat (l + of_nat n div 2) = unat l + n div 2" using assms(1) by (subst unat_plus_u64) simp_all
  then show ?thesis using assms(1) by (subst unat_plus_u64) simp_all
qed

lemma half_round:
  assumes ok: "snapshot_ok s" "lasts_ok k (Signers s)" and num: "numbered k (h1 # mid @ [h2])"
    and room: "unat k + length mid + length (Signers s2) + 2 < 2 ^ 64"
    and h1: "apply_header ops cfg h1 s c = (Inr s1, c1)" "ecrecover ops h1 c = (Inr g, c1)"
    and mid: "apply_headers ops cfg mid s1 c1 = (Inr s2, c2)" "stays ops cfg g mid s1 c1"
    and h2: "apply_header ops cfg h2 s2 c2 = (Inr s3, c3)" "ecrecover ops h2 c2 = (Inr g, c3)"
  shows "length (Signers s2) div 2 \<le> length mid"
proof -
  let ?m = "length mid" and ?n = "length (Signers s2)"
  have k1: "k < k + 1" "unat (k + 1) = unat k + 1" using of_nat_u64_step [of k "?m + ?n"] room by auto
  have n1: "header_number h1 = Inr (k + 1)" and nm: "numbered (k + 1) mid"
    and n2: "header_number h2 = Inr (k + 1 + of_nat ?m + 1)" using num by (simp_all add: numbered_append)
  have g1: "g \<in> signer_set s1" using mid(2) by (rule stays_member)
  have g0: "g \<in> signer_set s"
  proof (rule apply_header_signed [OF h1(1)])
    fix n' g'
    assume "ecrecover ops h1 c = (Inr g', c1)"
      and "apply_signed h1 n' g' (if n' mod Epoch cfg = 0 then s\<lparr>Votes := [], Tallies := []\<rparr> else s) = Inr s1"
    with h1(2) show "g \<in> signer_set s" by (auto elim!: apply_signed_cases split: if_splits)
  qed
  have e1: "gget (Signers s1) g = Some (k + 1)" using apply_header_gget [OF h1(1) n1 g0 g1] h1(2) by simp
  have room1: "unat (k + 1) + ?m < 2 ^ 64" using room k1(2) by simp
  obtain l where l: "gget (Signers s2) g = Some l" "k + 1 \<le> l"
    using entry_kept [OF mid(1) nm room1 mid(2) e1 order_refl order_refl] by blast
  have ok1: "snapshot_ok s1" using snapshot_ok_apply_header [OF ok(1) h1(1)] .
  have "lasts_ok (k + 1) (Signers s1)" by (rule lasts_ok_apply_header [OF ok k1(1) n1 h1(1)])
  from lasts_ok_apply_headers [OF ok1 this nm room1 mid(1)]
  have lo: "lasts_ok (k + 1 + of_nat ?m) (Signers s2)" .
  have "snapshot_ok s2" using wf_run.loop_inv [of s1 mid ops cfg c1 s2 c2] ok1 mid(1) by (simp add: apply_headers_def)
  then have le: "l \<le> k + 1 + of_nat ?m" using lo l(1) lasts_okD(1) by (auto simp: snapshot_ok_def)
  have um: "unat (of_nat ?m :: u64) = ?m" using room by simp
  have u1: "unat (k + 1 + of_nat ?m) = unat k + 1 + ?m" using room1 k1(2) um by (subst unat_plus_u64) simp_all
  have u2: "unat (k + 1 + of_nat ?m + 1) = unat k + 1 + ?m + 1" using room u1 by (subst unat_plus_u64) simp_all
  have lb: "unat k + 1 \<le> unat l" using l(2) k1(2) by (simp add: word_le_nat_alt)
  have ub: "unat l \<le> unat k + 1 + ?m" using le u1 by (simp add: word_le_nat_alt)
  have "0 < unat l" using lb by linarith
  then have "l > 0" by (simp add: word_less_nat_alt)
  from apply_header_recent [OF h2(1) n2 h2(2) l(1) this]
  have "unat (l + of_nat ?n div 2 + 1) \<le> unat (k + 1 + of_nat ?m + 1)" by (simp only: word_le_nat_alt)
  moreover have "unat l + ?n div 2 + 1 < 2 ^ 64" using ub room by linarith
  moreover have "?n < 2 ^ 64" using room by linarith
  ultimately have "unat l + ?n div 2 + 1 \<le> unat k + 1 + ?m + 1" using u2 unat_next [of l ?n] by simp
  with lb show ?thesis by linarith
qed

lemma extra_vote_readback:
  assumes "length vanity = 32"
  shows "ExtraHasVote (ExtraAppendVote vanity c v)" "ExtraCandidate (ExtraAppendVote vanity c v) = c"
    "ExtraIsVoterElection (ExtraAppendVote vanity c v) = v" "ExtraVanity (ExtraAppendVote vanity c v) = vanity"
  using assms
  by (simp_all add: ExtraHasVote_def ExtraCandidate_def ExtraIsVoterElection_def ExtraAppendVote_def ExtraVanity_def
      extraVanity_def extraPropose_def voterElection_def signerElection_def nth_append)

section \<open>A sample network\<close>

text \<open>A hash that counts bytes, a recovery that returns the signature and a cache that keeps nothing: the
  signer of a header with an \<open>n + 1\<close>-byte signature is account \<open>n\<close>.\<close>

definition sample_ops :: crypto where
  "sample_ops = \<lparr>keccak = \<lambda>b. of_nat (length b), Ecrecover = \<lambda>_ sig. Some sig, evict_sig = \<lambda>_. []\<rparr>"

definition sample_config :: CliqueConfig where
  "sample_config = \<lparr>Period = 5, Epoch = 3000\<rparr>"

definition signed_header :: "nat \<Rightarrow> int \<Rightarrow> bytes \<Rightarrow> u64 \<Rightarrow> Header" where
  "signed_header signer number extra nonce =
     sample_header\<lparr>hSigner := replicate (Suc signer) 0, hNumber := Some number, Extra := extra, Nonce := nonce\<rparr>"

lemma ecrecover_sample:
  assumes "64 \<le> signer"
  shows "ecrecover sample_ops (signed_header signer number extra nonce) [] = (Inr (ucast (of_nat signer :: hash)), [])"
  using assms
  by (simp add: ecrecover_def sample_ops_def signed_header_def signatureLength_def Let_def address_of_hash)

lemma header_number_sample: "header_number (signed_header signer number extra nonce) = Inr (big_Uint64 number)"
  by (simp add: header_number_def signed_header_def)

lemma apply_header_sample:
  assumes "64 \<le> signer"
  shows "apply_header sample_ops sample_config (signed_header signer number extra nonce) s [] =
    (apply_signed (signed_header signer number extra nonce) (big_Uint64 number) (ucast (of_nat signer :: hash))
       (if big_Uint64 number mod 3000 = 0 then s\<lparr>Votes := [], Tallies := []\<rparr> else s), [])"
  using ecrecover_sample [OF assms]
  by (simp add: apply_header_def header_number_sample bindS_def liftS_def sample_config_def Let_def)

definition vote_header :: "nat \<Rightarrow> int \<Rightarrow> address \<Rightarrow> bool \<Rightarrow> bool \<Rightarrow> Header" where
  "vote_header signer number candidate authorize election =
     signed_header signer number (ExtraAppendVote (replicate 32 0) candidate election)
       (if authorize then nonceAuthVote else nonceDropVote)"

lemma apply_header_vote_sample:
  assumes "64 \<le> signer"
  shows "apply_header sample_ops sample_config (vote_header signer number c b e) s [] =
    (apply_signed (vote_header signer number c b e) (big_Uint64 number) (ucast (of_nat signer :: hash))
       (if big_Uint64 number mod 3000 = 0 then s\<lparr>Votes := [], Tallies := []\<rparr> else s), [])"
  unfolding vote_header_def by (rule apply_header_sample [OF assms])

lemma apply_vote_sample:
  "apply_vote (vote_header signer number c b e) n g s = Inr (castAndPass g n c b e (discardVote g c s))"
  using extra_vote_readback [of "replicate 32 0" c e]
  by (simp add: apply_vote_def vote_header_def signed_header_def nonceAuthVote_def nonceDropVote_def)

lemma apply_no_vote_sample:
  "apply_vote (signed_header signer number [] 0) n g s = Inr (castAndPass g n 0 False False (discardVote g 0 s))"
  by (simp add: apply_vote_def signed_header_def nonceAuthVote_def nonceDropVote_def ExtraHasVote_def
      extraVanity_def extraPropose_def)

lemmas sample_eval = apply_signed_def apply_vote_sample apply_no_vote_sample castAndPass_def cast_vote_def validVote_def
  discardVote_def passVote_def discardAbout_eq discardCast_eq uncast_by_def uncast_def nextSignableBlockNumber_def
  extract_Nil_code extract_Cons_code gget_def gput_def gdel_def Let_def big_Uint64_def

text \<open>Two signers, the first of them the only voter, who elects a third signer.\<close>

definition sample_genesis :: Snapshot where
  "sample_genesis = newGenesisSnapshot 0 0 [100, 101] [100]"

definition sample_elected :: Snapshot where
  "sample_elected = sample_genesis\<lparr>Signers := [(100, 1), (101, 0), (102, 0)]\<rparr>"

lemma sample_genesis_eq:
  "sample_genesis = \<lparr>sNumber = 0, sHash = 0, Signers = [(100, 0), (101, 0)], Voters = [(100, ())], Votes = [], Tallies = []\<rparr>"
  by (simp add: sample_genesis_def newGenesisSnapshot_def gput_def)

lemma sample_genesis_reachable_from: "reachable_from sample_ops sample_config admit sample_genesis sample_genesis"
  by (rule reachable_from.start)

lemma sample_genesis_reachable: "reachable sample_ops sample_config admit sample_genesis"
  unfolding reachable_def using sample_genesis_reachable_from sample_genesis_def by metis

lemma sample_election:
  "apply_header sample_ops sample_config (vote_header 100 1 102 True False) sample_genesis [] = (Inr sample_elected, [])"
proof -
  have "apply_signed (vote_header 100 1 102 True False) 1 100 sample_genesis = Inr sample_elected"
    by (simp add: sample_eval sample_genesis_eq sample_elected_def)
  then show ?thesis by (simp add: apply_header_vote_sample big_Uint64_def)
qed

lemma sample_election_signer: "ecrecover sample_ops (vote_header 100 1 102 True False) [] = (Inr 100, [])"
  by (simp add: vote_header_def ecrecover_sample)

section \<open>The properties\<close>

text \<open>
  C13. Every snapshot computed from the snapshot of a genesis block with the lists \<open>signers\<close> and \<open>voters\<close> by
  any sequence of \<open>apply\<close> calls, on any headers and with any signature cache, is well-formed, whatever
  these lists are: no voter has two votes on the same account, every recorded vote is by a current
  voter, and no two signers have the same (non-zero) last signed block, none of them later than the
  snapshot.  A voter that is no signer is one that the genesis block already named as such (the code
  does not check that the voters of the genesis block are signers), and if the genesis block has a
  signer, then so has every later snapshot.
\<close>

theorem reachable_snapshots_wellformed:
  assumes "reachable_from ops cfg admit (newGenesisSnapshot number hash signers voters) s"
  shows "distinct (map vote_key (Votes s)) \<and> v_Signer ` set (Votes s) \<subseteq> voter_set s
    \<and> lasts_ok (sNumber s) (Signers s)
    \<and> voter_set s - signer_set s \<subseteq> set voters - set signers \<and> (signers \<noteq> [] \<longrightarrow> signer_set s \<noteq> {})"
proof -
  have "lasts_ok (sNumber (newGenesisSnapshot number hash signers voters)) (Signers (newGenesisSnapshot number hash signers voters))"
    using genesis_ok(2) by (simp add: newGenesisSnapshot_def)
  note ok = reachable_from_ok [OF assms genesis_ok(1) this]
  have "members_ok (set voters - set signers) (signers = []) s" using ok genesis_ok(4) by blast
  moreover have "snapshot_ok s" "lasts_ok (sNumber s) (Signers s)" using ok by blast+
  ultimately show ?thesis unfolding snapshot_ok_def votes_ok_def members_ok_def by blast
qed

theorem reachable_snapshots_wellformed_witness:
  "\<exists>s. Snapshot_apply sample_ops sample_config [vote_header 100 1 102 True False] (newGenesisSnapshot 0 0 [100, 101] [100]) [] = (Inr s, [])
     \<and> signer_set s = {100, 101, 102} \<and> voter_set s \<subseteq> signer_set s \<and> lasts_ok (sNumber s) (Signers s)"
proof -
  let ?h = "vote_header 100 1 102 True False"
  let ?s = "sample_elected\<lparr>sNumber := 1, sHash := Header_Hash (keccak sample_ops) ?h\<rparr>"
  have n: "header_number ?h = Inr 1" by (simp add: vote_header_def header_number_sample big_Uint64_def)
  have z: "sNumber sample_elected = 0" "sNumber sample_genesis = 0" by (simp_all add: sample_elected_def sample_genesis_eq)
  have "Snapshot_copy sample_genesis = sample_genesis"
    by (rule Snapshot_copy_id) (simp add: sample_genesis_eq snapshot_ok_def votes_ok_def gmap_ok_def gkeys_def)
  then have ap: "Snapshot_apply sample_ops sample_config [?h] sample_genesis [] = (Inr ?s, [])"
    by (simp add: Snapshot_apply_def n z apply_headers_def bindS_def sample_election returnS_def)
  have "reachable_from sample_ops sample_config (\<lambda>_. True) sample_genesis ?s"
    by (rule reachable_from.replay [OF sample_genesis_reachable_from _ _ ap]) (simp_all add: z)
  from reachable_snapshots_wellformed [OF this [unfolded sample_genesis_def]] ap [unfolded sample_genesis_def] show ?thesis
    by (intro exI [of _ ?s]) (auto simp: sample_elected_def sample_genesis_eq gkeys_def)
qed

text \<open>
  C14. As long as only signers are elected, the membership changes only by majority: when a header changes
  the set of signers or voters, the account changed is the candidate of that header, and more than half
  of the current voters want this change: each of them either has a vote for it on record or is the
  author of the header, and then that header votes for it.  No other account is affected.
\<close>

theorem membership_change_is_majority_decision:
  assumes "reachable ops cfg signer_election s" "list_all signer_election (hs @ [h])"
    and "apply_headers ops cfg hs s cache = (Inr s1, cache1)" "apply_header ops cfg h s1 cache1 = (Inr s2, cache2)"
    and "signer_set s2 \<noteq> signer_set s1 \<or> voter_set s2 \<noteq> voter_set s1"
  shows "\<exists>g b W. let c = header_candidate h in
      ecrecover ops h cache1 = (Inr g, cache2) \<and> W \<subseteq> voter_set s1 \<and> card (voter_set s1) < 2 * card W
    \<and> (\<forall>w \<in> W. if w = g then header_votes h c b
               else \<exists>v \<in> set (Votes s1). v_Signer v = w \<and> v_Address v = c \<and> v_Authorize v = b)
    \<and> (b \<longleftrightarrow> c \<notin> signer_set s1)
    \<and> signer_set s2 - {c} = signer_set s1 - {c} \<and> voter_set s2 - {c} = voter_set s1 - {c}"
proof -
  have ok0: "snapshot_ok s" "tally_ok s" using reachable_ok [OF assms(1)] reachable_tally_ok [OF assms(1)] by auto
  have ok: "snapshot_ok s1" "tally_ok s1"
    using wf_run.loop_inv [of s hs ops cfg cache s1 cache1] tally_run.loop_inv [of s hs ops cfg cache s1 cache1]
      ok0 assms(2,3) by (simp_all add: apply_headers_def)
  have he: "signer_election h" using assms(2) by simp
  show ?thesis
  proof (rule apply_header_signed [OF assms(4)])
    fix n g
    let ?s = "if n mod Epoch cfg = 0 then s1\<lparr>Votes := [], Tallies := []\<rparr> else s1"
    assume g: "ecrecover ops h cache1 = (Inr g, cache2)" and ap: "apply_signed h n g ?s = Inr s2"
    have fields: "Signers ?s = Signers s1" "Voters ?s = Voters s1" "set (Votes ?s) \<subseteq> set (Votes s1)" by auto
    have "tally_ok (s1\<lparr>Votes := [], Tallies := []\<rparr>)" by (simp add: tally_ok_def tally_ok_at_def votes_on_def)
    then have ok': "snapshot_ok ?s" "tally_ok ?s"
      using ok snapshot_ok_reset [OF ok(1)] by (simp_all split: if_split)
    from majority_change [OF ok' he ap, unfolded fields(1,2), OF assms(5)] obtain c b W where
      c: "c = header_candidate h" and W: "W \<subseteq> voter_set s1" "card (voter_set s1) < 2 * card W"
      and votes: "\<forall>w \<in> W. if w = g then header_votes h c b
        else \<exists>v \<in> set (Votes ?s). v_Signer v = w \<and> v_Address v = c \<and> v_Authorize v = b"
      and rest: "b \<longleftrightarrow> c \<notin> signer_set s1" "signer_set s2 - {c} = signer_set s1 - {c}" "voter_set s2 - {c} = voter_set s1 - {c}"
      by (elim exE conjE)
    have "\<forall>w \<in> W. if w = g then header_votes h c b
        else \<exists>v \<in> set (Votes s1). v_Signer v = w \<and> v_Address v = c \<and> v_Authorize v = b"
      using votes fields(3) by (metis (no_types, lifting) subset_iff)
    with g W rest show ?thesis unfolding Let_def c [symmetric] by (intro exI [of _ g] exI [of _ b] exI [of _ W]) (intro conjI)
  qed
qed

text \<open>Three voters: the second vote for account 103 makes it a signer.\<close>

definition sample_voters :: Snapshot where
  "sample_voters = newGenesisSnapshot 0 0 [100, 101, 102] [100, 101, 102]"

definition sample_voted :: Snapshot where
  "sample_voted = sample_voters\<lparr>Signers := [(100, 1), (101, 0), (102, 0)],
     Votes := [\<lparr>v_Signer = 100, v_Block = 1, v_Address = 103, v_Authorize = True\<rparr>],
     Tallies := [(103, \<lparr>t_Authorize = True, t_Votes = 1\<rparr>)]\<rparr>"

lemma sample_voters_eq:
  "sample_voters = \<lparr>sNumber = 0, sHash = 0, Signers = [(100, 0), (101, 0), (102, 0)],
     Voters = [(100, ()), (101, ()), (102, ())], Votes = [], Tallies = []\<rparr>"
  by (simp add: sample_voters_def newGenesisSnapshot_def gput_def)

lemma sample_vote_one:
  "apply_header sample_ops sample_config (vote_header 100 1 103 True False) sample_voters [] = (Inr sample_voted, [])"
  by (simp add: apply_header_vote_sample sample_eval sample_voters_eq sample_voted_def)

lemma sample_vote_two:
  "apply_header sample_ops sample_config (vote_header 101 2 103 True False) sample_voted [] =
     (Inr (sample_voters\<lparr>Signers := [(100, 1), (101, 2), (102, 0), (103, 0)]\<rparr>), [])"
  by (simp add: apply_header_vote_sample sample_eval sample_voters_eq sample_voted_def)

theorem membership_change_is_majority_decision_witness:
  "\<exists>W :: address set. 2 \<le> card W \<and> W \<subseteq> {100, 101, 102}
     \<and> (\<forall>w \<in> W. if w = 101 then header_votes (vote_header 101 2 103 True False) 103 True else w = 100)"
proof -
  let ?h1 = "vote_header 100 1 103 True False" and ?h2 = "vote_header 101 2 103 True False"
  let ?s2 = "sample_voters\<lparr>Signers := [(100, 1), (101, 2), (102, 0), (103, 0)]\<rparr>"
  have r: "reachable sample_ops sample_config signer_election sample_voters"
    unfolding reachable_def sample_voters_def using reachable_from.start by metis
  have el: "list_all signer_election ([?h1] @ [?h2])"
    using extra_vote_readback [of "replicate 32 0" 103 False]
    by (simp add: signer_election_def vote_header_def signed_header_def)
  have one: "apply_headers sample_ops sample_config [?h1] sample_voters [] = (Inr sample_voted, [])"
    by (simp add: apply_headers_def bindS_def sample_vote_one returnS_def)
  have sets: "signer_set sample_voted = {100, 101, 102}" "voter_set sample_voted = {100, 101, 102}" "103 \<in> signer_set ?s2"
    by (auto simp: sample_voted_def sample_voters_eq gkeys_def)
  then have ch: "signer_set ?s2 \<noteq> signer_set sample_voted \<or> voter_set ?s2 \<noteq> voter_set sample_voted" by auto
  have c: "header_candidate ?h2 = 103"
    using extra_vote_readback [of "replicate 32 0" 103 False] by (simp add: header_candidate_def vote_header_def signed_header_def)
  have g: "ecrecover sample_ops ?h2 [] = (Inr 101, [])" by (simp add: vote_header_def ecrecover_sample)
  from membership_change_is_majority_decision [OF r el one sample_vote_two ch, unfolded Let_def c g sets] obtain g b W where
    W: "g = 101" "W \<subseteq> {100, 101, 102}" "3 < 2 * card W" "b"
    "\<forall>w \<in> W. if w = g then header_votes ?h2 103 b else \<exists>v \<in> set (Votes sample_voted). v_Signer v = w \<and> v_Address v = 103 \<and> v_Authorize v = b"
    by auto
  have "2 \<le> card W" using W(3) by linarith
  moreover have "\<forall>w \<in> W. if w = 101 then header_votes ?h2 103 True else w = 100"
  proof
    fix w
    assume "w \<in> W"
    with W(5) have "if w = 101 then header_votes ?h2 103 b else \<exists>v \<in> set (Votes sample_voted). v_Signer v = w" unfolding W(1) by metis
    with W(4) show "if w = 101 then header_votes ?h2 103 True else w = 100" by (auto simp: sample_voted_def split: if_splits)
  qed
  ultimately show ?thesis using W(2) by blast
qed

text \<open>
  C15. Signing rotates: if the same account signs two headers of a chain and stays a signer between them,
  at least half as many headers as there are signers lie in between.
\<close>

theorem no_signing_twice_within_half_round:
  assumes "snapshot_ok s" "lasts_ok k (Signers s)" "numbered k (h1 # mid @ [h2])"
    and "unat k + length mid + length (Signers s2) + 2 < 2 ^ 64"
    and "apply_header ops cfg h1 s c = (Inr s1, c1)" "ecrecover ops h1 c = (Inr g, c1)"
    and "apply_headers ops cfg mid s1 c1 = (Inr s2, c2)" "stays ops cfg g mid s1 c1"
    and "apply_header ops cfg h2 s2 c2 = (Inr s3, c3)" "ecrecover ops h2 c2 = (Inr g, c3)"
  shows "length (Signers s2) div 2 \<le> length mid"
  by (rule half_round [OF assms])

theorem no_signing_twice_within_half_round_witness:
  "\<exists>s3. apply_headers sample_ops sample_config
       [signed_header 100 1 [] 0, signed_header 101 2 [] 0, signed_header 100 3 [] 0] sample_genesis [] = (Inr s3, [])
     \<and> length (Signers sample_genesis) div 2 \<le> length [signed_header 101 2 [] 0]"
proof -
  let ?h1 = "signed_header 100 1 [] 0" and ?h2 = "signed_header 101 2 [] 0" and ?h3 = "signed_header 100 3 [] 0"
  let ?ap = "apply_header sample_ops sample_config"
  let ?s = "\<lambda>a b. sample_genesis\<lparr>Signers := [(100, a), (101, b)]\<rparr>"
  have a1: "?ap ?h1 sample_genesis [] = (Inr (?s 1 0), [])"
    and a2: "?ap ?h2 (?s 1 0) [] = (Inr (?s 1 2), [])" and a3: "?ap ?h3 (?s 1 2) [] = (Inr (?s 3 2), [])"
    by (simp_all add: apply_header_sample sample_eval sample_genesis_eq)
  have m: "apply_headers sample_ops sample_config [?h2] (?s 1 0) [] = (Inr (?s 1 2), [])"
    by (simp add: apply_headers_def bindS_def a2 returnS_def)
  have st: "stays sample_ops sample_config 100 [?h2] (?s 1 0) []"
    unfolding stays_def by (auto simp: apply_headers_def bindS_def a2 returnS_def gkeys_def le_Suc_eq)
  have ok: "snapshot_ok sample_genesis" "lasts_ok 0 (Signers sample_genesis)"
    using reachable_ok [OF sample_genesis_reachable [of "\<lambda>_. True"]] by (simp_all add: sample_genesis_eq)
  have num: "numbered 0 (?h1 # [?h2] @ [?h3])" by (simp add: header_number_sample big_Uint64_def)
  have e: "ecrecover sample_ops ?h1 [] = (Inr 100, [])" "ecrecover sample_ops ?h3 [] = (Inr 100, [])"
    by (simp_all add: ecrecover_sample)
  have room: "unat (0 :: u64) + length [?h2] + length (Signers (?s 1 2)) + 2 < 2 ^ 64" by simp
  from no_signing_twice_within_half_round [OF ok num room a1 e(1) m st a3 e(2)] a1 a2 a3 show ?thesis
    by (simp add: apply_headers_def bindS_def returnS_def sample_genesis_eq)
qed

text \<open>
  C16. In every reachable snapshot with \<open>n\<close> signers the non-zero difficulties are exactly the numbers from
  \<open>n/2+1\<close> to \<open>n\<close>, each belonging to exactly one signer: there is one in-turn signer, and two signers
  never compete with the same difficulty.
\<close>

theorem difficulties_are_a_permutation:
  assumes "reachable ops cfg admit s" "length (Signers s) < 2 ^ 64"
  shows "bij_betw (\<lambda>a. unat (CalcDifficulty (Signers s) a))
     {a \<in> signer_set s. CalcDifficulty (Signers s) a \<noteq> 0} {length (Signers s) div 2 + 1..length (Signers s)}"
proof -
  have "gmap_ok (Signers s)" "lasts_distinct (Signers s)"
    using reachable_ok [OF assms(1)] by (simp_all add: snapshot_ok_def lasts_ok_def)
  then show ?thesis using assms(2) by (rule difficulty_bij)
qed

theorem difficulties_are_a_permutation_witness:
  "bij_betw (\<lambda>a. unat (CalcDifficulty (Signers sample_genesis) a))
     {a \<in> signer_set sample_genesis. CalcDifficulty (Signers sample_genesis) a \<noteq> 0}
     {length (Signers sample_genesis) div 2 + 1..length (Signers sample_genesis)}"
  by (rule difficulties_are_a_permutation [OF sample_genesis_reachable [of "\<lambda>_. True"]]) (simp add: sample_genesis_eq)

text \<open>
  C17. The difficulty rule implies the recent-signer rule: in a reachable snapshot, a signer with a
  non-zero difficulty may sign the next block.
\<close>

theorem difficulty_implies_signable:
  assumes "reachable ops cfg admit s" "unat (sNumber s) + length (Signers s) + 1 < 2 ^ 64"
    and "gget (Signers s) g = Some l" "l > 0" "CalcDifficulty (Signers s) g \<noteq> 0"
  shows "nextSignableBlockNumber s l \<le> sNumber s + 1"
proof -
  have lo: "lasts_ok (sNumber s) (Signers s)" using reachable_ok [OF assms(1)] by simp
  have n1: "sNumber s < sNumber s + 1" "unat (sNumber s + 1) = unat (sNumber s) + 1"
    using of_nat_u64_step [of "sNumber s" "length (Signers s)"] assms(2) by auto
  have "\<forall>(a, n) \<in> set (Signers s). n < sNumber s + 1" using lo n1(1) by (auto simp: lasts_ok_def intro: order_le_less_trans)
  from difficulty_signable [OF _ this assms(3-5)] lo
  have le: "unat l + length (Signers s) div 2 + 1 \<le> unat (sNumber s) + 1" by (simp add: lasts_ok_def n1(2))
  have "unat (nextSignableBlockNumber s l) = unat l + length (Signers s) div 2 + 1"
    unfolding nextSignableBlockNumber_def Let_def using le assms(2) by (intro unat_next) linarith+
  with le n1(2) show ?thesis by (simp add: word_le_nat_alt)
qed

theorem difficulty_implies_signable_witness:
  "\<exists>s. Snapshot_apply sample_ops sample_config [signed_header 100 1 [] 0, signed_header 101 2 [] 0] sample_genesis [] = (Inr s, [])
     \<and> gget (Signers s) 100 = Some 1 \<and> nextSignableBlockNumber s 1 \<le> sNumber s + 1"
proof -
  let ?h1 = "signed_header 100 1 [] 0" and ?h2 = "signed_header 101 2 [] 0"
  let ?ap = "apply_header sample_ops sample_config"
  let ?t = "\<lambda>a b. sample_genesis\<lparr>Signers := [(100, a), (101, b)]\<rparr>"
  have a1: "?ap ?h1 sample_genesis [] = (Inr (?t 1 0), [])" and a2: "?ap ?h2 (?t 1 0) [] = (Inr (?t 1 2), [])"
    by (simp_all add: apply_header_sample sample_eval sample_genesis_eq)
  let ?s = "(?t 1 2)\<lparr>sNumber := 2, sHash := Header_Hash (keccak sample_ops) ?h2\<rparr>"
  have z: "sNumber sample_genesis = 0" by (simp add: sample_genesis_eq)
  have "Snapshot_copy sample_genesis = sample_genesis"
    by (rule Snapshot_copy_id) (simp add: sample_genesis_eq snapshot_ok_def votes_ok_def gmap_ok_def gkeys_def)
  then have ap: "Snapshot_apply sample_ops sample_config [?h1, ?h2] sample_genesis [] = (Inr ?s, [])"
    by (simp add: Snapshot_apply_def header_number_sample big_Uint64_def z apply_headers_def bindS_def a1 a2 returnS_def)
  have "reachable_from sample_ops sample_config (\<lambda>_. True) sample_genesis ?s"
    by (rule reachable_from.replay [OF sample_genesis_reachable_from _ _ ap]) (simp_all add: z)
  then have r: "reachable sample_ops sample_config (\<lambda>_. True) ?s" unfolding reachable_def sample_genesis_def by metis
  have l: "gget (Signers ?s) 100 = Some 1" by (simp add: gget_def)
  have "CalcDifficulty (Signers ?s) 100 \<noteq> 0" by (simp add: CalcDifficulty_def gget_def)
  moreover have "unat (sNumber ?s) + length (Signers ?s) + 1 < 2 ^ 64" "(1 :: u64) > 0" by simp_all
  ultimately have "nextSignableBlockNumber ?s 1 \<le> sNumber ?s + 1"
    using difficulty_implies_signable [OF r _ l] by blast
  with ap l show ?thesis by (intro exI [of _ ?s] conjI)
qed

text \<open>
  C18. \<open>signers\<close> returns every signer once, in ascending order, whatever the order in which the runtime
  ranges over the map: two snapshots with the same signers give the same list, so every node builds the
  same checkpoint header.
\<close>

theorem snap_signers_deterministic:
  assumes "gmap_ok (Signers s)" "gmap_ok (Signers s')" "signer_set s = signer_set s'"
  shows "snap_signers s = snap_signers s' \<and> sorted (snap_signers s) \<and> distinct (snap_signers s)
    \<and> set (snap_signers s) = signer_set s"
proof -
  have d: "distinct (gkeys (Signers s))" "distinct (gkeys (Signers s'))"
    using assms by (simp_all add: gmap_ok_distinct_gkeys)
  have "mset (gkeys (Signers s)) = mset (gkeys (Signers s'))"
    using d assms(3) by (simp add: set_eq_iff_mset_eq_distinct)
  then have "sort (gkeys (Signers s)) = sort (gkeys (Signers s'))"
    by (intro properties_for_sort) simp_all
  with d assms(3) show ?thesis by (simp add: snap_signers_def sort_outer_sort)
qed

theorem snap_signers_deterministic_witness:
  "snap_signers (sample_genesis\<lparr>Signers := [(7, 0), (3, 5)]\<rparr>) = snap_signers (sample_genesis\<lparr>Signers := [(3, 1), (7, 0)]\<rparr>)"
  using snap_signers_deterministic [of "sample_genesis\<lparr>Signers := [(7, 0), (3, 5)]\<rparr>" "sample_genesis\<lparr>Signers := [(3, 1), (7, 0)]\<rparr>"]
  by (simp add: gmap_ok_def gkeys_def insert_commute)

text \<open>
  C19. A vote written into the extra data by \<open>Prepare\<close> is read back by \<open>apply\<close>: after padding or
  trimming to the vanity and appending a vote, the extra data has a vote, with that candidate and that
  kind of election, and the vanity is intact.
\<close>

theorem extra_vote_roundtrip:
  "ExtraHasVote (ExtraAppendVote (ExtraEnsureVanity extra) c v)
   \<and> ExtraCandidate (ExtraAppendVote (ExtraEnsureVanity extra) c v) = c
   \<and> ExtraIsVoterElection (ExtraAppendVote (ExtraEnsureVanity extra) c v) = v
   \<and> ExtraVanity (ExtraAppendVote (ExtraEnsureVanity extra) c v) = ExtraEnsureVanity extra"
proof -
  have "length (ExtraEnsureVanity extra) = 32" by (simp add: ExtraEnsureVanity_def extraVanity_def)
  then show ?thesis by (simp add: extra_vote_readback)
qed

section \<open>Mixed elections\<close>

text \<open>
  With voter elections the agreement between tally and votes is lost.  \<open>cast\<close> adds a vote to an existing
  tally without comparing directions, and both ``promote to voter'' and ``drop as signer'' are valid for a
  signer that is not a voter; \<open>uncast\<close> leaves the tally alone when the directions differ.  Below, five
  voters and the plain signer 106: voter 102 proposes to make 106 a voter, voter 101 votes to drop 106
  from the signers, and again when it is due to sign the next time.  The second drop vote is the third
  count of the tally, and 106 becomes a voter, on one vote in favour.
\<close>

definition mixed_start :: Snapshot where
  "mixed_start = \<lparr>sNumber = 0, sHash = 0,
     Signers = [(101, 0), (102, 0), (103, 0), (104, 0), (105, 0), (106, 0)],
     Voters = [(101, ()), (102, ()), (103, ()), (104, ()), (105, ())], Votes = [], Tallies = []\<rparr>"

definition mixed_headers :: "Header list" where
  "mixed_headers =
     [vote_header 102 1 106 True True, vote_header 101 2 106 False False, signed_header 103 3 [] 0,
      signed_header 104 4 [] 0, signed_header 105 5 [] 0, vote_header 101 6 106 False False]"

text \<open>
  C20. When signer and voter elections mix, drop votes can promote: \<open>apply\<close> accepts the six headers, and
  account 106 is a voter afterwards although only one voter voted for it.
\<close>

theorem drop_votes_promote:
  "\<exists>s. apply_headers sample_ops sample_config mixed_headers mixed_start [] = (Inr s, [])
     \<and> snapshot_ok mixed_start \<and> voter_set mixed_start \<subseteq> signer_set mixed_start
     \<and> 106 \<notin> voter_set mixed_start \<and> 106 \<in> voter_set s"
proof -
  let ?v2 = "\<lparr>v_Signer = 102, v_Block = 1, v_Address = 106, v_Authorize = True\<rparr>"
  let ?v1 = "\<lparr>v_Signer = 101, v_Block = 2, v_Address = 106, v_Authorize = False\<rparr>"
  let ?s = "\<lambda>a b c d e vs k. mixed_start\<lparr>Signers := [(101, a), (102, b), (103, c), (104, d), (105, e), (106, 0)],
     Votes := vs, Tallies := [(106, \<lparr>t_Authorize = True, t_Votes = k\<rparr>)]\<rparr>"
  let ?ap = "apply_header sample_ops sample_config"
  have a1: "?ap (vote_header 102 1 106 True True) mixed_start [] = (Inr (?s 0 1 0 0 0 [?v2] 1), [])"
    by (simp add: apply_header_vote_sample sample_eval mixed_start_def)
  have a2: "?ap (vote_header 101 2 106 False False) (?s 0 1 0 0 0 [?v2] 1) [] = (Inr (?s 2 1 0 0 0 [?v2, ?v1] 2), [])"
    by (simp add: apply_header_vote_sample sample_eval mixed_start_def)
  have a3: "?ap (signed_header 103 3 [] 0) (?s 2 1 0 0 0 [?v2, ?v1] 2) [] = (Inr (?s 2 1 3 0 0 [?v2, ?v1] 2), [])"
    by (simp add: apply_header_sample sample_eval mixed_start_def)
  have a4: "?ap (signed_header 104 4 [] 0) (?s 2 1 3 0 0 [?v2, ?v1] 2) [] = (Inr (?s 2 1 3 4 0 [?v2, ?v1] 2), [])"
    by (simp add: apply_header_sample sample_eval mixed_start_def)
  have a5: "?ap (signed_header 105 5 [] 0) (?s 2 1 3 4 0 [?v2, ?v1] 2) [] = (Inr (?s 2 1 3 4 5 [?v2, ?v1] 2), [])"
    by (simp add: apply_header_sample sample_eval mixed_start_def)
  have a6: "\<exists>s. ?ap (vote_header 101 6 106 False False) (?s 2 1 3 4 5 [?v2, ?v1] 2) [] = (Inr s, []) \<and> 106 \<in> voter_set s"
    by (simp add: apply_header_vote_sample sample_eval mixed_start_def gkeys_def)
  have "snapshot_ok mixed_start" "voter_set mixed_start \<subseteq> signer_set mixed_start" "106 \<notin> voter_set mixed_start"
    by (simp_all add: mixed_start_def snapshot_ok_def votes_ok_def gmap_ok_def gkeys_def)
  with a6 show ?thesis
    by (auto simp: mixed_headers_def apply_headers_def bindS_def a1 a2 a3 a4 a5 returnS_def)
qed

end
