(* ===== verification/Clique_Engine_Correct.thy ===== *)
theory Clique_Engine_Correct
  imports Clique_Engine Clique_Safety
begin

text \<open>
  The engine computes the snapshots the headers determine: neither the signature cache, nor the cache of
  recent snapshots, nor the database changes the result, as long as the engine itself filled them.  What
  a cache may do is forget; what a hash may not do is collide on the headers in play (\<open>trusted\<close>), which may
  come from anyone.
\<close>

section \<open>Recovery without a cache\<close>

definition recover :: "crypto \<Rightarrow> Header \<Rightarrow> clique_error + address" where
  "recover cr h = fst (ecrecover cr h [])"

definition trusted :: "crypto \<Rightarrow> Header set \<Rightarrow> bool" where
  "trusted cr H \<longleftrightarrow> inj_on (Header_Hash (keccak cr)) H
     \<and> (\<forall>m k a. gget (evict_sig cr m) k = Some a \<longrightarrow> gget m k = Some a)"

definition sig_sound :: "crypto \<Rightarrow> Header set \<Rightarrow> sigcache \<Rightarrow> bool" where
  "sig_sound cr H cache \<longleftrightarrow>
     (\<forall>h \<in> H. \<forall>a. gget cache (Header_Hash (keccak cr) h) = Some a \<longrightarrow> recover cr h = Inr a)"

lemma trustedD:
  assumes "trusted cr H"
  shows "gget (evict_sig cr m) k = Some a \<Longrightarrow> gget m k = Some a"
    "h \<in> H \<Longrightarrow> h' \<in> H \<Longrightarrow> Header_Hash (keccak cr) h = Header_Hash (keccak cr) h' \<Longrightarrow> h = h'"
  using assms unfolding trusted_def by (blast dest: inj_onD)+

lemma sig_sound_Nil [simp]: "sig_sound cr H []"
  by (simp add: sig_sound_def)

lemma ecrecover_miss:
  assumes "gget cache (Header_Hash (keccak cr) h) = None"
  shows "ecrecover cr h cache = (recover cr h,
    case recover cr h of Inl _ \<Rightarrow> cache | Inr a \<Rightarrow> evict_sig cr (gput cache (Header_Hash (keccak cr) h) a))"
proof (cases "length (hSigner h) < signatureLength")
  case True
  with assms show ?thesis by (simp add: ecrecover_def recover_def Let_def)
next
  case long: False
  show ?thesis
  proof (cases "Ecrecover cr (sigHash (keccak cr) h) (hSigner h)")
    case None
    with long assms show ?thesis by (simp add: ecrecover_def recover_def Let_def)
  next
    case (Some p)
    with long assms show ?thesis by (cases "p = []") (simp_all add: ecrecover_def recover_def Let_def)
  qed
qed

lemma sig_sound_add:
  assumes tr: "trusted cr H" and snd: "sig_sound cr H cache" and h: "h \<in> H" "recover cr h = Inr a"
  shows "sig_sound cr H (evict_sig cr (gput cache (Header_Hash (keccak cr) h) a))"
  unfolding sig_sound_def
proof (intro ballI allI impI)
  fix h' b
  assume h': "h' \<in> H" and e: "gget (evict_sig cr (gput cache (Header_Hash (keccak cr) h) a)) (Header_Hash (keccak cr) h') = Some b"
  have g: "gget (gput cache (Header_Hash (keccak cr) h) a) (Header_Hash (keccak cr) h') = Some b"
    using trustedD(1) [OF tr e] .
  show "recover cr h' = Inr b"
  proof (cases "Header_Hash (keccak cr) h' = Header_Hash (keccak cr) h")
    case True
    then have "h' = h" using trustedD(2) [OF tr h' h(1)] by simp
    with g h(2) show ?thesis by (simp add: gget_gput)
  next
    case False
    with g snd h' show ?thesis by (simp add: gget_gput sig_sound_def)
  qed
qed

lemma ecrecover_recover:
  assumes "trusted cr H" "sig_sound cr H cache" "h \<in> H"
  shows "\<exists>cache'. ecrecover cr h cache = (recover cr h, cache') \<and> sig_sound cr H cache'"
proof (cases "gget cache (Header_Hash (keccak cr) h)")
  case (Some a)
  with assms(2,3) have "recover cr h = Inr a" by (simp add: sig_sound_def)
  with Some assms(2) show ?thesis by (simp add: ecrecover_def Let_def)
next
  case None
  have "sig_sound cr H (case recover cr h of Inl _ \<Rightarrow> cache | Inr a \<Rightarrow> evict_sig cr (gput cache (Header_Hash (keccak cr) h) a))"
    using assms sig_sound_add by (simp split: sum.split)
  with ecrecover_miss [OF None] show ?thesis by blast
qed

section \<open>Replay without a cache\<close>

definition header_pure :: "crypto \<Rightarrow> CliqueConfig \<Rightarrow> Header \<Rightarrow> Snapshot \<Rightarrow> clique_error + Snapshot" where
  "header_pure cr cfg h s =
     bindE (header_number h) (\<lambda>n.
       if Epoch cfg = 0 then Inl Panic
       else bindE (recover cr h) (\<lambda>g. apply_signed h n g (if n mod Epoch cfg = 0 then s\<lparr>Votes := [], Tallies := []\<rparr> else s)))"

lemma apply_header_pure:
  assumes "trusted cr H" "sig_sound cr H cache" "h \<in> H"
  shows "\<exists>cache'. apply_header cr cfg h s cache = (header_pure cr cfg h s, cache') \<and> sig_sound cr H cache'"
proof (cases "header_number h")
  case (Inl e)
  with assms(2) show ?thesis by (simp add: apply_header_def header_pure_def failS_def)
next
  case (Inr n)
  obtain cache' where c: "ecrecover cr h cache = (recover cr h, cache')" "sig_sound cr H cache'"
    using ecrecover_recover [OF assms] by blast
  show ?thesis
  proof (cases "Epoch cfg = 0")
    case True
    with Inr assms(2) show ?thesis by (simp add: apply_header_def header_pure_def failS_def)
  next
    case False
    let ?s = "if n mod Epoch cfg = 0 then s\<lparr>Votes := [], Tallies := []\<rparr> else s"
    have p: "header_pure cr cfg h s = bindE (recover cr h) (\<lambda>g. apply_signed h n g ?s)"
      using Inr False by (simp only: header_pure_def bindE_simps if_False)
    have "apply_header cr cfg h s cache = bindS (ecrecover cr h) (\<lambda>g. liftS (apply_signed h n g ?s)) cache"
      using False by (simp only: apply_header_def Inr bindS_liftS if_False Let_def)
    also have "\<dots> = (header_pure cr cfg h s, cache')"
      unfolding p by (cases "recover cr h") (simp_all only: bindS_def c liftS_def bindE_simps prod.case sum.case)
    finally show ?thesis using c(2) by blast
  qed
qed

section \<open>Number and hash do not matter to the replay\<close>

definition stamp :: "u64 \<Rightarrow> hash \<Rightarrow> Snapshot \<Rightarrow> Snapshot" where
  "stamp n x s = s\<lparr>sNumber := n, sHash := x\<rparr>"

lemma stamp_fields [simp]:
  "Signers (stamp n x s) = Signers s" "Voters (stamp n x s) = Voters s" "Votes (stamp n x s) = Votes s"
  "Tallies (stamp n x s) = Tallies s" "sNumber (stamp n x s) = n" "sHash (stamp n x s) = x"
  "stamp n x (stamp m y s) = stamp n x s"
  by (simp_all add: stamp_def)

lemma stamp_update [simp]:
  "(stamp n x s)\<lparr>Votes := v\<rparr> = stamp n x (s\<lparr>Votes := v\<rparr>)"
  "(stamp n x s)\<lparr>Tallies := t\<rparr> = stamp n x (s\<lparr>Tallies := t\<rparr>)"
  "(stamp n x s)\<lparr>Signers := m\<rparr> = stamp n x (s\<lparr>Signers := m\<rparr>)"
  "(stamp n x s)\<lparr>Voters := w\<rparr> = stamp n x (s\<lparr>Voters := w\<rparr>)"
  by (simp_all add: stamp_def)

lemma uncast_stamp [simp]: "snd (uncast a b (stamp n x s)) = stamp n x (snd (uncast a b s))"
  by (simp add: uncast_def split: option.split)

lemma uncast_by_stamp [simp]: "uncast_by c vs (stamp n x s) = stamp n x (uncast_by c vs s)"
  unfolding uncast_by_def by (induction vs arbitrary: s) simp_all

lemma discardVote_stamp [simp]: "discardVote g c (stamp n x s) = stamp n x (discardVote g c s)"
  by (simp add: discardVote_def split: option.split prod.split)

lemma passVote_stamp [simp]: "passVote c t (stamp n x s) = stamp n x (passVote c t s)"
  by (simp add: passVote_def discardAbout_eq discardCast_eq Let_def)

lemma cast_vote_stamp: "cast_vote a b e (stamp n x s) = apsnd (stamp n x) (cast_vote a b e s)"
  by (simp add: cast_vote_def validVote_def split: option.split)

lemma castAndPass_stamp [simp]: "castAndPass g k c b e (stamp n x s) = stamp n x (castAndPass g k c b e s)"
proof -
  have "with_vote g k c b e (stamp n x s) = stamp n x (with_vote g k c b e s)"
    by (simp add: with_vote_def cast_vote_stamp Let_def)
  then show ?thesis by (simp add: castAndPass_with_vote split: option.split)
qed

lemma apply_vote_stamp: "apply_vote h k g (stamp n x s) = map_sum id (stamp n x) (apply_vote h k g s)"
  by (simp add: apply_vote_def Let_def split: prod.split)

lemma apply_signed_stamp: "apply_signed h k g (stamp n x s) = map_sum id (stamp n x) (apply_signed h k g s)"
  by (simp add: apply_signed_def nextSignableBlockNumber_def apply_vote_stamp Let_def split: option.split)

lemma header_pure_stamp: "header_pure cr cfg h (stamp n x s) = map_sum id (stamp n x) (header_pure cr cfg h s)"
proof (cases "header_number h")
  case (Inr k)
  show ?thesis
  proof (cases "recover cr h")
    case (Inr g)
    then show ?thesis using \<open>header_number h = Inr k\<close> by (simp add: header_pure_def apply_signed_stamp)
  qed (use Inr in \<open>simp add: header_pure_def\<close>)
qed (simp add: header_pure_def)

section \<open>Maps stay maps\<close>

definition maps_ok :: "Snapshot \<Rightarrow> bool" where
  "maps_ok s \<longleftrightarrow> gmap_ok (Signers s) \<and> gmap_ok (Voters s) \<and> gmap_ok (Tallies s)"

lemma maps_ok_passVote: "maps_ok s \<Longrightarrow> maps_ok (passVote c t s)"
  unfolding maps_ok_def by (simp add: passVote_fields(1,2,4))

lemma maps_ok_castAndPass:
  assumes "maps_ok s"
  shows "maps_ok (castAndPass g n c b e s)"
proof -
  have "maps_ok (with_vote g n c b e s)"
    using assms by (simp add: maps_ok_def with_vote_def gmap_ok_cast_vote Let_def)
  then show ?thesis by (simp add: castAndPass_with_vote maps_ok_passVote split: option.split)
qed

lemma maps_ok_discardVote: "maps_ok s \<Longrightarrow> maps_ok (discardVote g c s)"
  by (simp add: maps_ok_def gmap_ok_discardVote)

lemma maps_ok_apply_signed:
  assumes "maps_ok s" "apply_signed h n g s = Inr s'"
  shows "maps_ok s'"
proof -
  have ok1: "maps_ok (s\<lparr>Signers := gput (Signers s) g n\<rparr>)" using assms(1) by (simp add: maps_ok_def)
  show ?thesis using assms(2)
  proof (cases rule: apply_signed_cases)
    case no_vote
    with ok1 show ?thesis by simp
  next
    case (vote c b e)
    then show ?thesis using maps_ok_castAndPass [OF maps_ok_discardVote [OF ok1]] by simp
  qed
qed

lemma maps_ok_header_pure:
  assumes "maps_ok s" "header_pure cr cfg h s = Inr s'"
  shows "maps_ok s'"
proof -
  from assms(2) obtain n where n: "header_number h = Inr n"
    by (cases "header_number h") (simp_all add: header_pure_def)
  from assms(2) n have e: "Epoch cfg \<noteq> 0" by (auto simp: header_pure_def)
  from assms(2) n e obtain g where g: "recover cr h = Inr g"
    by (cases "recover cr h") (simp_all add: header_pure_def)
  have "apply_signed h n g (if n mod Epoch cfg = 0 then s\<lparr>Votes := [], Tallies := []\<rparr> else s) = Inr s'"
    using assms(2) e by (simp only: header_pure_def n g bindE_simps if_False)
  then show ?thesis using assms(1) by (elim maps_ok_apply_signed [rotated]) (simp add: maps_ok_def split: if_split)
qed

lemma Snapshot_copy_maps: "maps_ok s \<Longrightarrow> Snapshot_copy s = s"
  by (simp add: Snapshot_copy_def maps_ok_def gcopy_id)

section \<open>The snapshot of a block\<close>

text \<open>What the headers say.  The snapshot of block \<open>n\<close> with hash \<open>h\<close> is that of its parent with the header
  replayed; the header is found by hash and number among the headers \<open>H\<close> in play, those of the chain and
  those received.  At number 0 the code takes the lists of the chain's genesis block, whatever the hash
  is, and so does \<open>snap_at\<close>.\<close>

abbreviation HH :: "engine_env \<Rightarrow> Header \<Rightarrow> hash" where
  "HH env \<equiv> Header_Hash (keccak (ops env))"

inductive snap_at :: "engine_env \<Rightarrow> CliqueConfig \<Rightarrow> ChainReader \<Rightarrow> Header set \<Rightarrow> u64 \<Rightarrow> hash \<Rightarrow> Snapshot \<Rightarrow> bool"
  for env cfg chain H where
  snap_genesis: "GetHeaderByNumber chain 0 = Some g \<Longrightarrow>
    snap_at env cfg chain H 0 h (newGenesisSnapshot 0 (HH env g) (hSigners g) (hVoters g))"
| snap_child: "x \<in> H \<Longrightarrow> HH env x = h \<Longrightarrow> header_number x = Inr n \<Longrightarrow> n \<noteq> 0 \<Longrightarrow>
    snap_at env cfg chain H (n - 1) (ParentHash x) s \<Longrightarrow> header_pure (ops env) cfg x s = Inr s' \<Longrightarrow>
    snap_at env cfg chain H n h (stamp n h s')"

lemma snap_at_ok: "snap_at env cfg chain H n h s \<Longrightarrow> maps_ok s \<and> sNumber s = n \<and> (n \<noteq> 0 \<longrightarrow> sHash s = h)"
proof (induction rule: snap_at.induct)
  case (snap_genesis g h)
  then show ?case by (simp add: newGenesisSnapshot_def maps_ok_def gmap_ok_foldl_gput)
next
  case (snap_child x h n s s')
  then have "maps_ok s'" using maps_ok_header_pure by blast
  then show ?case by (simp add: maps_ok_def)
qed

lemma snap_at_0: "snap_at env cfg chain H 0 h s \<Longrightarrow> \<exists>g. GetHeaderByNumber chain 0 = Some g \<and> sHash s = HH env g"
  by (erule snap_at.cases) (auto simp: newGenesisSnapshot_def)

lemma snap_at_0_any: "snap_at env cfg chain H 0 h s \<Longrightarrow> snap_at env cfg chain H 0 k s"
  by (erule snap_at.cases) (auto intro: snap_genesis)

lemma snap_at_genesis_exists: "snap_at env cfg chain H n h s \<Longrightarrow> \<exists>g. GetHeaderByNumber chain 0 = Some g"
  by (induction rule: snap_at.induct) auto

text \<open>Headers that lead from one block to another, none of them with number 0.\<close>

fun linked :: "engine_env \<Rightarrow> Header set \<Rightarrow> hash \<Rightarrow> Header list \<Rightarrow> hash \<Rightarrow> bool" where
  "linked env H h0 [] h \<longleftrightarrow> h0 = h"
| "linked env H h0 (x # xs) h \<longleftrightarrow> ParentHash x = h0 \<and> x \<in> H \<and> header_number x \<noteq> Inr 0 \<and> linked env H (HH env x) xs h"

lemma linked_last: "linked env H h0 hs h \<Longrightarrow> hs \<noteq> [] \<Longrightarrow> HH env (last hs) = h"
  by (induction hs arbitrary: h0) auto

lemma linked_sub: "linked env H h0 hs h \<Longrightarrow> set hs \<subseteq> H"
  by (induction hs arbitrary: h0) auto

lemma foldS_stamp:
  assumes "set hs \<subseteq> H" "trusted (ops env) H" "sig_sound (ops env) H cache"
  shows "apply_headers (ops env) cfg hs (stamp n x s) cache =
    apfst (map_sum id (stamp n x)) (apply_headers (ops env) cfg hs s cache)"
  using assms
proof (induction hs arbitrary: s cache)
  case Nil
  then show ?case by (simp add: apply_headers_def returnS_def)
next
  case (Cons h hs)
  obtain cache1 where c1: "apply_header (ops env) cfg h s cache = (header_pure (ops env) cfg h s, cache1)"
    "sig_sound (ops env) H cache1" using apply_header_pure [of "ops env" H cache h cfg s] Cons.prems by auto
  obtain cache2 where c2: "apply_header (ops env) cfg h (stamp n x s) cache = (header_pure (ops env) cfg h (stamp n x s), cache2)"
    using apply_header_pure [of "ops env" H cache h cfg "stamp n x s"] Cons.prems by auto
  have same: "cache2 = cache1"
  proof -
    have "snd (apply_header (ops env) cfg h (stamp n x s) cache) = snd (apply_header (ops env) cfg h s cache)"
      by (cases "header_number h"; cases "ecrecover (ops env) h cache"; cases "fst (ecrecover (ops env) h cache)")
         (auto simp: apply_header_def bindS_def liftS_def failS_def Let_def)
    with c1 c2 show ?thesis by simp
  qed
  show ?case
  proof (cases "header_pure (ops env) cfg h s")
    case (Inl e)
    then show ?thesis using c1 c2 same by (simp add: apply_headers_def bindS_def header_pure_stamp)
  next
    case (Inr s1)
    then show ?thesis using c1 c2 same Cons.IH [of cache1 s1] Cons.prems
      by (simp add: apply_headers_def bindS_def header_pure_stamp)
  qed
qed

lemma snap_at_replay:
  assumes "snap_at env cfg chain H (sNumber s) h0 s" "linked env H h0 hs h" "numbered (sNumber s) hs" "hs \<noteq> []"
    and "trusted (ops env) H" "sig_sound (ops env) H cache"
    and "apply_headers (ops env) cfg hs s cache = (Inr snap, cache')"
  shows "snap_at env cfg chain H (sNumber s + of_nat (length hs)) h (stamp (sNumber s + of_nat (length hs)) h snap)"
  using assms
proof (induction hs arbitrary: h0 s cache snap)
  case (Cons x hs)
  have xH: "x \<in> H" "header_number x = Inr (sNumber s + 1)" "sNumber s + 1 \<noteq> 0" and par: "ParentHash x = h0"
    and ln: "linked env H (HH env x) hs h" using Cons.prems(2,3) by auto
  obtain c1 where c1: "apply_header (ops env) cfg x s cache = (header_pure (ops env) cfg x s, c1)" "sig_sound (ops env) H c1"
    using apply_header_pure [OF Cons.prems(5,6) xH(1)] by blast
  from Cons.prems(7) c1 obtain s1 where s1: "header_pure (ops env) cfg x s = Inr s1"
    and rest: "apply_headers (ops env) cfg hs s1 c1 = (Inr snap, cache')"
    by (auto simp: apply_headers_def bindS_Inr)
  let ?s1 = "stamp (sNumber s + 1) (HH env x) s1"
  have at1: "snap_at env cfg chain H (sNumber s + 1) (HH env x) ?s1"
    using Cons.prems(1) par s1 xH by (intro snap_child [OF xH(1) refl xH(2,3)]) simp_all
  show ?case
  proof (cases "hs = []")
    case True
    with rest at1 ln show ?thesis by (simp add: apply_headers_def returnS_def)
  next
    case False
    have "apply_headers (ops env) cfg hs ?s1 c1 = (Inr (stamp (sNumber s + 1) (HH env x) snap), cache')"
      using foldS_stamp [OF linked_sub [OF ln] Cons.prems(5) c1(2)] rest by simp
    from Cons.IH [OF _ ln _ False Cons.prems(5) c1(2) this] at1 Cons.prems(3) show ?thesis
      by (simp add: add.assoc)
  qed
qed simp

lemma apply_headers_sound:
  assumes "trusted cr H" "set hs \<subseteq> H" "sig_sound cr H cache"
  shows "sig_sound cr H (snd (apply_headers cr cfg hs s cache))"
  using assms
proof (induction hs arbitrary: s cache)
  case (Cons h hs)
  obtain c1 where c1: "apply_header cr cfg h s cache = (header_pure cr cfg h s, c1)" "sig_sound cr H c1"
    using apply_header_pure [of cr H cache h cfg s] Cons.prems by auto
  then show ?case using Cons by (cases "header_pure cr cfg h s") (simp_all add: apply_headers_def bindS_def)
qed (simp add: apply_headers_def returnS_def)

section \<open>The engine\<close>

text \<open>Keccak does not collide on the headers in play, caches forget but do not invent, and \<open>json.Unmarshal\<close> inverts
  \<open>json.Marshal\<close> on snapshots.\<close>

definition env_ok :: "engine_env \<Rightarrow> Header set \<Rightarrow> bool" where
  "env_ok env H \<longleftrightarrow> trusted (ops env) H
     \<and> (\<forall>m k s. gget (evict_recents env m) k = Some s \<longrightarrow> gget m k = Some s)
     \<and> (\<forall>s b. json_Marshal env s = Some b \<longrightarrow> json_Unmarshal env b = Some s)"

lemma env_okD:
  assumes "env_ok env H"
  shows "trusted (ops env) H" "gget (evict_recents env m) k = Some s \<Longrightarrow> gget m k = Some s"
    "json_Marshal env s = Some b \<Longrightarrow> json_Unmarshal env b = Some s"
    "x \<in> H \<Longrightarrow> y \<in> H \<Longrightarrow> HH env x = HH env y \<Longrightarrow> x = y"
  using assms trustedD(2) unfolding env_ok_def by blast+

text \<open>The chain returns the headers it is asked for, and its genesis block has number 0; these are among the
  headers in play.  Nothing is said about the other ones.\<close>

definition chain_ok :: "engine_env \<Rightarrow> ChainReader \<Rightarrow> Header set \<Rightarrow> bool" where
  "chain_ok env chain H \<longleftrightarrow>
     (\<forall>h n x. GetHeader chain h n = Some x \<longrightarrow> x \<in> H \<and> HH env x = h \<and> header_number x = Inr n)
     \<and> (\<forall>g. GetHeaderByNumber chain 0 = Some g \<longrightarrow> hNumber g = Some 0 \<and> g \<in> H)"

lemma chain_okD:
  assumes "chain_ok env chain H"
  shows "GetHeader chain h n = Some x \<Longrightarrow> x \<in> H \<and> HH env x = h \<and> header_number x = Inr n"
    and "GetHeaderByNumber chain 0 = Some g \<Longrightarrow> hNumber g = Some 0"
    and "GetHeaderByNumber chain 0 = Some g \<Longrightarrow> g \<in> H"
    and "GetHeaderByNumber chain 0 = Some g \<Longrightarrow> header_number g = Inr 0"
  using assms unfolding chain_ok_def by (auto simp: header_number_def big_Uint64_def)

text \<open>What the engine puts into its caches and its database: the snapshot of a block under the hash of that
  block.  A new engine with an empty database has this property, and every operation keeps it.\<close>

definition held :: "engine_env \<Rightarrow> CliqueConfig \<Rightarrow> ChainReader \<Rightarrow> Header set \<Rightarrow> hash \<Rightarrow> Snapshot \<Rightarrow> bool" where
  "held env cfg chain H h s \<longleftrightarrow> snap_at env cfg chain H (sNumber s) h s \<and> sHash s = h"

definition engine_ok :: "engine_env \<Rightarrow> ChainReader \<Rightarrow> Header set \<Rightarrow> Clique \<Rightarrow> bool" where
  "engine_ok env chain H c \<longleftrightarrow> sig_sound (ops env) H (signatures c)
     \<and> (\<forall>h s. gget (recents c) h = Some s \<longrightarrow> held env (config c) chain H h s)
     \<and> (\<forall>h b s. gget (db c) (snapshot_key h) = Some b \<longrightarrow> json_Unmarshal env b = Some s \<longrightarrow> held env (config c) chain H h s)"

lemma engine_ok_New: "engine_ok env chain H (Clique_New cfg [])"
  by (simp add: engine_ok_def Clique_New_def)

lemma snapshot_key_inj: "snapshot_key h = snapshot_key h' \<longleftrightarrow> h = h'"
  by (simp add: snapshot_key_def word_bytes_inj)

lemma loadSnapshot_held:
  "engine_ok env chain H c \<Longrightarrow> loadSnapshot env h c = Inr s \<Longrightarrow> held env (config c) chain H h s"
  unfolding engine_ok_def loadSnapshot_def by (auto split: option.splits if_splits)

text \<open>A store keeps the invariant, whether it succeeds or not.\<close>

lemma Snapshot_store_ok:
  assumes "env_ok env H" "engine_ok env chain H c" "held env (config c) chain H (sHash s) s"
    and "Snapshot_store env s c = (res, c')"
  shows "engine_ok env chain H c' \<and> config c' = config c"
proof (cases "json_Marshal env s")
  case (Some b)
  have "held env (config c) chain H h t"
    if "gget (gput (db c) (snapshot_key (sHash s)) b) (snapshot_key h) = Some b'" "json_Unmarshal env b' = Some t" for h b' t
    using that assms(2,3) env_okD(3) [OF assms(1) Some]
    by (auto simp: gget_gput snapshot_key_inj engine_ok_def split: if_splits)
  with Some assms(2,4) show ?thesis by (auto simp: Snapshot_store_def engine_ok_def split: if_splits)
qed (use assms in \<open>auto simp: Snapshot_store_def\<close>)

lemma VerifyHeader_genesis:
  assumes "hNumber g = Some 0"
  shows "snd (vg env chain g c) = c" "fst (vg env chain g c) \<noteq> Inl Unresolved"
proof -
  have n: "header_number g = Inr 0" using assms by (simp add: header_number_def big_Uint64_def)
  have cf: "\<exists>r. verifyCascadingFields f env chain g [] c = (r, c) \<and> r \<noteq> Inl Unresolved" for f
    using n by (cases "Time g") (auto simp: verifyCascadingFields_def need_def)
  have vs: "verifySeal f env chain g [] c = (Inr (), c)" for f using n by (simp add: verifySeal_def returnS_def)
  have vh: "verifyHeader env chain (config c) g \<noteq> Inl Unresolved"
    using assms by (simp add: verifyHeader_def verifyForkHashes_def Let_def)
  from cf obtain r where r: "verifyCascadingFields (VerifyHeader 0 env chain) env chain g [] c = (r, c)" "r \<noteq> Inl Unresolved"
    by blast
  show "snd (vg env chain g c) = c"
    using vs r(1) by (cases "verifyHeader env chain (config c) g"; cases r) (simp_all add: vg_def bindS_def)
  show "fst (vg env chain g c) \<noteq> Inl Unresolved"
    using vs r vh by (cases "verifyHeader env chain (config c) g"; cases r) (simp_all add: vg_def bindS_def)
qed

text \<open>What \<open>snapshot\<close> returns when it is asked for block \<open>number\<close> with hash \<open>h\<close>: the snapshot of the block with that
  hash, or at number 0 that of genesis.\<close>

definition found :: "engine_env \<Rightarrow> CliqueConfig \<Rightarrow> ChainReader \<Rightarrow> Header set \<Rightarrow> u64 \<Rightarrow> hash \<Rightarrow> Snapshot \<Rightarrow> bool" where
  "found env cfg chain H number h s \<longleftrightarrow>
     snap_at env cfg chain H (sNumber s) h s \<and> (sHash s = h \<or> number = 0 \<and> sNumber s = 0)"

lemma held_found: "held env cfg chain H h s \<Longrightarrow> found env cfg chain H number h s"
  by (simp add: held_def found_def)

lemma found_held: "found env cfg chain H number h s \<Longrightarrow> held env cfg chain H (sHash s) s"
  unfolding held_def found_def using snap_at_0_any by auto

lemma found_number:
  assumes "env_ok env H" "chain_ok env chain H" "found env cfg chain H number h s" "x \<in> H" "HH env x = h" "header_number x = Inr number"
  shows "sNumber s = number"
proof (cases "sNumber s = 0")
  case True
  with assms(3) have "snap_at env cfg chain H 0 h s" by (simp add: found_def)
  then obtain g where g: "GetHeaderByNumber chain 0 = Some g" "sHash s = HH env g" using snap_at_0 by blast
  show ?thesis
  proof (cases "number = 0")
    case False
    with assms(3,5) g(2) have "HH env x = HH env g" by (simp add: found_def)
    then have "x = g" using env_okD(4) [OF assms(1,4) chain_okD(3) [OF assms(2) g(1)]] by blast
    with assms(6) chain_okD(4) [OF assms(2) g(1)] True show ?thesis by simp
  qed (use True in simp)
next
  case False
  from assms(3) have "snap_at env cfg chain H (sNumber s) h s" by (simp add: found_def)
  with False obtain y where "y \<in> H" "HH env y = h" "header_number y = Inr (sNumber s)" by (auto elim: snap_at.cases)
  with env_okD(4) [OF assms(1,4)] assms(5,6) show ?thesis by auto
qed

lemma snapshot_genesis_correct:
  assumes ok: "env_ok env H" "chain_ok env chain H" "engine_ok env chain H c"
    and res: "snapshot_genesis (vg env chain) env chain c = (res, c')"
  shows "engine_ok env chain H c' \<and> config c' = config c
    \<and> (\<forall>s. res = Inr s \<longrightarrow> sNumber s = 0 \<and> snap_at env (config c) chain H 0 h s)"
proof (cases "GetHeaderByNumber chain 0")
  case None
  with res ok show ?thesis by (auto simp: snapshot_genesis_def need_def failS_def)
next
  case (Some g)
  note vgc = VerifyHeader_genesis(1) [OF chain_okD(2) [OF ok(2) Some], of env chain c]
  let ?s = "newGenesisSnapshot 0 (HH env g) (hSigners g) (hVoters g)"
  have at: "snap_at env (config c) chain H 0 k ?s" for k by (rule snap_genesis [OF Some])
  have hs: "held env (config c) chain H (sHash ?s) ?s" using at by (simp add: held_def newGenesisSnapshot_def)
  show ?thesis
  proof (cases "fst (vg env chain g c)")
    case (Inl e)
    with vgc have "vg env chain g c = (Inl e, c)" by (metis prod.collapse)
    with res Some ok show ?thesis by (auto simp: snapshot_genesis_def need_def bindS_def)
  next
    case (Inr u)
    with vgc have v: "vg env chain g c = (Inr u, c)" by (metis prod.collapse)
    obtain r c1 where st: "Snapshot_store env ?s c = (r, c1)" by fastforce
    have "c' = c1" "\<forall>s. res = Inr s \<longrightarrow> s = ?s"
      using res Some v st by (cases r; auto simp: snapshot_genesis_def need_def bindS_def returnS_def Let_def)+
    with Snapshot_store_ok [OF ok(1,3) hs st] at show ?thesis by (auto simp: newGenesisSnapshot_def)
  qed
qed

lemma snapshot_ancestor_correct:
  assumes "chain_ok env chain H" "set parents \<subseteq> H" "snapshot_ancestor env chain number h parents = Inr (x, ps)"
  shows "x \<in> H \<and> HH env x = h \<and> header_number x = Inr number \<and> set ps \<subseteq> H"
proof (cases "parents = []")
  case True
  with assms show ?thesis using chain_okD(1) [OF assms(1)] by (auto simp: snapshot_ancestor_def split: option.splits)
next
  case False
  with assms(3) have "HH env (last parents) = h" "header_number (last parents) = Inr number" "x = last parents" "ps = butlast parents"
    by (cases "header_number (last parents)"; auto simp: snapshot_ancestor_def split: if_splits)+
  with False assms(2) show ?thesis using in_set_butlastD by fastforce
qed

lemma snapshot_search_correct:
  "snapshot_search (vg env chain) env chain number h parents headers c = (res, c') \<Longrightarrow>
    env_ok env H \<Longrightarrow> chain_ok env chain H \<Longrightarrow> set parents \<subseteq> H \<Longrightarrow> engine_ok env chain H c \<Longrightarrow>
    linked env H h (rev headers) target \<Longrightarrow>
    engine_ok env chain H c' \<and> config c' = config c
    \<and> (\<forall>s hs. res = Inr (s, hs) \<longrightarrow> (\<exists>h0 ys. snap_at env (config c) chain H (sNumber s) h0 s \<and> linked env H h0 (rev hs) target
         \<and> hs = headers @ ys \<and> (ys = [] \<longrightarrow> found env (config c) chain H number h s)))"
proof (induction "vg env chain" env chain number h parents headers c rule: snapshot_search.induct)
  case (1 env chain number h parents headers c)
  note run = "1.prems"(1) [unfolded snapshot_search.simps [of _ _ _ number]]
  let ?loaded = "if number mod checkpointInterval = 0 then case loadSnapshot env h c of Inr s \<Rightarrow> Some s | Inl _ \<Rightarrow> None else None"
  have hit: ?case if "res = Inr (s, headers)" "c' = c" "held env (config c) chain H h s" for s
    using that "1.prems"(5,6) held_found [OF that(3)] by (auto simp: held_def)
  show ?case
  proof (cases "gget (recents c) h")
    case (Some s)
    with run have "res = Inr (s, headers)" "c' = c" by simp_all
    moreover have "held env (config c) chain H h s" using Some "1.prems"(5) unfolding engine_ok_def by blast
    ultimately show ?thesis by (rule hit)
  next
    case miss: None
    show ?thesis
    proof (cases ?loaded)
      case (Some s)
      with run miss have r: "res = Inr (s, headers)" "c' = c" by simp_all
      from Some have "loadSnapshot env h c = Inr s" by (auto split: if_splits sum.splits)
      then show ?thesis by (rule hit [OF r loadSnapshot_held [OF "1.prems"(5)]])
    next
      case nodb: None
      show ?thesis
      proof (cases "number = 0")
        case True
        obtain r1 c1 where g: "snapshot_genesis (vg env chain) env chain c = (r1, c1)" by fastforce
        note gc = snapshot_genesis_correct [OF "1.prems"(2,3,5) g, of h]
        have "bindS (snapshot_genesis (vg env chain) env chain) (\<lambda>s. returnS (s, headers)) c = (res, c')"
          using run miss nodb True by simp
        then have "c' = c1" "res = (case r1 of Inl e \<Rightarrow> Inl e | Inr s \<Rightarrow> Inr (s, headers))"
          using g by (cases r1; simp add: bindS_def returnS_def)+
        with gc "1.prems"(6) True show ?thesis by (cases r1) (auto simp: found_def)
      next
        case False
        show ?thesis
        proof (cases "snapshot_ancestor env chain number h parents")
          case (Inl e)
          with run miss nodb False have "res = Inl e" "c' = c" by simp_all
          with "1.prems"(5) show ?thesis by simp
        next
          case (Inr xp)
          obtain x ps where xp: "xp = (x, ps)" by fastforce
          note a = snapshot_ancestor_correct [OF "1.prems"(3,4) Inr [unfolded xp]]
          have rec: "snapshot_search (vg env chain) env chain (number - 1) (ParentHash x) ps (headers @ [x]) c = (res, c')"
            using run miss nodb False Inr xp by simp
          have ln: "linked env H (ParentHash x) (rev (headers @ [x])) target" using "1.prems"(6) a False by simp
          have "set ps \<subseteq> H" using a by blast
          from "1.hyps" [OF miss nodb False Inr xp [symmetric] rec "1.prems"(2,3) this "1.prems"(5) ln] show ?thesis
            by (metis append.assoc append_Cons append_Nil list.distinct(1))
        qed
      qed
    qed
  qed
qed

lemma Snapshot_apply_correct:
  assumes at: "snap_at env cfg chain H (sNumber s) h0 s" and ln: "linked env H h0 hs h"
    and tr: "trusted (ops env) H" "sig_sound (ops env) H cache"
    and res: "Snapshot_apply (ops env) cfg hs s cache = (res, cache')"
  shows "sig_sound (ops env) H cache' \<and> (\<forall>snap. res = Inr snap \<longrightarrow> (if hs = [] then snap = s else held env cfg chain H h snap))"
proof (cases "hs = []")
  case True
  with at ln tr res show ?thesis by (auto simp: Snapshot_apply_def returnS_def)
next
  case False
  note sound = apply_headers_sound [OF tr(1) linked_sub [OF ln] tr(2)]
  have "sig_sound (ops env) H (snd (Snapshot_apply (ops env) cfg hs s cache))"
  proof -
    have *: "sig_sound (ops env) H (snd (bindS (apply_headers (ops env) cfg hs t) f cache))"
      if "\<And>x c. snd (f x c) = c" for t and f :: "Snapshot \<Rightarrow> (sigcache, clique_error, Snapshot) stm"
      using sound [of cfg t] that
      by (cases "apply_headers (ops env) cfg hs t cache"; cases "fst (apply_headers (ops env) cfg hs t cache)")
         (simp_all add: bindS_def)
    show ?thesis using * tr(2) False
      by (cases "check_contiguous hs"; cases "header_number (hd hs)") (simp_all add: Snapshot_apply_def failS_def returnS_def)
  qed
  then have c': "sig_sound (ops env) H cache'" using res by simp
  have "held env cfg chain H h snap" if "res = Inr snap" for snap
  proof -
    from that res False obtain t where t: "numbered (sNumber s) hs" "apply_headers (ops env) cfg hs (Snapshot_copy s) cache = (Inr t, cache')"
      "snap = t\<lparr>sNumber := sNumber t + of_nat (length hs), sHash := HH env (last hs)\<rparr>" by (auto elim: Snapshot_apply_Inr)
    have run: "apply_headers (ops env) cfg hs s cache = (Inr t, cache')"
      using t(2) Snapshot_copy_maps snap_at_ok [OF at] by simp
    have "snap = stamp (sNumber s + of_nat (length hs)) h t"
      using t(3) sNumber_apply_headers [OF run] linked_last [OF ln False] by (simp add: stamp_def)
    with snap_at_replay [OF at ln t(1) False tr run] show ?thesis by (simp add: held_def stamp_def)
  qed
  with c' False show ?thesis by simp
qed

lemma engine_ok_recents:
  assumes "env_ok env H" "engine_ok env chain H c" "held env (config c) chain H (sHash snap) snap"
  shows "engine_ok env chain H (c\<lparr>recents := evict_recents env (gput (recents c) (sHash snap) snap)\<rparr>)"
proof -
  have "held env (config c) chain H k t"
    if "gget (evict_recents env (gput (recents c) (sHash snap) snap)) k = Some t" for k t
    using env_okD(2) [OF assms(1) that] assms(2,3) by (auto simp: gget_gput engine_ok_def split: if_splits)
  with assms(2) show ?thesis by (simp add: engine_ok_def)
qed

theorem Clique_snapshot_correct:
  assumes ok: "env_ok env H" "chain_ok env chain H" "engine_ok env chain H c"
    and args: "set parents \<subseteq> H"
    and res: "Clique_snapshot (vg env chain) env chain number h parents c = (res, c')"
  shows "engine_ok env chain H c' \<and> config c' = config c
    \<and> (\<forall>snap. res = Inr snap \<longrightarrow> found env (config c) chain H number h snap)"
proof -
  note tr = env_okD(1) [OF ok(1)]
  obtain r1 c1 where s1: "snapshot_search (vg env chain) env chain number h parents [] c = (r1, c1)" by fastforce
  note sc = snapshot_search_correct [OF s1 ok(1,2) args ok(3), of h]
  show ?thesis
  proof (cases r1)
    case (Inl e)
    with res s1 have "res = Inl e" "c' = c1" by (simp_all add: Clique_snapshot_def bindS_def)
    with sc show ?thesis by simp
  next
    case (Inr p)
    obtain s hs where p: "p = (s, hs)" by fastforce
    with sc Inr obtain h0 where ok1: "engine_ok env chain H c1" "config c1 = config c"
      and at: "snap_at env (config c) chain H (sNumber s) h0 s" and ln: "linked env H h0 (rev hs) h"
      and none: "hs = [] \<Longrightarrow> found env (config c) chain H number h s" by auto
    obtain r2 sc2 where a: "Snapshot_apply (ops env) (config c) (rev hs) s (signatures c1) = (r2, sc2)" by fastforce
    have ss: "sig_sound (ops env) H (signatures c1)" using ok1(1) by (simp add: engine_ok_def)
    note ac = Snapshot_apply_correct [OF at ln tr ss a]
    let ?c2 = "c1\<lparr>signatures := sc2\<rparr>"
    have ok2: "engine_ok env chain H ?c2" using ok1(1) ac by (simp add: engine_ok_def)
    show ?thesis
    proof (cases r2)
      case (Inl e)
      with res s1 Inr p a ok1(2) have "res = Inl e" "c' = ?c2"
        by (simp_all add: Clique_snapshot_def bindS_def with_signatures_def)
      with ok2 ok1(2) show ?thesis by simp
    next
      case (Inr snap)
      have fnd: "found env (config c) chain H number h snap"
        using ac Inr none held_found by (cases "hs = []") auto
      let ?c3 = "?c2\<lparr>recents := evict_recents env (gput (recents ?c2) (sHash snap) snap)\<rparr>"
      have hd: "held env (config ?c3) chain H (sHash snap) snap" using found_held [OF fnd] ok1(2) by simp
      have ok3: "engine_ok env chain H ?c3" using engine_ok_recents [OF ok(1) ok2] hd by simp
      obtain r4 c4 where st: "Snapshot_store env snap ?c3 = (r4, c4)" by fastforce
      have "(res = Inr snap \<or> (\<exists>e. res = Inl e)) \<and> (c' = ?c3 \<or> c' = c4)"
        using res s1 \<open>r1 = Inr p\<close> p a ok1(2) Inr st
        by (cases r4) (auto simp: Clique_snapshot_def bindS_def with_signatures_def returnS_def Let_def split: if_splits)
      with ok3 Snapshot_store_ok [OF ok(1) ok3 hd st] fnd ok1(2) show ?thesis by auto
    qed
  qed
qed

end
