(* ===== verification/Clique_Consensus.thy ===== *)
theory Clique_Consensus
  imports Clique_Engine_Correct
begin

text \<open>
  What the engine guarantees across nodes (consensus/clique/clique.go): a header it accepts is signed by
  an eligible signer of the snapshot the headers determine, two nodes never disagree on a snapshot, and a
  block a signer prepares and seals is accepted by every other node.
\<close>

section \<open>The snapshot of a block is unique\<close>

lemma snap_at_unique:
  assumes ok: "env_ok env H"
  shows "snap_at env cfg chain H n h s \<Longrightarrow> snap_at env cfg chain H n h t \<Longrightarrow> s = t"
proof (induction arbitrary: t rule: snap_at.induct)
  case (snap_genesis g h)
  then show ?case by (auto elim: snap_at.cases)
next
  case (snap_child x h n s s')
  from snap_child.prems snap_child(4) obtain y s1 s1' where y: "t = stamp n h s1'" "y \<in> H" "HH env y = h"
    "snap_at env cfg chain H (n - 1) (ParentHash y) s1" "header_pure (ops env) cfg y s1 = Inr s1'"
    by (auto elim: snap_at.cases)
  have "y = x" using env_okD(4) [OF ok y(2) snap_child(1)] y(3) snap_child(2) by simp
  with y snap_child.IH snap_child(6) show ?case by auto
qed

lemma u64_pred_less: "(n :: u64) \<noteq> 0 \<Longrightarrow> n - 1 < n"
  by (simp add: word_less_nat_alt unat_pred unat_gt_0)

lemma snap_at_lasts: "snap_at env cfg chain H n h s \<Longrightarrow> lasts_ok n (Signers s)"
proof (induction rule: snap_at.induct)
  case (snap_genesis g)
  then show ?case by (simp add: newGenesisSnapshot_def lasts_ok_gget gmap_ok_foldl_gput gget_foldl_gput)
next
  case (snap_child x h n s s')
  obtain sg where sg: "apply_signed x n sg (if n mod Epoch cfg = 0 then s\<lparr>Votes := [], Tallies := []\<rparr> else s) = Inr s'"
    using snap_child(3,6) by (cases "recover (ops env) x"; cases "Epoch cfg = 0") (simp_all add: header_pure_def)
  have "gmap_ok (Signers s)" using snap_at_ok [OF snap_child(5)] by (simp add: maps_ok_def)
  then have "lasts_ok n (Signers s')"
    using lasts_ok_apply_signed [OF _ _ u64_pred_less [OF snap_child(4)] sg] snap_child.IH by simp
  then show ?case by simp
qed

section \<open>An accepted header is signed by an eligible signer\<close>

definition has_parent :: "engine_env \<Rightarrow> Header set \<Rightarrow> Header \<Rightarrow> u64 \<Rightarrow> bool" where
  "has_parent env H header n \<longleftrightarrow> (\<exists>p \<in> H. HH env p = ParentHash header \<and> header_number p = Inr (n - 1))"

lemma cascading_correct:
  assumes ok: "env_ok env H" "chain_ok env chain H" "engine_ok env chain H c"
    and args: "set parents \<subseteq> H"
    and res: "verifyCascadingFields (vg env chain) env chain header parents c = (res, c')"
  shows "engine_ok env chain H c' \<and> config c' = config c
    \<and> (\<forall>n. res = Inr () \<longrightarrow> header_number header = Inr n \<longrightarrow> n \<noteq> 0 \<longrightarrow> has_parent env H header n)"
proof (cases "Time header")
  case None
  with res ok show ?thesis by (auto simp: verifyCascadingFields_def need_def)
next
  case (Some t)
  show ?thesis
  proof (cases "header_number header")
    case (Inl e)
    with Some res ok show ?thesis by (auto simp: verifyCascadingFields_def need_def split: if_splits)
  next
    case (Inr n)
    let ?p = "if parents \<noteq> [] then Some (last parents) else GetHeader chain (ParentHash header) (n - 1)"
    show ?thesis
    proof (cases ?p)
      case None
      with Some Inr res ok show ?thesis by (auto simp: verifyCascadingFields_def need_def split: if_splits)
    next
      case (Some p)
      have pH: "p \<in> H" using Some args chain_okD(1) [OF ok(2)] by (auto split: if_splits)
      obtain r1 c1 where s1: "Clique_snapshot (vg env chain) env chain (n - 1) (ParentHash header) parents c = (r1, c1)" by fastforce
      note sc = Clique_snapshot_correct [OF ok args s1]
      have "c' = c \<or> c' = c1"
        using res \<open>Time header = Some t\<close> Inr Some s1
        by (cases "header_number p"; cases "Time p"; cases r1)
           (auto simp: verifyCascadingFields_def need_def bindS_def liftS_def failS_def split: if_splits)
      moreover have "res = Inr () \<Longrightarrow> n \<noteq> 0 \<Longrightarrow> header_number p = Inr (n - 1) \<and> HH env p = ParentHash header"
        using res \<open>Time header = Some t\<close> Inr Some
        by (cases "header_number p") (auto simp: verifyCascadingFields_def need_def bindS_def liftS_def failS_def split: if_splits)
      ultimately show ?thesis using sc ok(3) Inr pH unfolding has_parent_def by auto
    qed
  qed
qed

definition sealed_by_eligible ::
    "engine_env \<Rightarrow> CliqueConfig \<Rightarrow> ChainReader \<Rightarrow> Header set \<Rightarrow> Header \<Rightarrow> u64 \<Rightarrow> bool" where
  "sealed_by_eligible env cfg chain H header n \<longleftrightarrow>
     (\<exists>snap signer l d. snap_at env cfg chain H (n - 1) (ParentHash header) snap
        \<and> recover (ops env) header = Inr signer \<and> gget (Signers snap) signer = Some l
        \<and> (l = 0 \<or> nextSignableBlockNumber snap l \<le> n)
        \<and> Difficulty header = Some d \<and> big_Uint64 d = CalcDifficulty (Signers snap) signer)"

lemma author_correct:
  assumes "env_ok env H" "engine_ok env chain H c" "header \<in> H"
    and "with_signatures (ecrecover (ops env) header) c = (res, c')"
  shows "engine_ok env chain H c' \<and> config c' = config c \<and> res = recover (ops env) header"
proof -
  have "trusted (ops env) H" using assms(1) unfolding env_ok_def by blast
  moreover have "sig_sound (ops env) H (signatures c)" using assms(2) unfolding engine_ok_def by blast
  ultimately have *: "trusted (ops env) H" "sig_sound (ops env) H (signatures c)" .
  from ecrecover_recover [OF * assms(3)] obtain sc where
    e: "ecrecover (ops env) header (signatures c) = (recover (ops env) header, sc)" and sc: "sig_sound (ops env) H sc" by blast
  have "res = recover (ops env) header" "c' = c\<lparr>signatures := sc\<rparr>"
    using assms(4) unfolding with_signatures_def e by simp_all
  then show ?thesis using assms(2) sc by (simp add: engine_ok_def)
qed

lemma verifySeal_correct:
  assumes ok: "env_ok env H" "chain_ok env chain H" "engine_ok env chain H c"
    and args: "header \<in> H" "set parents \<subseteq> H" "header_number header = Inr n"
    and res: "verifySeal (vg env chain) env chain header parents c = (res, c')"
  shows "engine_ok env chain H c' \<and> config c' = config c
    \<and> (res = Inr () \<longrightarrow> n \<noteq> 0 \<longrightarrow> has_parent env H header n \<longrightarrow> sealed_by_eligible env (config c) chain H header n)"
proof (cases "n = 0")
  case True
  with res args ok show ?thesis by (auto simp: verifySeal_def returnS_def)
next
  case False
  obtain r1 c1 where s1: "Clique_snapshot (vg env chain) env chain (n - 1) (ParentHash header) parents c = (r1, c1)" by fastforce
  note sc = Clique_snapshot_correct [OF ok args(2) s1]
  show ?thesis
  proof (cases r1)
    case (Inl e)
    with res s1 False args(3) have "res = Inl e" "c' = c1" by (simp_all add: verifySeal_def bindS_def)
    with sc show ?thesis by simp
  next
    case (Inr snap)
    obtain r2 c2 where s2: "with_signatures (ecrecover (ops env) header) c1 = (r2, c2)" by fastforce
    have ok1: "engine_ok env chain H c1" using sc by blast
    note ac = author_correct [OF ok(1) ok1 args(1) s2]
    have st: "c' = c2"
      using res s1 s2 Inr False args(3)
      by (cases r2; cases "Difficulty header")
         (auto simp: verifySeal_def bindS_def failS_def returnS_def need_def liftS_def split: option.splits if_splits)
    have "sealed_by_eligible env (config c) chain H header n" if "res = Inr ()" "has_parent env H header n"
    proof -
      from that res s1 s2 Inr False args(3) obtain signer l d where "r2 = Inr signer" "gget (Signers snap) signer = Some l"
        "\<not> (l > 0 \<and> n < nextSignableBlockNumber snap l)" "Difficulty header = Some d"
        "big_Uint64 d = CalcDifficulty (Signers snap) signer"
        by (cases r2; cases "Difficulty header")
           (auto simp: verifySeal_def bindS_def failS_def returnS_def need_def liftS_def split: option.splits if_splits)
      moreover have fnd: "found env (config c) chain H (n - 1) (ParentHash header) snap" using sc Inr by simp
      then have "sNumber snap = n - 1" using found_number [OF ok(1,2) fnd] that(2) unfolding has_parent_def by blast
      with fnd have "snap_at env (config c) chain H (n - 1) (ParentHash header) snap" by (simp add: found_def)
      moreover have "recover (ops env) header = r2" using ac by simp
      ultimately show ?thesis unfolding sealed_by_eligible_def
        by (metis linorder_not_less word_neq_0_conv)
    qed
    with st ac sc show ?thesis by simp
  qed
qed

lemma verify_one_correct:
  assumes ok: "env_ok env H" "chain_ok env chain H" "engine_ok env chain H c"
    and args: "header \<in> H" "set parents \<subseteq> H"
    and res: "verify_one env chain header parents c = (res, c')"
  shows "engine_ok env chain H c' \<and> config c' = config c
    \<and> (res = Inr () \<longrightarrow> (\<forall>n. header_number header = Inr n \<longrightarrow> n \<noteq> 0 \<longrightarrow>
         sealed_by_eligible env (config c) chain H header n \<and> (\<exists>d. Difficulty header = Some d \<and> big_Uint64 d \<noteq> 0)))"
proof (cases "verifyHeader env chain (config c) header")
  case (Inl e)
  with res ok show ?thesis by (auto simp: verify_one_def bindS_def)
next
  case (Inr u)
  have diff: "\<exists>d. Difficulty header = Some d \<and> big_Uint64 d \<noteq> 0" if "header_number header = Inr n" "n \<noteq> 0" for n
    using Inr that by (auto simp: verifyHeader_def header_number_def Let_def word_neq_0_conv split: option.splits if_splits)
  obtain r1 c1 where s1: "verifyCascadingFields (vg env chain) env chain header parents c = (r1, c1)" by fastforce
  note cc = cascading_correct [OF ok args(2) s1]
  show ?thesis
  proof (cases r1)
    case (Inl e)
    with res s1 \<open>verifyHeader env chain (config c) header = Inr u\<close> have "res = Inl e" "c' = c1"
      by (simp_all add: verify_one_def bindS_def)
    with cc show ?thesis by simp
  next
    case r1: (Inr v)
    with res s1 Inr have s2: "verifySeal (vg env chain) env chain header parents c1 = (res, c')"
      by (simp add: verify_one_def bindS_def)
    obtain n where n: "header_number header = Inr n"
      using Inr by (cases "hNumber header") (simp_all add: verifyHeader_def header_number_def)
    have ok1: "engine_ok env chain H c1" using cc by blast
    note vs = verifySeal_correct [OF ok(1,2) ok1 args n s2]
    have "r1 = Inr ()" using r1 by simp
    with vs cc diff n show ?thesis by auto
  qed
qed

lemma verifyHeaders_correct:
  assumes ok: "env_ok env H" "chain_ok env chain H"
  shows "verifyHeaders env chain parents headers c = (rs, c') \<Longrightarrow> engine_ok env chain H c \<Longrightarrow>
    set parents \<subseteq> H \<Longrightarrow> set headers \<subseteq> H \<Longrightarrow>
    engine_ok env chain H c' \<and> config c' = config c \<and> length rs = length headers
    \<and> (\<forall>i < length headers. rs ! i = Inr () \<longrightarrow> (\<forall>n. header_number (headers ! i) = Inr n \<longrightarrow> n \<noteq> 0 \<longrightarrow>
         sealed_by_eligible env (config c) chain H (headers ! i) n
         \<and> (\<exists>d. Difficulty (headers ! i) = Some d \<and> big_Uint64 d \<noteq> 0)))"
proof (induction headers arbitrary: parents c rs c')
  case (Cons h hs)
  obtain r c1 where one: "verify_one env chain h parents c = (r, c1)" by fastforce
  obtain rs' c2 where rest: "verifyHeaders env chain (parents @ [h]) hs c1 = (rs', c2)" by fastforce
  have e: "rs = r # rs'" "c' = c2" using Cons.prems(1) one rest by simp_all
  have hH: "h \<in> H" "set (parents @ [h]) \<subseteq> H" "set hs \<subseteq> H" using Cons.prems by auto
  note v1 = verify_one_correct [OF ok Cons.prems(2) hH(1) Cons.prems(3) one]
  then have ok1: "engine_ok env chain H c1" by blast
  note vs = Cons.IH [OF rest ok1 hH(2,3)]
  show ?case unfolding e using v1 vs by (auto simp: nth_Cons split: nat.split)
qed simp

section \<open>The engine finds the snapshot whenever the chain has it\<close>

text \<open>Replaying headers one after the other, each the successor of the snapshot it is replayed on.\<close>

fun replays :: "engine_env \<Rightarrow> CliqueConfig \<Rightarrow> Snapshot \<Rightarrow> Header list \<Rightarrow> Snapshot \<Rightarrow> bool" where
  "replays env cfg s [] t \<longleftrightarrow> t = s"
| "replays env cfg s (x # xs) t \<longleftrightarrow> header_number x = Inr (sNumber s + 1)
     \<and> (\<exists>s'. header_pure (ops env) cfg x s = Inr s' \<and> replays env cfg (stamp (sNumber s + 1) (HH env x) s') xs t)"

lemma replays_snoc:
  "replays env cfg s (xs @ [x]) t \<longleftrightarrow> (\<exists>u u'. replays env cfg s xs u \<and> header_number x = Inr (sNumber u + 1)
     \<and> header_pure (ops env) cfg x u = Inr u' \<and> t = stamp (sNumber u + 1) (HH env x) u')"
  by (induction xs arbitrary: s) auto

lemma numbered_snoc: "numbered k (hs @ [x]) \<longleftrightarrow> numbered k hs \<and> header_number x = Inr (k + of_nat (length hs) + 1)"
  by (induction hs arbitrary: k) (simp_all add: add.assoc add.commute)

lemma numbered_contiguous: "numbered k hs \<Longrightarrow> check_contiguous hs = Inr ()"
  by (induction hs arbitrary: k rule: check_contiguous.induct) auto

lemma replays_apply_headers:
  assumes tr: "trusted (ops env) H" and ss: "sig_sound (ops env) H cache"
  shows "replays env cfg s0 hs s \<Longrightarrow> set hs \<subseteq> H \<Longrightarrow>
    numbered (sNumber s0) hs \<and> sNumber s = sNumber s0 + of_nat (length hs)
    \<and> (\<exists>t cache'. apply_headers (ops env) cfg hs s0 cache = (Inr t, cache') \<and> sig_sound (ops env) H cache'
         \<and> stamp (sNumber s) (if hs = [] then sHash s0 else HH env (last hs)) t = s)"
proof (induction hs arbitrary: s rule: rev_induct)
  case Nil
  then show ?case using ss by (simp add: apply_headers_def returnS_def stamp_def)
next
  case (snoc x hs)
  from snoc.prems(1) obtain s1 s' where r: "replays env cfg s0 hs s1" and x: "header_number x = Inr (sNumber s1 + 1)"
    and s': "header_pure (ops env) cfg x s1 = Inr s'" and s: "s = stamp (sNumber s1 + 1) (HH env x) s'"
    by (auto simp: replays_snoc)
  let ?h = "if hs = [] then sHash s0 else HH env (last hs)"
  have sub: "set hs \<subseteq> H" "x \<in> H" using snoc.prems(2) by auto
  from snoc.IH [OF r sub(1)] obtain t c1 where
    n1: "numbered (sNumber s0) hs" "sNumber s1 = sNumber s0 + of_nat (length hs)"
    and t: "apply_headers (ops env) cfg hs s0 cache = (Inr t, c1)" "sig_sound (ops env) H c1"
      "stamp (sNumber s1) ?h t = s1" by blast
  have "map_sum id (stamp (sNumber s1) ?h) (header_pure (ops env) cfg x t) = Inr s'"
    using s' header_pure_stamp t(3) by metis
  then obtain t' where t': "header_pure (ops env) cfg x t = Inr t'" "stamp (sNumber s1) ?h t' = s'"
    by (cases "header_pure (ops env) cfg x t") auto
  obtain c2 where c2: "apply_header (ops env) cfg x t c1 = (Inr t', c2)" "sig_sound (ops env) H c2"
    using apply_header_pure [OF tr t(2) sub(2), of cfg t] t'(1) by auto
  have "apply_headers (ops env) cfg (hs @ [x]) s0 cache = (Inr t', c2)"
    using t(1) c2(1) by (simp add: apply_headers_def foldS_append bindS_def returnS_def)
  moreover have "stamp (sNumber s) (HH env x) t' = s" using s t'(2) by (auto simp: stamp_def)
  moreover have "numbered (sNumber s0) (hs @ [x])" "sNumber s = sNumber s0 + of_nat (length (hs @ [x]))"
    using n1 x s by (simp_all add: numbered_snoc add.assoc add.commute stamp_def)
  ultimately show ?case using c2(2) by auto
qed

lemma Snapshot_apply_replays:
  assumes "trusted (ops env) H" "sig_sound (ops env) H cache" "replays env cfg s0 hs s" "set hs \<subseteq> H" "maps_ok s0"
  shows "\<exists>cache'. Snapshot_apply (ops env) cfg hs s0 cache = (Inr s, cache')"
proof (cases "hs = []")
  case True
  with assms(3) show ?thesis by (simp add: Snapshot_apply_def returnS_def)
next
  case False
  from replays_apply_headers [OF assms(1-4)] False obtain t cache' where n: "numbered (sNumber s0) hs"
    and sn: "sNumber s = sNumber s0 + of_nat (length hs)"
    and t: "apply_headers (ops env) cfg hs s0 cache = (Inr t, cache')" "stamp (sNumber s) (HH env (last hs)) t = s" by auto
  have "header_number (hd hs) = Inr (sNumber s0 + 1)" using n False by (cases hs) simp_all
  moreover have "Snapshot_copy s0 = s0" using Snapshot_copy_maps assms(5) by blast
  moreover have "t\<lparr>sNumber := sNumber t + of_nat (length hs), sHash := HH env (last hs)\<rparr> = s"
    using sNumber_apply_headers [OF t(1)] sn t(2) by (simp add: stamp_def)
  ultimately show ?thesis
    using False numbered_contiguous [OF n] t(1) by (simp add: Snapshot_apply_def bindS_def returnS_def)
qed

text \<open>The chain has the parent of every block it has, its genesis header passes the checks, and the snapshots of
  blocks can be written to the database.\<close>

definition chain_closed :: "ChainReader \<Rightarrow> bool" where
  "chain_closed chain \<longleftrightarrow> (\<forall>h n x. GetHeader chain h n = Some x \<longrightarrow> n \<noteq> 0 \<longrightarrow> GetHeader chain (ParentHash x) (n - 1) \<noteq> None)"

definition genesis_verified :: "engine_env \<Rightarrow> ChainReader \<Rightarrow> CliqueConfig \<Rightarrow> bool" where
  "genesis_verified env chain cfg \<longleftrightarrow>
     (\<forall>g c. GetHeaderByNumber chain 0 = Some g \<longrightarrow> config c = cfg \<longrightarrow> vg env chain g c = (Inr (), c))"

definition storage_ok :: "engine_env \<Rightarrow> CliqueConfig \<Rightarrow> ChainReader \<Rightarrow> Header set \<Rightarrow> bool" where
  "storage_ok env cfg chain H \<longleftrightarrow> (\<forall>n h s. snap_at env cfg chain H n h s \<longrightarrow>
     (\<exists>b. json_Marshal env s = Some b \<and> \<not> db_Put_fails env (snapshot_key (sHash s)) b))"

lemma Snapshot_store_succeeds:
  "storage_ok env cfg chain H \<Longrightarrow> snap_at env cfg chain H n h s \<Longrightarrow> \<exists>c'. Snapshot_store env s c = (Inr (), c')"
  unfolding storage_ok_def Snapshot_store_def by fastforce

lemma held_unique:
  assumes "env_ok env H" "chain_ok env chain H" "GetHeader chain h n = Some x"
    and "held env cfg chain H h s" "snap_at env cfg chain H n h t"
  shows "s = t"
proof -
  have x: "x \<in> H" "HH env x = h" "header_number x = Inr n" using chain_okD(1) [OF assms(2,3)] by auto
  have "sNumber s = n" by (rule found_number [OF assms(1,2) held_found [OF assms(4)] x])
  with assms(4) have "snap_at env cfg chain H n h s" by (simp add: held_def)
  then show ?thesis using snap_at_unique [OF assms(1)] assms(5) by blast
qed

text \<open>One round of the search: a hit, which can only be the snapshot of the block, or a miss.\<close>

lemma search_step:
  assumes "engine_ok env chain H c" "\<And>t. held env (config c) chain H h t \<Longrightarrow> t = s"
  shows "snapshot_search F env chain n h parents headers c = (Inr (s, headers), c)
    \<or> snapshot_search F env chain n h parents headers c =
       (if n = 0 then bindS (snapshot_genesis F env chain) (\<lambda>s. returnS (s, headers)) c
        else case snapshot_ancestor env chain n h parents of
               Inl e \<Rightarrow> (Inl e, c)
             | Inr (header, ps) \<Rightarrow> snapshot_search F env chain (n - 1) (ParentHash header) ps (headers @ [header]) c)"
proof (cases "gget (recents c) h")
  case (Some t)
  then have "held env (config c) chain H h t" using assms(1) unfolding engine_ok_def by blast
  then have "t = s" by (rule assms(2))
  with Some show ?thesis by (simp add: snapshot_search.simps [of F env chain n])
next
  case miss: None
  show ?thesis
  proof (cases "if n mod checkpointInterval = 0 then case loadSnapshot env h c of Inr s \<Rightarrow> Some s | Inl _ \<Rightarrow> None else None")
    case (Some t)
    then have "loadSnapshot env h c = Inr t" by (auto split: if_splits sum.splits)
    then have "t = s" by (rule assms(2) [OF loadSnapshot_held [OF assms(1)]])
    with miss Some show ?thesis by (simp add: snapshot_search.simps [of F env chain n])
  next
    case None
    with miss show ?thesis by (subst (2) snapshot_search.simps) simp
  qed
qed

lemma snapshot_search_complete:
  assumes ok: "env_ok env H" "chain_ok env chain H" "engine_ok env chain H c"
    and st: "chain_closed chain" "genesis_verified env chain (config c)" "storage_ok env (config c) chain H"
  shows "snap_at env (config c) chain H n h s \<Longrightarrow> GetHeader chain h n = Some x \<Longrightarrow>
    \<exists>s0 ys c'. snapshot_search (vg env chain) env chain n h [] headers c = (Inr (s0, headers @ rev ys), c')
      \<and> replays env (config c) s0 ys s \<and> set ys \<subseteq> H \<and> maps_ok s0"
proof (induction arbitrary: headers x rule: snap_at.induct)
  case (snap_genesis g h)
  let ?s = "newGenesisSnapshot 0 (HH env g) (hSigners g) (hVoters g)"
  note at = snap_at.snap_genesis [OF snap_genesis(1), of env "config c" H]
  have "vg env chain g c = (Inr (), c)" using st(2) snap_genesis unfolding genesis_verified_def by blast
  moreover obtain c' where "Snapshot_store env ?s c = (Inr (), c')" using Snapshot_store_succeeds [OF st(3) at] by blast
  ultimately have g: "snapshot_genesis (vg env chain) env chain c = (Inr ?s, c')"
    using snap_genesis by (simp add: snapshot_genesis_def need_def bindS_def returnS_def Let_def)
  then have g0: "bindS (snapshot_genesis (vg env chain) env chain) (\<lambda>s. returnS (s, headers)) c = (Inr (?s, headers), c')"
    by (simp add: bindS_def returnS_def)
  have hit: "t = ?s" if "held env (config c) chain H h t" for t
    using held_unique [OF ok(1,2) snap_genesis(2) that at] .
  show ?case
    using search_step [of env chain H c h "?s" "vg env chain" 0 "[]" headers, OF ok(3) hit] g0 snap_at_ok [OF at] by force
next
  case (snap_child x' h n s s')
  note at = snap_at.snap_child [OF snap_child(1-6)]
  have "x' = x" using env_okD(4) [OF ok(1) snap_child(1)] chain_okD(1) [OF ok(2) snap_child.prems] snap_child(2) by blast
  obtain p where p: "GetHeader chain (ParentHash x) (n - 1) = Some p"
    using st(1) snap_child.prems snap_child(4) unfolding chain_closed_def by blast
  from snap_child.IH [of p "headers @ [x]"] p \<open>x' = x\<close> obtain s0 ys c' where
    rec: "snapshot_search (vg env chain) env chain (n - 1) (ParentHash x) [] (headers @ [x]) c = (Inr (s0, (headers @ [x]) @ rev ys), c')"
    and r: "replays env (config c) s0 ys s" "set ys \<subseteq> H" "maps_ok s0" by blast
  have sn: "sNumber s = n - 1" using snap_at_ok [OF snap_child(5)] by simp
  have r': "replays env (config c) s0 (ys @ [x]) (stamp n h s')"
    using r(1) sn snap_child(2,3,6) \<open>x' = x\<close> by (auto simp: replays_snoc)
  have sub: "set (ys @ [x]) \<subseteq> H" using r(2) snap_child(1) \<open>x' = x\<close> by simp
  have a: "snapshot_ancestor env chain n h [] = Inr (x, [])" using snap_child.prems by (simp add: snapshot_ancestor_def)
  have hit: "t = stamp n h s'" if "held env (config c) chain H h t" for t
    using held_unique [OF ok(1,2) snap_child.prems that at] .
  have run: "snapshot_search (vg env chain) env chain n h [] headers c = (Inr (s0, headers @ rev (ys @ [x])), c')
      \<or> snapshot_search (vg env chain) env chain n h [] headers c = (Inr (stamp n h s', headers), c)"
    using search_step [of env chain H c h "stamp n h s'" "vg env chain" n "[]" headers, OF ok(3) hit] a rec snap_child(4) by auto
  moreover have "maps_ok (stamp n h s')" using snap_at_ok [OF at] by blast
  ultimately show ?case
  proof (elim disjE)
    assume "snapshot_search (vg env chain) env chain n h [] headers c = (Inr (s0, headers @ rev (ys @ [x])), c')"
    with r' sub r(3) show ?thesis by blast
  next
    assume "snapshot_search (vg env chain) env chain n h [] headers c = (Inr (stamp n h s', headers), c)"
    with \<open>maps_ok (stamp n h s')\<close> show ?thesis by (intro exI [of _ "stamp n h s'"] exI [of _ "[]"] exI [of _ c]) simp
  qed
qed

theorem Clique_snapshot_complete:
  assumes ok: "env_ok env H" "chain_ok env chain H" "engine_ok env chain H c"
    and st: "chain_closed chain" "genesis_verified env chain (config c)" "storage_ok env (config c) chain H"
    and x: "GetHeader chain h n = Some x" and at: "snap_at env (config c) chain H n h s"
  shows "\<exists>c'. Clique_snapshot (vg env chain) env chain n h [] c = (Inr s, c')
    \<and> engine_ok env chain H c' \<and> config c' = config c"
proof -
  obtain s0 ys c1 where s1: "snapshot_search (vg env chain) env chain n h [] [] c = (Inr (s0, rev ys), c1)"
    and r: "replays env (config c) s0 ys s" "set ys \<subseteq> H" "maps_ok s0"
    using snapshot_search_complete [OF ok st at x, of "[]"] by auto
  from snapshot_search_correct [OF s1 ok(1,2) _ ok(3), of h] have
    ok1: "engine_ok env chain H c1" "config c1 = config c" by auto
  have ss: "sig_sound (ops env) H (signatures c1)" using ok1(1) unfolding engine_ok_def by blast
  obtain sc where a: "Snapshot_apply (ops env) (config c) ys s0 (signatures c1) = (Inr s, sc)"
    using Snapshot_apply_replays [OF env_okD(1) [OF ok(1)] ss r] by blast
  let ?c3 = "c1\<lparr>signatures := sc, recents := evict_recents env (gput (recents c1) (sHash s) s)\<rparr>"
  obtain c4 where "Snapshot_store env s ?c3 = (Inr (), c4)" using Snapshot_store_succeeds [OF st(3) at] by blast
  then have "\<exists>c'. Clique_snapshot (vg env chain) env chain n h [] c = (Inr s, c')"
    using s1 a ok1(2) by (simp add: Clique_snapshot_def bindS_def with_signatures_def returnS_def Let_def)
  then obtain c' where c': "Clique_snapshot (vg env chain) env chain n h [] c = (Inr s, c')" by blast
  from Clique_snapshot_correct [OF ok _ c'] c' show ?thesis by auto
qed

section \<open>A prepared and sealed block is accepted\<close>

lemma big_Uint64_uint [simp]: "big_Uint64 (uint (d :: u64)) = d"
  by (simp add: big_Uint64_def)

lemma length_ExtraEnsureVanity: "length (ExtraEnsureVanity e) = extraVanity"
  by (simp add: ExtraEnsureVanity_def)

lemma prepare_vote_keeps:
  "ParentHash (prepare_vote pick c s h) = ParentHash h" "hNumber (prepare_vote pick c s h) = hNumber h"
  "UncleHash (prepare_vote pick c s h) = UncleHash h" "Difficulty (prepare_vote pick c s h) = Difficulty h"
  "Nonce h = nonceDropVote \<Longrightarrow> Nonce (prepare_vote pick c s h) \<in> {nonceAuthVote, nonceDropVote}"
  by (auto simp: prepare_vote_def Let_def split: option.split)

text \<open>What \<open>Prepare\<close> leaves in the header, given the snapshot of the parent.\<close>

definition prepared :: "CliqueConfig \<Rightarrow> address \<Rightarrow> Snapshot \<Rightarrow> u64 \<Rightarrow> Header \<Rightarrow> Header \<Rightarrow> int \<Rightarrow> bool" where
  "prepared cfg signer snap n x0 x t \<longleftrightarrow>
     gget (Signers snap) signer \<noteq> None \<and> CalcDifficulty (Signers snap) signer \<noteq> 0 \<and> Epoch cfg \<noteq> 0
     \<and> ParentHash x = ParentHash x0 \<and> hNumber x = hNumber x0 \<and> UncleHash x = UncleHash x0
     \<and> MixDigest x = 0 \<and> Nonce x \<in> {nonceAuthVote, nonceDropVote}
     \<and> Difficulty x = Some (uint (CalcDifficulty (Signers snap) signer)) \<and> Time x = Some t
     \<and> (n mod Epoch cfg = 0 \<longrightarrow> length (Extra x) = extraVanity \<and> Nonce x = nonceDropVote
          \<and> hSigners x = snap_signers snap \<and> hVoters x = snap_voters snap)"

lemma Clique_Prepare_Inr:
  assumes run: "Clique_Prepare pick env chain x0 c = (Inr x, c')" and sg: "c_signer c' \<noteq> 0"
  obtains n snap parent pt where "header_number x0 = Inr n"
    "Clique_snapshot (vg env chain) env chain (n - 1) (ParentHash x0) [] c = (Inr snap, c')"
    "GetHeader chain (ParentHash x0) (n - 1) = Some parent" "Time parent = Some pt"
    "prepared (config c') (c_signer c') snap n x0 x
       (let t = pt + uint (Period (config c')) in if big_Int64 t < now env then now env else t)"
proof -
  obtain n where n: "header_number x0 = Inr n"
    using run by (cases "header_number x0") (simp_all add: Clique_Prepare_def failS_def)
  obtain r c1 where s1: "Clique_snapshot (vg env chain) env chain (n - 1) (ParentHash x0) [] c = (r, c1)" by fastforce
  obtain snap where r: "r = Inr snap"
    using run n s1 by (cases r) (simp_all add: Clique_Prepare_def bindS_def)
  let ?diff = "CalcDifficulty (Signers snap) (c_signer c1)"
  let ?h1 = "x0\<lparr>Nonce := 0, Difficulty := Some (uint ?diff), Extra := ExtraEnsureVanity (Extra x0)\<rparr>"
  let ?h2 = "if n mod Epoch (config c1) \<noteq> 0 then prepare_vote pick c1 snap ?h1
    else ?h1\<lparr>hSigners := snap_signers snap, hVoters := snap_voters snap\<rparr>"
  have c1: "c1 = c'" using run n s1 r
    by (auto simp: Clique_Prepare_def bindS_def liftS_def returnS_def Let_def split: if_splits option.splits sum.splits)
  from run n s1 r c1 sg obtain parent where p: "GetHeader chain (ParentHash x0) (n - 1) = Some parent"
    by (auto simp: Clique_Prepare_def bindS_def Let_def split: if_splits option.splits)
  from run n s1 r c1 sg p obtain pt where pt: "Time parent = Some pt"
    by (cases "Time parent") (auto simp: Clique_Prepare_def bindS_def need_def liftS_def failS_def Let_def split: if_splits)
  from run n s1 r c1 sg p pt
  have "gget (Signers snap) (c_signer c') \<noteq> None" "?diff \<noteq> 0" "Epoch (config c') \<noteq> 0"
    and x: "x = ?h2\<lparr>MixDigest := 0, Time := Some (let t = pt + uint (Period (config c')) in if big_Int64 t < now env then now env else t)\<rparr>"
    by (auto simp: Clique_Prepare_def bindS_def need_def liftS_def returnS_def Let_def split: if_splits)
  moreover have "Nonce ?h1 = nonceDropVote" by (simp add: nonceDropVote_def)
  ultimately have "prepared (config c') (c_signer c') snap n x0 x
       (let t = pt + uint (Period (config c')) in if big_Int64 t < now env then now env else t)"
    using c1 unfolding prepared_def x
    by (simp add: prepare_vote_keeps length_ExtraEnsureVanity nonceDropVote_def) (use prepare_vote_keeps(5) in \<open>force simp: nonceDropVote_def\<close>)
  with that n s1 r c1 p pt show thesis by blast
qed

text \<open>The signing function signs for the address \<open>a\<close>: the signatures it makes recover to \<open>a\<close>.\<close>

definition signs_as :: "crypto \<Rightarrow> (hash \<Rightarrow> bytes option) \<Rightarrow> address \<Rightarrow> bool" where
  "signs_as cr signFn a \<longleftrightarrow> (\<forall>k sig. signFn k = Some sig \<longrightarrow> signatureLength \<le> length sig
     \<and> (\<exists>pk. Ecrecover cr k sig = Some pk \<and> pk \<noteq> [] \<and> BytesToAddress (drop 12 (word_bytes (keccak cr (drop 1 pk)))) = a))"

lemma signs_as_recover:
  assumes "signs_as cr signFn a" "signFn (sigHash (keccak cr) x) = Some sig"
  shows "recover cr (x\<lparr>hSigner := sig\<rparr>) = Inr a"
proof -
  have "sigHash (keccak cr) (x\<lparr>hSigner := sig\<rparr>) = sigHash (keccak cr) x" by (simp add: sigHash_def sigHash_goval_def)
  moreover obtain pk where "Ecrecover cr (sigHash (keccak cr) x) sig = Some pk" "pk \<noteq> []"
    "BytesToAddress (drop 12 (word_bytes (keccak cr (drop 1 pk)))) = a" "\<not> length sig < signatureLength"
    using assms unfolding signs_as_def by (meson not_less)
  ultimately show ?thesis by (simp add: recover_def ecrecover_def Let_def)
qed

lemma Clique_Seal_shape:
  assumes "Clique_Seal signFn stop env chain txs x c = (Inr (Some x'), c')"
  shows "(\<exists>sig. x' = (CopyHeader x)\<lparr>hSigner := sig\<rparr> \<and> signFn (sigHash (keccak (ops env)) (CopyHeader x)) = Some sig)
    \<and> header_number (CopyHeader x) \<noteq> Inr 0"
  using assms
  by (cases "header_number (CopyHeader x)"; cases "Difficulty (CopyHeader x)"; cases "Time (CopyHeader x)")
     (auto simp: Clique_Seal_def bindS_def liftS_def failS_def returnS_def need_def Let_def
       split: if_splits option.splits sum.splits prod.splits)

lemma CopyHeader_prepared: "prepared cfg signer snap n x0 x t \<Longrightarrow> hNumber x0 \<noteq> None \<Longrightarrow> CopyHeader x = x"
  by (auto simp: prepared_def CopyHeader_def)

lemma signable_of_difficulty:
  assumes "lasts_ok k (Signers s)" "gmap_ok (Signers s)" "k < k + 1" "gget (Signers s) g = Some l" "l > 0"
    "CalcDifficulty (Signers s) g \<noteq> 0" "unat k + length (Signers s) + 1 < 2 ^ 64"
  shows "nextSignableBlockNumber s l \<le> k + 1"
proof -
  have u: "unat (k + 1) = unat k + 1" using of_nat_u64_step [of k "length (Signers s)"] assms(7) by auto
  have "\<forall>(a, n) \<in> set (Signers s). n < k + 1" using assms(1,3) by (auto simp: lasts_ok_def intro: order_le_less_trans)
  from difficulty_signable [OF _ this assms(4-6)] assms(1)
  have le: "unat l + length (Signers s) div 2 + 1 \<le> unat k + 1" by (simp add: lasts_ok_def u)
  have "unat (nextSignableBlockNumber s l) = unat l + length (Signers s) div 2 + 1"
    unfolding nextSignableBlockNumber_def Let_def using le assms(7) by (intro unat_next) linarith+
  with le u show ?thesis by (simp add: word_le_nat_alt)
qed

lemma check_members_same [simp]: "check_members e xs xs = Inr ()"
  by (induction xs) simp_all

lemma snap_at_transfer:
  assumes "ops e2 = ops e1" "GetHeaderByNumber chain2 0 = GetHeaderByNumber chain1 0"
  shows "snap_at e1 cfg chain1 H n h s \<Longrightarrow> snap_at e2 cfg chain2 H n h s"
proof (induction rule: snap_at.induct)
  case (snap_genesis g h)
  then show ?case using snap_at.snap_genesis [of chain2 g e2 cfg H h] assms by simp
next
  case (snap_child x h n s s')
  then show ?case using assms(1) by (intro snap_at.snap_child) auto
qed

lemma prepared_time:
  assumes "0 \<le> pt" "pt + uint (p :: u64) < 2 ^ 63" "now env < 2 ^ 63"
    and "t = (let u = pt + uint p in if big_Int64 u < now env then now env else u)"
  shows "big_Uint64 pt + p \<le> big_Uint64 t"
proof -
  have u: "0 \<le> pt + uint p" using assms(1) by simp
  then have "big_Int64 (pt + uint p) = pt + uint p"
    using assms(2) by (rule big_Int64_id)
  with assms(4) have t: "pt + uint p \<le> t" "t < 2 ^ 63" using assms(2,3) by (auto simp: Let_def split: if_splits)
  have id: "uint (word_of_int x :: u64) = x" if "0 \<le> x" "x < 2 ^ 63" for x
    using that by (simp add: uint_word_of_int take_bit_int_eq_self)
  have "big_Uint64 pt + p = word_of_int (pt + uint p)" using assms(1) by (simp add: big_Uint64_def)
  then have "uint (big_Uint64 pt + p) = pt + uint p" using id [OF u assms(2)] by (simp only:)
  moreover have "uint (big_Uint64 t) = t" using t u by (simp add: big_Uint64_def id)
  ultimately show ?thesis using t by (simp add: word_le_def)
qed

lemma verifySeal_accepts:
  assumes ok: "env_ok env H" "chain_ok env chain H" "engine_ok env chain H c"
    and st: "chain_closed chain" "genesis_verified env chain (config c)" "storage_ok env (config c) chain H"
    and x: "header_number x = Inr n" "n \<noteq> 0" "x \<in> H" "GetHeader chain (ParentHash x) (n - 1) = Some p"
    and at: "snap_at env (config c) chain H (n - 1) (ParentHash x) snap"
    and sg: "recover (ops env) x = Inr signer" "gget (Signers snap) signer = Some l"
      "l = 0 \<or> nextSignableBlockNumber snap l \<le> n"
      "Difficulty x = Some (uint (CalcDifficulty (Signers snap) signer))"
  shows "fst (verifySeal (vg env chain) env chain x [] c) = Inr ()"
proof -
  from Clique_snapshot_complete [OF ok st x(4) at] obtain c1 where
    c1: "Clique_snapshot (vg env chain) env chain (n - 1) (ParentHash x) [] c = (Inr snap, c1)" "engine_ok env chain H c1"
    by auto
  obtain r c2 where a: "with_signatures (ecrecover (ops env) x) c1 = (r, c2)" by fastforce
  have r: "r = Inr signer" using author_correct [OF ok(1) c1(2) x(3) a] sg(1) by simp
  have "\<not> (l > 0 \<and> n < nextSignableBlockNumber snap l)" using sg(3) by auto
  then show ?thesis using c1(1) a r x(1,2) sg(2,4) by (auto simp: verifySeal_def bindS_def need_def returnS_def failS_def)
qed

lemma verifyCascadingFields_accepts:
  assumes ok: "env_ok env H" "chain_ok env chain H" "engine_ok env chain H c"
    and st: "chain_closed chain" "genesis_verified env chain (config c)" "storage_ok env (config c) chain H"
    and x: "header_number x = Inr n" "n \<noteq> 0" "Time x = Some t" "t \<le> now env"
    and p: "GetHeader chain (ParentHash x) (n - 1) = Some parent" "Time parent = Some pt"
      "big_Uint64 pt + Period (config c) \<le> big_Uint64 t"
    and at: "snap_at env (config c) chain H (n - 1) (ParentHash x) snap"
    and cp: "Epoch (config c) \<noteq> 0" "n mod Epoch (config c) = 0 \<longrightarrow> hSigners x = snap_signers snap \<and> hVoters x = snap_voters snap"
  shows "\<exists>c'. verifyCascadingFields (vg env chain) env chain x [] c = (Inr (), c') \<and> engine_ok env chain H c'
    \<and> config c' = config c"
proof -
  from Clique_snapshot_complete [OF ok st p(1) at] obtain c1 where
    c1: "Clique_snapshot (vg env chain) env chain (n - 1) (ParentHash x) [] c = (Inr snap, c1)"
    "engine_ok env chain H c1" "config c1 = config c" by auto
  have pn: "header_number parent = Inr (n - 1)" "HH env parent = ParentHash x" using chain_okD(1) [OF ok(2) p(1)] by auto
  let ?m = "\<lambda>k. bindE (check_members errInvalidCheckpointSigners (snap_signers snap) (hSigners x)) (\<lambda>_.
              check_members errInvalidCheckpointVoters (snap_voters snap) (hVoters x))"
  have cm: "n mod Epoch (config c) = 0 \<Longrightarrow> ?m () = Inr ()" using cp(2) by simp
  have "verifyCascadingFields (vg env chain) env chain x [] c = (Inr (), c1)"
    using x p pn c1(1,3) cp(1) cm
    by (simp add: verifyCascadingFields_def need_def bindS_def liftS_def not_less [symmetric])
  with c1 show ?thesis by blast
qed

lemma recover_length: "recover cr x = Inr a \<Longrightarrow> signatureLength \<le> length (hSigner x)"
  by (rule ccontr) (simp add: recover_def ecrecover_def Let_def)

lemma verifyHeader_accepts:
  assumes "header_number x = Inr n" "n \<noteq> 0" "prepared cfg signer snap n x0 x t"
    and "signatureLength \<le> length (hSigner x)" "UncleHash x = CalcUncleHash (keccak (ops env)) []"
    and "verifyForkHashes env (chain_Config chain) x = Inr ()"
    and "n mod Epoch cfg = 0 \<longrightarrow> hVoters x \<noteq> []" "gmap_ok (Signers snap)"
  shows "verifyHeader env chain cfg x = Inr ()"
proof -
  obtain k where k: "hNumber x = Some k" "big_Uint64 k = n"
    using assms(1) by (auto simp: header_number_def split: option.splits)
  have "Signers snap \<noteq> []" using assms(3) by (auto simp: prepared_def gget_def)
  moreover have "set (snap_signers snap) = set (gkeys (Signers snap))" by (simp add: snap_signers_def sort_outer_sort)
  ultimately have "snap_signers snap \<noteq> []" by (auto simp: gkeys_def)
  then have cp: "length (Extra x) = extraVanity \<and> Nonce x = nonceDropVote \<and> hSigners x \<noteq> [] \<and> hVoters x \<noteq> []"
    if "n mod Epoch cfg = 0" using assms(3,7) that unfolding prepared_def by metis
  have f: "Epoch cfg \<noteq> 0" "Nonce x = nonceAuthVote \<or> Nonce x = nonceDropVote" "MixDigest x = 0"
    "Difficulty x = Some (uint (CalcDifficulty (Signers snap) signer))" "CalcDifficulty (Signers snap) signer \<noteq> 0"
    using assms(3) unfolding prepared_def by auto
  show ?thesis
  proof (cases "n mod Epoch cfg = 0")
    case True
    note c = cp [OF True]
    have "\<not> length (hSigners x) < 1" "\<not> length (hVoters x) < 1" using c by (simp_all add: Suc_le_eq)
    with True c f assms(4-6) k show ?thesis by (simp add: verifyHeader_def Let_def)
  next
    case False
    with f assms(4-6) k show ?thesis by (auto simp: verifyHeader_def Let_def)
  qed
qed

lemma prepared_hSigner [simp]: "prepared cfg signer snap n x0 (x\<lparr>hSigner := sig\<rparr>) t = prepared cfg signer snap n x0 x t"
  by (simp add: prepared_def)

text \<open>What the receiving node is: its chain has the parent of the new block and the blocks below it, and
  its genesis header, and its database works.\<close>

definition node_ready :: "engine_env \<Rightarrow> ChainReader \<Rightarrow> Header set \<Rightarrow> Clique \<Rightarrow> bool" where
  "node_ready env chain H c \<longleftrightarrow> env_ok env H \<and> chain_ok env chain H \<and> engine_ok env chain H c \<and> chain_closed chain
     \<and> genesis_verified env chain (config c) \<and> storage_ok env (config c) chain H"

lemma node_readyD:
  assumes "node_ready env chain H c"
  shows "env_ok env H" "chain_ok env chain H" "engine_ok env chain H c" "chain_closed chain"
    "genesis_verified env chain (config c)" "storage_ok env (config c) chain H"
  using assms unfolding node_ready_def by blast+

theorem prepared_accepted:
  assumes node1: "env_ok env1 H" "chain_ok env1 chain1 H" "engine_ok env1 chain1 H c1"
    and node2: "node_ready env2 chain2 H c2" "ops env2 = ops env1" "config c2 = config c1"
      "GetHeaderByNumber chain2 0 = GetHeaderByNumber chain1 0" "GetHeader chain2 (ParentHash x0) (n - 1) = Some parent"
    and run: "Clique_Prepare pick env1 chain1 x0 c1 = (Inr x, c1')"
      "Clique_Seal signFn stop env1 chain1 txs x c1' = (Inr (Some x'), c1'')"
    and sig: "x' \<in> H" "signs_as (ops env1) signFn (c_signer c1')" "c_signer c1' \<noteq> 0"
    and hdr: "UncleHash x0 = CalcUncleHash (keccak (ops env1)) []" "verifyForkHashes env2 (chain_Config chain2) x' = Inr ()"
      "header_number x0 = Inr n" "n mod Epoch (config c1) = 0 \<longrightarrow> hVoters x' \<noteq> []"
    and time: "Time x' = Some t" "t \<le> now env2" "now env1 < 2 ^ 63"
      "\<And>pt. Time parent = Some pt \<Longrightarrow> 0 \<le> pt \<and> pt + uint (Period (config c1)) < 2 ^ 63"
    and bound: "\<And>s. snap_at env1 (config c1) chain1 H (n - 1) (ParentHash x0) s \<Longrightarrow> unat n + length (Signers s) < 2 ^ 64"
  shows "fst (VerifyHeader 2 env2 chain2 x' c2) = Inr ()"
proof -
  note nd = node_readyD [OF node2(1)]
  note n = hdr(3)
  obtain k snap parent1 pt where k: "header_number x0 = Inr k"
    and cs0: "Clique_snapshot (vg env1 chain1) env1 chain1 (k - 1) (ParentHash x0) [] c1 = (Inr snap, c1')"
    and p0: "GetHeader chain1 (ParentHash x0) (k - 1) = Some parent1" "Time parent1 = Some pt"
    and pr0: "prepared (config c1') (c_signer c1') snap k x0 x
       (let t = pt + uint (Period (config c1')) in if big_Int64 t < now env1 then now env1 else t)"
    by (rule Clique_Prepare_Inr [OF run(1) sig(3)])
  have kn: "k = n" using k n by simp
  note cs = cs0 [unfolded kn]
  have ph: "parent1 \<in> H" "HH env1 parent1 = ParentHash x0" "header_number parent1 = Inr (n - 1)"
    using chain_okD(1) [OF node1(2) p0(1)] kn by auto
  have "parent \<in> H" "HH env2 parent = ParentHash x0" using chain_okD(1) [OF nd(2) node2(5)] by auto
  then have p: "Time parent = Some pt" using env_okD(4) [OF node1(1) ph(1)] ph(2) p0(2) node2(2) by simp
  define u where u: "u = (let t = pt + uint (Period (config c1')) in if big_Int64 t < now env1 then now env1 else t)"
  have pr: "prepared (config c1') (c_signer c1') snap n x0 x u" using pr0 unfolding u kn .
  have "hNumber x0 \<noteq> None" using n by (auto simp: header_number_def split: option.splits)
  then have cp: "CopyHeader x = x" using CopyHeader_prepared [OF pr] by blast
  with Clique_Seal_shape [OF run(2)] obtain sg where x': "x' = x\<lparr>hSigner := sg\<rparr>"
    "signFn (sigHash (keccak (ops env1)) x) = Some sg" and nz0: "header_number x \<noteq> Inr 0" by auto
  have rec: "recover (ops env2) x' = Inr (c_signer c1')" using signs_as_recover [OF sig(2) x'(2)] x'(1) node2(2) by simp
  have pr': "prepared (config c1') (c_signer c1') snap n x0 x' u" using pr x' by simp
  have par: "ParentHash x' = ParentHash x0" and num: "header_number x' = Inr n" and nz: "n \<noteq> 0"
    using pr n nz0 x' by (simp_all add: prepared_def header_number_def)
  from Clique_snapshot_correct [OF node1 _ cs]
  have fnd: "found env1 (config c1) chain1 H (n - 1) (ParentHash x0) snap" and cfg: "config c1' = config c1" by auto
  have sn: "sNumber snap = n - 1" by (rule found_number [OF node1(1,2) fnd ph])
  have at1: "snap_at env1 (config c1) chain1 H (n - 1) (ParentHash x0) snap" using fnd sn by (simp add: found_def)
  have at2: "snap_at env2 (config c2) chain2 H (n - 1) (ParentHash x') snap"
    using snap_at_transfer [OF node2(2,4) at1] node2(3) par by simp
  have tt: "u = t" using pr' time(1) by (simp add: prepared_def)
  have pl: "big_Uint64 pt + Period (config c2) \<le> big_Uint64 t"
    using prepared_time [OF _ _ time(3) u] time(4) [OF p] cfg node2(3) tt by simp
  have gm: "gmap_ok (Signers snap)" using snap_at_ok [OF at1] by (simp add: maps_ok_def)
  have vh: "verifyHeader env2 chain2 (config c2) x' = Inr ()"
  proof (rule verifyHeader_accepts [OF num nz _ recover_length [OF rec] _ hdr(2) _ gm])
    show "prepared (config c2) (c_signer c1') snap n x0 x' u" using pr' cfg node2(3) by simp
    then show "UncleHash x' = CalcUncleHash (keccak (ops env2)) []" using hdr(1) node2(2) by (simp add: prepared_def)
    show "n mod Epoch (config c2) = 0 \<longrightarrow> hVoters x' \<noteq> []" using hdr(4) node2(3) by simp
  qed
  have px: "GetHeader chain2 (ParentHash x') (n - 1) = Some parent" using node2(5) par by simp
  obtain c3 where c3: "verifyCascadingFields (vg env2 chain2) env2 chain2 x' [] c2 = (Inr (), c3)"
    "engine_ok env2 chain2 H c3" "config c3 = config c2"
    using verifyCascadingFields_accepts [OF nd num nz time(1,2) px p pl at2] pr' cfg node2(3)
    by (auto simp: prepared_def)
  have "l = 0 \<or> nextSignableBlockNumber snap l \<le> n" if "gget (Signers snap) (c_signer c1') = Some l" for l
  proof (cases "l = 0")
    case False
    have "unat n \<noteq> 0" using nz by (simp add: unat_eq_zero)
    then have "unat (n - 1) + length (Signers snap) + 1 < 2 ^ 64" using bound [OF at1] unat_pred [OF nz] by linarith
    then show ?thesis
      using signable_of_difficulty [OF snap_at_lasts [OF at1] gm _ that] pr False u64_pred_less [OF nz]
      by (simp add: prepared_def word_neq_0_conv)
  qed simp
  then have "fst (verifySeal (vg env2 chain2) env2 chain2 x' [] c3) = Inr ()"
    using verifySeal_accepts [OF nd(1,2) c3(2) nd(4) _ _ num nz sig(1) px _ rec] nd(5,6) at2 c3(3) pr' by (auto simp: prepared_def)
  then show ?thesis using vh c3(1) by (simp add: numeral_2_eq_2 vg_def bindS_def)
qed

section \<open>Fuel\<close>

lemma vg_fuel:
  assumes "\<forall>g. GetHeaderByNumber chain 0 = Some g \<longrightarrow> hNumber g = Some 0"
  shows "snapshot_genesis (VerifyHeader (Suc f) env chain) env chain = snapshot_genesis (vg env chain) env chain"
proof (cases "GetHeaderByNumber chain 0")
  case (Some g)
  with assms have n: "hNumber g = Some 0" "header_number g = Inr 0" by (simp_all add: header_number_def big_Uint64_def)
  have cf: "verifyCascadingFields F env chain g [] = verifyCascadingFields G env chain g []" for F G
    using n by (auto simp: fun_eq_iff verifyCascadingFields_def split: sum.split)
  have vs: "verifySeal F env chain g [] = returnS ()" for F using n by (simp add: verifySeal_def)
  have "VerifyHeader (Suc f) env chain g = vg env chain g"
    using cf [of "VerifyHeader f env chain" "VerifyHeader 0 env chain"] vs by (simp add: vg_def)
  with Some show ?thesis by (simp add: snapshot_genesis_def need_def)
qed (simp add: snapshot_genesis_def need_def)

lemma snapshot_search_cong:
  "snapshot_genesis F env chain = snapshot_genesis G env chain \<Longrightarrow>
   snapshot_search F env chain number h parents headers c = snapshot_search G env chain number h parents headers c"
proof (induction F env chain number h parents headers c rule: snapshot_search.induct)
  case (1 F env chain number h parents headers c)
  show ?case
    unfolding snapshot_search.simps [of _ _ _ number]
    using 1 by (auto split: option.split sum.split prod.split)
qed

theorem VerifyHeader_fuel:
  assumes "\<forall>g. GetHeaderByNumber chain 0 = Some g \<longrightarrow> hNumber g = Some 0"
  shows "VerifyHeader (Suc (Suc f)) env chain header = VerifyHeader 2 env chain header"
proof -
  have cs: "Clique_snapshot (VerifyHeader (Suc f) env chain) env chain n h ps = Clique_snapshot (vg env chain) env chain n h ps" for n h ps
    using snapshot_search_cong [OF vg_fuel [OF assms]] unfolding Clique_snapshot_def bindS_def by (simp add: fun_eq_iff)
  have "verifyCascadingFields (VerifyHeader (Suc f) env chain) env chain header [] = verifyCascadingFields (vg env chain) env chain header []"
    by (rule ext) (unfold verifyCascadingFields_def cs, rule refl)
  moreover have "verifySeal (VerifyHeader (Suc f) env chain) env chain header [] = verifySeal (vg env chain) env chain header []"
    by (unfold verifySeal_def cs) (rule refl)
  ultimately show ?thesis by (simp only: numeral_2_eq_2 vg_def One_nat_def VerifyHeader.simps(2) [of "Suc _"])
qed

text \<open>With that fuel the model never reports that it ran out: every other step of the engine ends by itself.\<close>

definition resolved :: "('s \<Rightarrow> (clique_error + 'a) \<times> 's) \<Rightarrow> bool" where
  "resolved m \<longleftrightarrow> (\<forall>s. fst (m s) \<noteq> Inl Unresolved)"

lemma resolved_bindS: "resolved m \<Longrightarrow> (\<And>x. resolved (k x)) \<Longrightarrow> resolved (bindS m k)"
proof (unfold resolved_def, intro allI)
  fix s
  assume m: "\<forall>s. fst (m s) \<noteq> Inl Unresolved" and k: "\<And>x. \<forall>s. fst (k x s) \<noteq> Inl Unresolved"
  obtain r s' where "m s = (r, s')" by fastforce
  moreover from this m have "r \<noteq> Inl Unresolved" by (metis fst_conv)
  ultimately show "fst (bindS m k s) \<noteq> Inl Unresolved" using k by (cases r) (simp_all add: bindS_def)
qed

lemma resolved_simps [simp]: "resolved (returnS x)" "resolved (failS e) \<longleftrightarrow> e \<noteq> Unresolved" "resolved (liftS r) \<longleftrightarrow> r \<noteq> Inl Unresolved"
  by (auto simp: resolved_def returnS_def failS_def liftS_def)

lemma pure_resolved [simp]: "header_number x \<noteq> Inl Unresolved" "need y \<noteq> Inl Unresolved" "apply_signed x n g s \<noteq> Inl Unresolved"
  "check_contiguous hs \<noteq> Inl Unresolved" "snapshot_ancestor env chain n h ps \<noteq> Inl Unresolved" "verifyHeader env chain cfg x \<noteq> Inl Unresolved"
  subgoal by (simp add: header_number_def split: option.split)
  subgoal by (simp add: need_def split: option.split)
  subgoal by (auto simp: apply_signed_def apply_vote_def Let_def split: option.split prod.split)
  subgoal by (induction hs rule: check_contiguous.induct) (auto simp: bindE_def header_number_def split: sum.split option.splits)
  subgoal by (auto simp: snapshot_ancestor_def bindE_def header_number_def split: option.splits sum.split)
  subgoal by (auto simp: verifyHeader_def verifyForkHashes_def Let_def split: option.split)
  done

lemma check_members_resolved: "e \<noteq> Unresolved \<Longrightarrow> check_members e xs ys \<noteq> Inl Unresolved"
  by (induction e xs ys rule: check_members.induct) auto

lemma ecrecover_resolved: "resolved (ecrecover cr x)"
  by (auto simp: resolved_def ecrecover_def Let_def split: option.split)

lemma resolved_with_signatures: "resolved m \<Longrightarrow> resolved (with_signatures m)"
  by (simp add: resolved_def with_signatures_def case_prod_beta)

lemma resolved_foldS: "(\<And>x s. resolved (f x s)) \<Longrightarrow> resolved (foldS f xs s)"
  by (induction xs arbitrary: s) (auto intro!: resolved_bindS)

lemma Snapshot_apply_resolved: "resolved (Snapshot_apply cr cfg hs s)"
  unfolding Snapshot_apply_def apply_headers_def apply_header_def Let_def
  by (auto intro!: resolved_bindS resolved_foldS ecrecover_resolved)

lemma snapshot_search_resolved:
  "resolved (snapshot_genesis F env chain) \<Longrightarrow> fst (snapshot_search F env chain n h ps hs c) \<noteq> Inl Unresolved"
proof (induction F env chain n h ps hs c rule: snapshot_search.induct)
  case (1 F env chain n h ps hs c)
  have "resolved (bindS (snapshot_genesis F env chain) (\<lambda>s. returnS (s, hs)))" using "1.prems" by (rule resolved_bindS) simp
  then have "fst (bindS (snapshot_genesis F env chain) (\<lambda>s. returnS (s, hs)) c) \<noteq> Inl Unresolved" unfolding resolved_def by blast
  then show ?case
    unfolding snapshot_search.simps [of _ _ _ n]
    using 1 pure_resolved(5) [of env chain n h ps] by (auto split: option.split sum.splits prod.split)
qed

lemma Clique_snapshot_resolved:
  assumes "resolved (snapshot_genesis F env chain)"
  shows "resolved (Clique_snapshot F env chain n h ps)"
proof -
  have st: "resolved (Snapshot_store env s)" for s by (simp add: resolved_def Snapshot_store_def split: option.split)
  have sg: "resolved (with_signatures (Snapshot_apply (ops env) cfg hs s))" for cfg hs s
    by (rule resolved_with_signatures [OF Snapshot_apply_resolved])
  have fin: "fst (if b then bindS (Snapshot_store env s) (\<lambda>_. returnS s) c else (Inr s, c)) \<noteq> Inl Unresolved" for b s c
  proof -
    have "resolved (bindS (Snapshot_store env s) (\<lambda>_. returnS s))" by (rule resolved_bindS [OF st]) simp
    then show ?thesis by (simp add: resolved_def)
  qed
  show ?thesis
    unfolding Clique_snapshot_def Let_def
  proof (rule resolved_bindS)
    show "resolved (snapshot_search F env chain n h ps [])" using snapshot_search_resolved [OF assms] by (simp add: resolved_def)
    fix p :: "Snapshot \<times> Header list"
    show "resolved (case p of (s, headers) \<Rightarrow> \<lambda>c. bindS (with_signatures (Snapshot_apply (ops env) (config c) (rev headers) s))
       (\<lambda>snap c. if sNumber snap mod checkpointInterval = 0 \<and> 0 < length headers
          then bindS (Snapshot_store env snap) (\<lambda>_. returnS snap) (c\<lparr>recents := evict_recents env (gput (recents c) (sHash snap) snap)\<rparr>)
          else (Inr snap, c\<lparr>recents := evict_recents env (gput (recents c) (sHash snap) snap)\<rparr>)) c)"
    proof -
      have "resolved (bindS (with_signatures (Snapshot_apply (ops env) cfg (rev headers) s))
       (\<lambda>snap c. if sNumber snap mod checkpointInterval = 0 \<and> 0 < length headers
          then bindS (Snapshot_store env snap) (\<lambda>_. returnS snap) (c\<lparr>recents := evict_recents env (gput (recents c) (sHash snap) snap)\<rparr>)
          else (Inr snap, c\<lparr>recents := evict_recents env (gput (recents c) (sHash snap) snap)\<rparr>)))" for cfg headers s
        by (rule resolved_bindS [OF sg]) (use fin in \<open>simp add: resolved_def\<close>)
      then show ?thesis by (auto simp: resolved_def split: prod.split)
    qed
  qed
qed

lemma verifyCascadingFields_resolved:
  assumes "\<And>n h ps. resolved (Clique_snapshot F env chain n h ps)"
  shows "resolved (verifyCascadingFields F env chain x ps)"
proof -
  let ?members = "\<lambda>number snap c. if Epoch (config c) = 0 then (Inl Panic, c)
    else if number mod Epoch (config c) = 0 then
      (bindE (check_members errInvalidCheckpointSigners (snap_signers snap) (hSigners x)) (\<lambda>_.
         check_members errInvalidCheckpointVoters (snap_voters snap) (hVoters x)), c)
    else (Inr (), c)"
  have "bindE (check_members errInvalidCheckpointSigners xs ys) (\<lambda>_. check_members errInvalidCheckpointVoters zs ws) \<noteq> Inl Unresolved" for xs ys zs ws
    using check_members_resolved [of errInvalidCheckpointSigners xs ys] check_members_resolved [of errInvalidCheckpointVoters zs ws]
    by (auto simp: bindE_def split: sum.split)
  then have members: "resolved (?members number snap)" for number snap by (simp add: resolved_def)
  have "resolved (bindS (liftS (header_number parent)) (\<lambda>pn. if b1 pn then failS ErrUnknownAncestor
      else bindS (liftS (need (Time parent))) (\<lambda>ptime. if b2 ptime then failS ErrInvalidTimestamp
        else bindS (Clique_snapshot F env chain (number - 1) (ParentHash x) ps) (?members number))))" for parent b1 b2 number
    by (intro resolved_bindS) (simp_all add: resolved_bindS assms members)
  then have "fst (bindS (liftS (header_number parent)) (\<lambda>pn. if b1 pn then failS ErrUnknownAncestor
      else bindS (liftS (need (Time parent))) (\<lambda>ptime. if b2 ptime then failS ErrInvalidTimestamp
        else bindS (Clique_snapshot F env chain (number - 1) (ParentHash x) ps) (?members number))) c) \<noteq> Inl Unresolved" for parent b1 b2 number c
    unfolding resolved_def by blast
  then show ?thesis
    using pure_resolved(1) [of x] pure_resolved(2) [of "Time x"]
    unfolding resolved_def verifyCascadingFields_def by (auto split: sum.split option.split)
qed

lemma verifySeal_resolved:
  assumes "\<And>n h ps. resolved (Clique_snapshot F env chain n h ps)"
  shows "resolved (verifySeal F env chain x ps)"
proof -
  have "resolved (with_signatures (ecrecover (ops env) x))"
    by (rule resolved_with_signatures [OF ecrecover_resolved])
  then show ?thesis unfolding verifySeal_def by (auto intro!: resolved_bindS assms split: option.split)
qed

theorem VerifyHeader_resolved:
  assumes "\<forall>g. GetHeaderByNumber chain 0 = Some g \<longrightarrow> hNumber g = Some 0"
  shows "resolved (VerifyHeader (Suc (Suc f)) env chain x)"
proof -
  have "resolved (Snapshot_store env s)" for s by (simp add: resolved_def Snapshot_store_def split: option.split)
  moreover have "resolved (vg env chain g)" if "GetHeaderByNumber chain 0 = Some g" for g
    using VerifyHeader_genesis(2) assms that unfolding resolved_def by blast
  ultimately have "resolved (snapshot_genesis (vg env chain) env chain)"
    unfolding snapshot_genesis_def Let_def
    by (cases "GetHeaderByNumber chain 0") (auto intro!: resolved_bindS simp: need_def)
  then have "resolved (Clique_snapshot (VerifyHeader (Suc f) env chain) env chain n h ps)" for n h ps
    by (intro Clique_snapshot_resolved) (simp only: vg_fuel [OF assms])
  moreover have "resolved (\<lambda>c. (verifyHeader env chain (config c) x, c))" by (simp add: resolved_def)
  ultimately show ?thesis
    unfolding VerifyHeader.simps(2) [of "Suc f"]
    by (intro resolved_bindS verifyCascadingFields_resolved verifySeal_resolved)
qed

end
