(* ===== verification/Clique_Runs.thy ===== *)
theory Clique_Runs
  imports Clique_Consensus
begin

text \<open>
  The states of a clique engine (consensus/clique/clique.go, api.go): what is reachable from a new engine by
  any sequence of calls, and that the caches and the database then hold true snapshots only.
\<close>

section \<open>Every state the engine reaches\<close>

text \<open>The steps of a node: its clock, its cache evictions, its disk failures and its chain may change from
  one call to the next, its genesis block, the hash function and the JSON encoding do not.  A restart keeps
  the database.  \<open>GetSigners\<close>, \<open>GetVoters\<close> and \<open>GetSignersAtHash\<close> leave the state that \<open>GetSnapshot\<close> and \<open>GetSnapshotAtHash\<close>
  leave.\<close>

definition same_network :: "engine_env \<Rightarrow> ChainReader \<Rightarrow> Header set \<Rightarrow> engine_env \<Rightarrow> ChainReader \<Rightarrow> bool" where
  "same_network env chain H env' chain' \<longleftrightarrow> ops env' = ops env \<and> json_Unmarshal env' = json_Unmarshal env
     \<and> GetHeaderByNumber chain' 0 = GetHeaderByNumber chain 0 \<and> env_ok env' H \<and> chain_ok env' chain' H"

inductive engine_run :: "engine_env \<Rightarrow> ChainReader \<Rightarrow> Header set \<Rightarrow> CliqueConfig \<Rightarrow> Clique \<Rightarrow> bool"
  for env chain H cfg where
  run_New: "engine_run env chain H cfg (Clique_New cfg [])"
| run_restart: "engine_run env chain H cfg c \<Longrightarrow> engine_run env chain H cfg (Clique_New cfg (db c))"
| run_VerifyHeader: "engine_run env chain H cfg c \<Longrightarrow> same_network env chain H env' chain' \<Longrightarrow> x \<in> H \<Longrightarrow>
    engine_run env chain H cfg (snd (VerifyHeader 2 env' chain' x c))"
| run_VerifyHeaders: "engine_run env chain H cfg c \<Longrightarrow> same_network env chain H env' chain' \<Longrightarrow> set xs \<subseteq> H \<Longrightarrow>
    engine_run env chain H cfg (snd (VerifyHeaders env' chain' xs c))"
| run_Prepare: "engine_run env chain H cfg c \<Longrightarrow> same_network env chain H env' chain' \<Longrightarrow>
    engine_run env chain H cfg (snd (Clique_Prepare pick env' chain' x c))"
| run_Seal: "engine_run env chain H cfg c \<Longrightarrow> same_network env chain H env' chain' \<Longrightarrow>
    engine_run env chain H cfg (snd (Clique_Seal signFn stop env' chain' txs x c))"
| run_Author: "engine_run env chain H cfg c \<Longrightarrow> same_network env chain H env' chain' \<Longrightarrow> x \<in> H \<Longrightarrow>
    engine_run env chain H cfg (snd (Clique_Author env' x c))"
| run_Authorize: "engine_run env chain H cfg c \<Longrightarrow> engine_run env chain H cfg (snd (Clique_Authorize a c))"
| run_GetSnapshot: "engine_run env chain H cfg c \<Longrightarrow> same_network env chain H env' chain' \<Longrightarrow>
    engine_run env chain H cfg (snd (GetSnapshot env' chain' number c))"
| run_GetSnapshotAtHash: "engine_run env chain H cfg c \<Longrightarrow> same_network env chain H env' chain' \<Longrightarrow>
    engine_run env chain H cfg (snd (GetSnapshotAtHash env' chain' h c))"
| run_Propose: "engine_run env chain H cfg c \<Longrightarrow> engine_run env chain H cfg (api_Propose a auth c)"
| run_ProposeVoter: "engine_run env chain H cfg c \<Longrightarrow> engine_run env chain H cfg (api_ProposeVoter a auth c)"
| run_Discard: "engine_run env chain H cfg c \<Longrightarrow> engine_run env chain H cfg (api_Discard a c)"

lemma engine_ok_transfer:
  assumes "same_network env chain H env' chain'"
  shows "engine_ok env' chain' H c = engine_ok env chain H c"
proof -
  have e: "ops env' = ops env" "ops env = ops env'" "GetHeaderByNumber chain' 0 = GetHeaderByNumber chain 0"
    "GetHeaderByNumber chain 0 = GetHeaderByNumber chain' 0" "json_Unmarshal env' = json_Unmarshal env"
    using assms by (simp_all add: same_network_def)
  have "held env' cfg chain' H h s = held env cfg chain H h s" for cfg h s
    unfolding held_def using snap_at_transfer [OF e(1,3)] snap_at_transfer [OF e(2,4)] by blast
  then show ?thesis by (simp add: engine_ok_def e(1,5))
qed

text \<open>What each operation may leave behind: the state it found, or the state after a request for a snapshot.\<close>

definition reads_snapshot :: "engine_env \<Rightarrow> ChainReader \<Rightarrow> 'a engine \<Rightarrow> bool" where
  "reads_snapshot env chain m \<longleftrightarrow>
     (\<forall>c. snd (m c) = c \<or> (\<exists>n h. snd (m c) = snd (Clique_snapshot (vg env chain) env chain n h [] c)))"

definition keeps :: "'a engine \<Rightarrow> bool" where
  "keeps m \<longleftrightarrow> (\<forall>c. snd (m c) = c)"

lemma keeps_simps [simp]: "keeps (returnS x)" "keeps (failS e)" "keeps (liftS r)"
  by (auto simp: keeps_def returnS_def failS_def liftS_def split: sum.split)

lemma keeps_bindS: "keeps m \<Longrightarrow> (\<And>x. keeps (k x)) \<Longrightarrow> keeps (bindS m k)"
  unfolding keeps_def bindS_def by (auto split: prod.split sum.split) (metis snd_conv)+

lemma reads_keeps: "keeps m \<Longrightarrow> reads_snapshot env chain m"
  by (simp add: keeps_def reads_snapshot_def)

lemma reads_bind_keeps: "keeps m \<Longrightarrow> (\<And>x. reads_snapshot env chain (k x)) \<Longrightarrow> reads_snapshot env chain (bindS m k)"
  unfolding keeps_def reads_snapshot_def bindS_def by (auto split: prod.split sum.split) (metis snd_conv)+

lemma reads_bind_snapshot:
  assumes "\<And>s. keeps (k s)"
  shows "reads_snapshot env chain (bindS (Clique_snapshot (vg env chain) env chain n h []) k)"
proof -
  have "snd (bindS (Clique_snapshot (vg env chain) env chain n h []) k c) = snd (Clique_snapshot (vg env chain) env chain n h [] c)" for c
    using assms by (cases "Clique_snapshot (vg env chain) env chain n h [] c"; cases "fst (Clique_snapshot (vg env chain) env chain n h [] c)")
      (simp_all add: bindS_def keeps_def)
  then show ?thesis unfolding reads_snapshot_def by blast
qed

lemma Clique_Prepare_reads: "reads_snapshot env chain (Clique_Prepare pick env chain x)"
  unfolding Clique_Prepare_def
  by (intro reads_bind_keeps reads_bind_snapshot) (auto simp: keeps_def Let_def bindS_def liftS_def returnS_def split: option.split sum.split)

lemma Clique_Seal_reads: "reads_snapshot env chain (Clique_Seal signFn stop env chain txs x)"
proof -
  have k: "reads_snapshot env chain (bindS (Clique_snapshot (vg env chain) env chain n h []) (\<lambda>snap.
      case gget (Signers snap) signer of
        None \<Rightarrow> failS (errNotAuthorized signer)
      | Some l \<Rightarrow> if b snap l then returnS None else bindS (liftS d) (\<lambda>d. bindS (liftS t) (k d))))"
    if "\<And>d t. keeps (k d t)" for n h signer b d t and k :: "int \<Rightarrow> int \<Rightarrow> Header option engine"
    by (rule reads_bind_snapshot) (auto simp: that keeps_bindS split: option.split)
  note read = k [unfolded reads_snapshot_def, rule_format]
  show ?thesis
    unfolding Clique_Seal_def Let_def
    apply (rule reads_bind_keeps, simp)
    apply (unfold reads_snapshot_def, rule allI)
    subgoal for n c
      apply (cases "n = 0 \<or> Period (config c) = 0 \<and> txs = 0")
      subgoal by auto
      subgoal by (simp only: de_Morgan_disj if_False) (rule read, simp split: option.split)
      done
    done
qed

lemma api_reads: "reads_snapshot env chain (GetSnapshot env chain number)" "reads_snapshot env chain (GetSnapshotAtHash env chain k)"
proof -
  have "reads_snapshot env chain (bindS (liftS r) (\<lambda>n. Clique_snapshot (vg env chain) env chain n h []))" for r h
    by (rule reads_bind_keeps) (auto simp: reads_snapshot_def)
  then have a: "reads_snapshot env chain (api_snapshot env chain x)" for x by (simp add: api_snapshot_def)
  show "reads_snapshot env chain (GetSnapshot env chain number)"
    unfolding GetSnapshot_def by (rule reads_bind_keeps) (simp_all add: a)
  show "reads_snapshot env chain (GetSnapshotAtHash env chain k)"
    unfolding GetSnapshotAtHash_def by (auto simp: a reads_keeps split: option.split)
qed

lemma reads_snapshot_ok:
  assumes "reads_snapshot env chain m" "env_ok env H" "chain_ok env chain H" "engine_ok env chain H c"
  shows "engine_ok env chain H (snd (m c)) \<and> config (snd (m c)) = config c"
proof -
  have "engine_ok env chain H (snd (Clique_snapshot (vg env chain) env chain n h [] c))
    \<and> config (snd (Clique_snapshot (vg env chain) env chain n h [] c)) = config c" for n h
    using Clique_snapshot_correct [OF assms(2-4), of "[]" n h "fst (Clique_snapshot (vg env chain) env chain n h [] c)"] by simp
  then show ?thesis using assms(1,4) unfolding reads_snapshot_def by metis
qed

lemma VerifyHeader_one: "VerifyHeader 2 env chain x = verify_one env chain x []"
  by (simp add: numeral_2_eq_2 vg_def verify_one_def)

text \<open>One call on the node's present environment keeps the invariant of the network.\<close>

lemma network_step:
  assumes "same_network env chain H env' chain'" "engine_ok env chain H c \<and> config c = cfg"
    and "env_ok env' H \<Longrightarrow> chain_ok env' chain' H \<Longrightarrow> engine_ok env' chain' H c \<Longrightarrow> engine_ok env' chain' H c' \<and> config c' = config c"
  shows "engine_ok env chain H c' \<and> config c' = cfg"
  using assms engine_ok_transfer [OF assms(1)] by (auto simp: same_network_def)

lemma engine_run_ok: "engine_run env chain H cfg c \<Longrightarrow> engine_ok env chain H c \<and> config c = config (Clique_New cfg [])"
proof (induction rule: engine_run.induct)
  case run_New
  then show ?case by (simp add: engine_ok_New)
next
  case (run_restart c)
  then show ?case by (auto simp: engine_ok_def Clique_New_def)
next
  case (run_VerifyHeader c env' chain' x)
  show ?case
    by (rule network_step [OF run_VerifyHeader(2,4)]) (use verify_one_correct run_VerifyHeader(3) in \<open>simp add: VerifyHeader_one, metis empty_set empty_subsetI prod.collapse\<close>)
next
  case (run_VerifyHeaders c env' chain' xs)
  show ?case
    by (rule network_step [OF run_VerifyHeaders(2,4)]) (use verifyHeaders_correct run_VerifyHeaders(3) in \<open>simp add: VerifyHeaders_def, metis empty_set empty_subsetI prod.collapse\<close>)
next
  case (run_Prepare c env' chain' pick x)
  show ?case by (rule network_step [OF run_Prepare(2,3) reads_snapshot_ok [OF Clique_Prepare_reads]])
next
  case (run_Seal c env' chain' signFn stop txs x)
  show ?case by (rule network_step [OF run_Seal(2,3) reads_snapshot_ok [OF Clique_Seal_reads]])
next
  case (run_Author c env' chain' x)
  show ?case
    by (rule network_step [OF run_Author(2,4)]) (use author_correct run_Author(3) in \<open>simp add: Clique_Author_def, metis prod.collapse\<close>)
next
  case (run_GetSnapshot c env' chain' number)
  show ?case by (rule network_step [OF run_GetSnapshot(2,3) reads_snapshot_ok [OF api_reads(1)]])
next
  case (run_GetSnapshotAtHash c env' chain' h)
  show ?case by (rule network_step [OF run_GetSnapshotAtHash(2,3) reads_snapshot_ok [OF api_reads(2)]])
qed (auto simp: engine_ok_def Clique_Authorize_def api_Propose_def api_ProposeVoter_def api_Discard_def)

end
