(* ===== verification/Clique_Agreement.thy ===== *)
theory Clique_Agreement
  imports Clique_Runs "HOL-Library.Sublist"
begin

text \<open>
  The properties of the clique engine across nodes, with a small network on which each of them applies:
  a genesis block with two signers, and the block the first of them prepares and seals.
\<close>

section \<open>A network of two signers\<close>

definition net_genesis :: Header where
  "net_genesis = sample_header\<lparr>ParentHash := 0, UncleHash := 1, hSigners := [9, 10], hVoters := [9],
     hSigner := replicate 65 0, hNumber := Some 0, Time := Some 1000, Extra := replicate 32 0, Nonce := 0\<rparr>"

definition net_keccak :: "bytes \<Rightarrow> hash" where
  "net_keccak b = (if b = rlp_item (Header_item net_genesis) then 7 else if b = [0xC0] then 1 else 9)"

definition net_ops :: crypto where
  "net_ops = \<lparr>keccak = net_keccak, Ecrecover = \<lambda>_ sig. Some sig, evict_sig = \<lambda>m. m\<rparr>"

definition net_draft :: Header where
  "net_draft = net_genesis\<lparr>ParentHash := 7, hNumber := Some 1, hSigners := [], hVoters := [], hSigner := [], Extra := []\<rparr>"

definition net_block :: Header where
  "net_block = net_draft\<lparr>hSigner := replicate 101 0, Difficulty := Some 2, Time := Some 1010, Extra := replicate 32 0\<rparr>"

text \<open>A header whose number is 0 in 64 bits.\<close>

definition net_impostor :: Header where
  "net_impostor = net_genesis\<lparr>hNumber := Some (2 ^ 64), Difficulty := None, hSigner := replicate 65 1\<rparr>"

text \<open>The snapshots of the two blocks, and a database that encodes them by one byte each.\<close>

abbreviation net_snap :: Snapshot where
  "net_snap \<equiv> newGenesisSnapshot 0 7 [9, 10] [9]"

definition net_next :: Snapshot where
  "net_next = (case header_pure net_ops sample_config net_block net_snap of Inl e \<Rightarrow> net_snap | Inr s \<Rightarrow> stamp 1 9 s)"

definition net_env :: "int \<Rightarrow> engine_env" where
  "net_env t = \<lparr>ops = net_ops, evict_recents = \<lambda>m. m, now = t,
     json_Marshal = \<lambda>s. if s = net_snap then Some [1] else if s = net_next then Some [2] else None,
     json_Unmarshal = \<lambda>b. if b = [1] then Some net_snap else if b = [2] then Some net_next else None,
     db_Get_fails = \<lambda>_. False, db_Put_fails = \<lambda>_ _. False\<rparr>"

definition net_config :: ChainConfig where
  "net_config = \<lparr>ChainId = Some 1, HomesteadBlock = None, EIP150Block = None, EIP150Hash = 0, EIP155Block = None,
     EIP158Block = None, ByzantiumBlock = None\<rparr>"

text \<open>The nodes have the genesis block; the new block is not stored anywhere yet.\<close>

definition net_chain :: ChainReader where
  "net_chain = \<lparr>chain_Config = net_config, CurrentHeader = Some net_genesis,
     GetHeader = \<lambda>h n. if h = 7 \<and> n = 0 then Some net_genesis else None,
     GetHeaderByNumber = \<lambda>n. if n = 0 then Some net_genesis else None,
     GetHeaderByHash = \<lambda>h. if h = 7 then Some net_genesis else None\<rparr>"

definition net_node :: "address \<Rightarrow> Clique" where
  "net_node a = (Clique_New sample_config [])\<lparr>c_signer := a\<rparr>"

abbreviation net_headers :: "Header set" where
  "net_headers \<equiv> {net_genesis, net_block}"

lemmas net_defs = net_genesis_def net_draft_def net_block_def sample_header_def

lemma net_encodable: "encodable net_genesis" "encodable net_block"
  by (simp_all add: net_defs encodable_def natural_def Header_item_def sigHash_item_def
      addresses_item_def big_bytes_def EncodeNonce_def nat_be.simps)

lemma net_fed: "encodable h \<Longrightarrow> rlp_fed (Header_goval h) = rlp_item (Header_item h)"
  by (rule rlp_fed_item [OF ref_encode_Header encodable_length(1)]) (simp_all add: Header_goval_def)

lemma net_hash_genesis: "Header_Hash net_keccak net_genesis = 7"
  by (simp add: Header_Hash_def rlpHash_def net_fed net_encodable net_keccak_def)

lemma rlp_item_nonempty: "rlp_item (Lst (x # xs)) \<noteq> [0xC0]"
proof
  have "rlp_item (Lst []) = [0xC0]" by (simp add: rlp_list_def rlp_head_def)
  moreover assume "rlp_item (Lst (x # xs)) = [0xC0]"
  ultimately have "rlp_item (Lst (x # xs)) = rlp_item (Lst [])" by simp
  then have "Lst (x # xs) = Lst []" using rlp.enc_inj [of "Lst (x # xs)" "Lst []"] \<open>rlp_item (Lst []) = [0xC0]\<close> by simp
  then show False by simp
qed

lemma net_hash_block: "Header_Hash net_keccak net_block = 9"
proof -
  have "net_block \<noteq> net_genesis" by (simp add: net_defs)
  then have "Header_item net_block \<noteq> Header_item net_genesis" using Header_item_inj net_encodable by simp
  then have "rlp_item (Header_item net_block) \<noteq> rlp_item (Header_item net_genesis)"
    using rlp.enc_inj [OF encodable_length(1) encodable_length(1)] net_encodable by simp
  moreover have "rlp_item (Header_item net_block) \<noteq> [0xC0]" unfolding Header_item_def by (rule rlp_item_nonempty)
  ultimately show ?thesis by (simp add: Header_Hash_def rlpHash_def net_fed net_encodable net_keccak_def)
qed

lemma net_uncles: "CalcUncleHash net_keccak [] = 1"
proof -
  have "rlp_fed (GSlice []) = rlp_item (Lst [])"
    by (rule rlp_fed_item) (simp_all add: rlp_list_def rlp_head_def)
  then have "rlp_fed (GSlice []) = [0xC0]" by (simp add: rlp_list_def rlp_head_def)
  moreover have "rlp_item (Header_item net_genesis) \<noteq> [0xC0]" unfolding Header_item_def by (rule rlp_item_nonempty)
  ultimately show ?thesis by (simp add: CalcUncleHash_def rlpHash_def net_keccak_def)
qed

lemma net_hash [simp]: "HH (net_env t) net_genesis = 7" "HH (net_env t) net_block = 9"
  "CalcUncleHash (keccak (ops (net_env t))) [] = 1"
  by (simp_all add: net_env_def net_ops_def net_hash_genesis net_hash_block net_uncles)

lemma net_number [simp]: "header_number net_genesis = Inr 0" "header_number net_block = Inr 1"
  by (simp_all add: header_number_def net_defs big_Uint64_def)

lemma net_ops_env [simp]: "ops (net_env t) = net_ops" "now (net_env t) = t"
  by (simp_all add: net_env_def)

lemma net_env_ok: "env_ok (net_env t) net_headers"
  unfolding env_ok_def trusted_def by (auto simp: net_env_def net_ops_def net_hash_genesis net_hash_block inj_on_def split: if_splits)

lemma net_chain_ok: "chain_ok (net_env t) net_chain net_headers"
proof -
  have "hNumber net_genesis = Some 0" by (simp add: net_defs)
  then show ?thesis unfolding chain_ok_def using net_hash(1) net_number(1) by (auto simp: net_chain_def simp del: net_ops_env split: if_splits)
qed

lemma net_closed: "chain_closed net_chain"
  by (auto simp: chain_closed_def net_chain_def split: if_splits)

lemma net_node_ok: "engine_ok (net_env t) net_chain net_headers (net_node a)"
  by (simp add: engine_ok_def net_node_def Clique_New_def)

lemma net_verify_genesis:
  assumes "1000 \<le> t" "Epoch (config c) \<noteq> 0"
  shows "vg (net_env t) net_chain net_genesis c = (Inr (), c)"
proof -
  have "verifyHeader (net_env t) net_chain (config c) net_genesis = Inr ()"
    using assms(2) net_hash(3) [of t] unfolding verifyHeader_def verifyForkHashes_def
    by (simp add: net_defs net_chain_def net_config_def big_Uint64_def extraVanity_def nonceDropVote_def signatureLength_def Let_def)
  moreover have "verifyCascadingFields F (net_env t) net_chain net_genesis [] c = (Inr (), c)" for F
  proof -
    have "Time net_genesis = Some 1000" "now (net_env t) = t" by (simp_all add: net_defs net_env_def)
    with assms(1) show ?thesis by (simp add: verifyCascadingFields_def need_def)
  qed
  moreover have "verifySeal F (net_env t) net_chain net_genesis [] c = (Inr (), c)" for F
    by (simp add: verifySeal_def returnS_def)
  ultimately show ?thesis by (simp add: vg_def bindS_def)
qed

definition net_synced :: "address \<Rightarrow> Clique" where
  "net_synced a = (net_node a)\<lparr>recents := [(7, net_snap)], db := [(snapshot_key 7, [1])]\<rparr>"

lemma net_genesis_fields: "hSigners net_genesis = [9, 10]" "hVoters net_genesis = [9]"
  "GetHeaderByNumber net_chain 0 = Some net_genesis" "sNumber net_snap = 0" "sHash net_snap = 7"
  by (simp_all add: net_defs net_chain_def newGenesisSnapshot_def)

lemma net_node_fields [simp]: "config (net_node a) = sample_config" "db (net_node a) = []" "recents (net_node a) = []"
  "signatures (net_node a) = []" "proposals (net_node a) = []" "c_signer (net_node a) = a"
  by (simp_all add: net_node_def Clique_New_def sample_config_def)

lemma net_snapshot:
  assumes "1000 \<le> t"
  shows "Clique_snapshot (vg (net_env t) net_chain) (net_env t) net_chain 0 7 [] (net_node a) = (Inr net_snap, net_synced a)"
proof -
  let ?c = "(net_node a)\<lparr>db := [(snapshot_key 7, [1])]\<rparr>"
  have "vg (net_env t) net_chain net_genesis (net_node a) = (Inr (), net_node a)"
    by (rule net_verify_genesis) (simp_all add: assms sample_config_def)
  moreover have "Snapshot_store (net_env t) net_snap (net_node a) = (Inr (), ?c)"
    unfolding Snapshot_store_def by (simp add: net_env_def net_genesis_fields gput_def)
  ultimately have "snapshot_genesis (vg (net_env t) net_chain) (net_env t) net_chain (net_node a) = (Inr net_snap, ?c)"
    unfolding snapshot_genesis_def using net_hash(1) [of t]
    by (simp add: net_genesis_fields need_def bindS_def returnS_def Let_def)
  then have "snapshot_search (vg (net_env t) net_chain) (net_env t) net_chain 0 7 [] [] (net_node a) = (Inr (net_snap, []), ?c)"
    unfolding snapshot_search.simps [of _ _ _ 0]
    by (simp add: bindS_def returnS_def loadSnapshot_def gget_def)
  then show ?thesis
    by (simp add: Clique_snapshot_def bindS_def with_signatures_def Snapshot_apply_def returnS_def Let_def net_synced_def)
       (simp add: net_env_def gput_def newGenesisSnapshot_def)
qed

lemma net_prepare:
  "Clique_Prepare (\<lambda>_. 0) (net_env 1010) net_chain net_draft (net_node 9) = (Inr (net_block\<lparr>hSigner := []\<rparr>), net_synced 9)"
proof -
  have n: "header_number net_draft = Inr 1" "ParentHash net_draft = 7"
    "GetHeader net_chain 7 0 = Some net_genesis" "Time net_genesis = Some 1000"
    by (simp_all add: header_number_def net_defs big_Uint64_def net_chain_def)
  have c: "config (net_synced 9) = sample_config" "c_signer (net_synced 9) = 9" "proposals (net_synced 9) = []"
    by (simp_all add: net_synced_def)
  have s: "gget (Signers net_snap) 9 = Some 0" "CalcDifficulty (Signers net_snap) 9 = 2"
    by (simp_all add: newGenesisSnapshot_def gget_def gput_def CalcDifficulty_def bytes_Compare_word)
  have m: "(1 :: u64) mod Epoch sample_config \<noteq> 0" "Epoch sample_config \<noteq> 0" "Period sample_config = 5"
    by (simp_all add: sample_config_def)
  have i: "big_Int64 1005 = 1005" by (rule big_Int64_id) simp_all
  have v: "prepare_vote (\<lambda>_. 0) (net_synced 9) net_snap h = h" for h by (simp add: prepare_vote_def c)
  show ?thesis
    by (simp add: Clique_Prepare_def n bindS_def net_snapshot c s m v i need_def returnS_def liftS_def Let_def)
       (simp add: net_env_def net_defs ExtraEnsureVanity_def extraVanity_def sample_config_def)
qed



lemma net_genesis_verified: "1000 \<le> t \<Longrightarrow> genesis_verified (net_env t) net_chain sample_config"
  using net_verify_genesis by (auto simp: genesis_verified_def net_genesis_fields sample_config_def)

lemma net_snap_at: "snap_at (net_env t) cfg net_chain net_headers 0 7 net_snap"
  using snap_genesis [of net_chain net_genesis "net_env t" cfg net_headers 7] net_hash(1) [of t]
  by (simp add: net_genesis_fields)

lemma net_storage: "storage_ok (net_env t) sample_config net_chain net_headers"
proof -
  have "s = net_snap \<or> s = net_next" if "snap_at (net_env t) sample_config net_chain net_headers n h s" for n h s
    using that
  proof cases
    case (snap_genesis g)
    then show ?thesis using net_hash(1) [of t] by (simp add: net_genesis_fields)
  next
    case (snap_child x s0 s')
    from snap_child(4,5) have x: "x = net_block" "n = 1" using snap_child(2) by auto
    have "s0 = net_snap" using snap_at_unique [OF net_env_ok net_snap_at] snap_child(6) x by (simp add: net_defs)
    with snap_child(1,3,7) x net_hash(2) [of t] show ?thesis by (simp add: net_next_def)
  qed
  then show ?thesis unfolding storage_ok_def by (auto simp: net_env_def)
qed







section \<open>Properties\<close>

text \<open>
  C23. \<open>snapshot\<close> is sound.  Let the caches and the database of the engine hold what an engine puts
  there (\<open>engine_ok\<close>, which C28 establishes for every state a node can reach), let the chain return the headers it
  is asked for and a genesis block with number 0 (\<open>chain_ok\<close>), let Keccak not collide on the headers in play, the caches only
  forget and JSON decoding invert encoding (\<open>env_ok\<close>).  Then, with any explicit parents, a snapshot returned
  for the hash \<open>h\<close> is that of the block with this hash: the genesis snapshot with every header up to the block
  replayed on it.  It carries the hash \<open>h\<close>, except that at number 0 the genesis snapshot is returned for any
  hash, and the number asked for when a header with that hash and number is in play.  The engine keeps its invariant,
  also when the database fails.
\<close>

theorem snapshot_sound:
  assumes "env_ok env H" "chain_ok env chain H" "engine_ok env chain H c" "set parents \<subseteq> H"
    and "Clique_snapshot (vg env chain) env chain number h parents c = (res, c')"
  shows "engine_ok env chain H c' \<and> config c' = config c
    \<and> (\<forall>snap. res = Inr snap \<longrightarrow> snap_at env (config c) chain H (sNumber snap) h snap
         \<and> (sHash snap = h \<or> number = 0 \<and> sNumber snap = 0)
         \<and> (\<forall>x \<in> H. HH env x = h \<and> header_number x = Inr number \<longrightarrow> sNumber snap = number))"
proof -
  note fn = found_number [OF assms(1,2)]
  from Clique_snapshot_correct [OF assms] show ?thesis using fn unfolding found_def by blast
qed

theorem snapshot_sound_witness:
  "engine_ok (net_env 1000) net_chain net_headers (net_synced 9) \<and> snap_at (net_env 1000) sample_config net_chain net_headers 0 7 net_snap"
  using snapshot_sound [OF net_env_ok net_chain_ok net_node_ok, of "[]" 1000 0 7 9 "Inr net_snap" "net_synced 9"] net_snapshot [of 1000 9]
  by (simp add: net_genesis_fields)

text \<open>
  C24. \<open>snapshot\<close> is complete.  Under the assumptions of C23, let moreover the chain have the parent of
  every block it has, let its genesis header pass verification, and let encoding the snapshots of blocks and
  writing them to the database succeed (\<open>storage_ok\<close>; a failing store makes \<open>snapshot\<close> fail).  Then for every block of the
  chain that has a snapshot the engine returns exactly that one, whatever its caches have kept or evicted
  and whatever reads of the database fail.  Two nodes therefore never disagree on who may sign.
\<close>

theorem snapshot_complete:
  assumes "env_ok env H" "chain_ok env chain H" "engine_ok env chain H c"
    and "chain_closed chain" "genesis_verified env chain (config c)" "storage_ok env (config c) chain H"
    and "GetHeader chain h n = Some x" "snap_at env (config c) chain H n h s"
  shows "fst (Clique_snapshot (vg env chain) env chain n h [] c) = Inr s"
  using Clique_snapshot_complete [OF assms] by auto

theorem snapshot_complete_witness:
  "fst (Clique_snapshot (vg (net_env 1000) net_chain) (net_env 1000) net_chain 0 7 [] (net_node 10)) = Inr net_snap"
  by (rule snapshot_complete [OF net_env_ok net_chain_ok net_node_ok net_closed, of _ _ _ _ net_genesis])
     (simp_all add: net_genesis_verified net_storage net_snap_at, simp add: net_chain_def)





text \<open>
  C25. The mutual recursion of header verification and snapshots ends: a snapshot verifies only the
  genesis header, which asks for no snapshot.  Two rounds are enough for every header and every state of the
  engine: more of them change nothing, and verification returns a result of the code, never the
  mark of exhausted fuel.
\<close>

theorem verification_recursion_is_shallow:
  assumes "\<forall>g. GetHeaderByNumber chain 0 = Some g \<longrightarrow> hNumber g = Some 0"
  shows "VerifyHeader (Suc (Suc f)) env chain header = VerifyHeader 2 env chain header
    \<and> fst (VerifyHeader (Suc (Suc f)) env chain header c) \<noteq> Inl Unresolved"
  using VerifyHeader_fuel [OF assms] VerifyHeader_resolved [OF assms] unfolding resolved_def by blast

theorem verification_recursion_is_shallow_witness:
  "VerifyHeader 5 (net_env 1010) net_chain net_block = VerifyHeader 2 (net_env 1010) net_chain net_block
   \<and> fst (VerifyHeader 5 (net_env 1010) net_chain net_block (net_node 10)) \<noteq> Inl Unresolved"
proof -
  have "\<forall>g. GetHeaderByNumber net_chain 0 = Some g \<longrightarrow> hNumber g = Some 0" by (simp add: net_genesis_fields) (simp add: net_defs)
  note v = verification_recursion_is_shallow [OF this, of 3 "net_env 1010" net_block "net_node 10"]
  have e: "Suc (Suc 3) = (5 :: nat)" by simp
  show ?thesis using v [unfolded e] .
qed

text \<open>
  C28. The caches and the database of an engine hold the snapshots the headers determine, and its signature
  cache the signers that recovery gives, in every state that is reachable from a new engine with an empty
  database by any sequence of header verifications, preparations, seals, queries, proposals and restarts, while the
  clock, the chain, the evictions and the failures of the database change from call to call.
\<close>

theorem reachable_engines_are_consistent:
  assumes "engine_run env chain H cfg c"
  shows "engine_ok env chain H c \<and> config c = config (Clique_New cfg [])"
  by (rule engine_run_ok [OF assms])

theorem reachable_engines_are_consistent_witness:
  "engine_ok (net_env 1010) net_chain net_headers (Clique_New sample_config [(snapshot_key 7, [1])])"
proof -
  let ?run = "engine_run (net_env 1010) net_chain net_headers sample_config"
  have "?run (snd (Clique_Authorize 9 (Clique_New sample_config [])))" by (intro run_Authorize run_New)
  then have "?run (net_node 9)" by (simp add: Clique_Authorize_def net_node_def)
  moreover have "same_network (net_env 1010) net_chain net_headers (net_env 1010) net_chain"
    by (simp only: same_network_def net_env_ok net_chain_ok simp_thms)
  ultimately have "?run (snd (Clique_Prepare (\<lambda>_. 0) (net_env 1010) net_chain net_draft (net_node 9)))" by (rule run_Prepare)
  then have "?run (Clique_New sample_config (db (net_synced 9)))" unfolding net_prepare snd_conv by (rule run_restart)
  from reachable_engines_are_consistent [OF this] show ?thesis by (simp add: net_synced_def)
qed

text \<open>
  C29. A header whose number is 0 modulo \<open>2 ^ 64\<close> is accepted as soon as it passes the standalone checks and
  is not from the future: the code takes it for the genesis block, compares it with nothing, and looks neither at
  its signer nor at its difficulty.
\<close>

theorem number_zero_headers_skip_the_seal:
  assumes "header_number x = Inr 0" "verifyHeader env chain (config c) x = Inr ()" "Time x = Some t" "t \<le> now env"
  shows "VerifyHeader (Suc f) env chain x c = (Inr (), c)"
  using assms by (simp add: verifyCascadingFields_def verifySeal_def need_def bindS_def returnS_def)

theorem number_zero_headers_skip_the_seal_witness:
  "net_impostor \<noteq> net_genesis \<and> VerifyHeader 2 (net_env 1010) net_chain net_impostor (net_node 10) = (Inr (), net_node 10)"
proof
  show "net_impostor \<noteq> net_genesis" by (simp add: net_impostor_def net_defs)
  have "header_number net_impostor = Inr 0" "Time net_impostor = Some 1000" "(1000 :: int) \<le> now (net_env 1010)"
    by (simp_all add: net_impostor_def net_defs header_number_def big_Uint64_def)
  moreover have "verifyHeader (net_env 1010) net_chain (config (net_node 10)) net_impostor = Inr ()"
    using net_hash(3) [of 1010] unfolding verifyHeader_def verifyForkHashes_def
    by (simp add: net_impostor_def net_defs net_chain_def net_config_def sample_config_def big_Uint64_def extraVanity_def
        nonceDropVote_def signatureLength_def Let_def)
  ultimately have "VerifyHeader (Suc 1) (net_env 1010) net_chain net_impostor (net_node 10) = (Inr (), net_node 10)"
    by (intro number_zero_headers_skip_the_seal)
  then show "VerifyHeader 2 (net_env 1010) net_chain net_impostor (net_node 10) = (Inr (), net_node 10)"
    by (simp only: numeral_2_eq_2 One_nat_def)
qed

lemma check_members_cases:
  "e \<noteq> Panic \<Longrightarrow> (check_members e xs ys = Inr () \<longleftrightarrow> prefix xs ys) \<and> (check_members e xs ys = Inl Panic \<longleftrightarrow> strict_prefix ys xs)
     \<and> (check_members e xs ys = Inl e \<longleftrightarrow> parallel xs ys)"
  by (induction e xs ys rule: check_members.induct) (auto simp: strict_prefix_def parallel_def)

text \<open>
  C26. The comparison of a checkpoint header's signer list with the snapshot's accepts exactly the
  lists that start with the snapshot's signers, longer ones included, and indexes out of range
  (a run-time panic) exactly on the lists that stop short of them.
\<close>

theorem checkpoint_lists_compared_by_prefix:
  "(check_members errInvalidCheckpointSigners (snap_signers snap) (hSigners header) = Inr () \<longleftrightarrow> prefix (snap_signers snap) (hSigners header))
   \<and> (check_members errInvalidCheckpointSigners (snap_signers snap) (hSigners header) = Inl Panic \<longleftrightarrow>
        strict_prefix (hSigners header) (snap_signers snap))
   \<and> (check_members errInvalidCheckpointVoters (snap_voters snap) (hVoters header) = Inr () \<longleftrightarrow> prefix (snap_voters snap) (hVoters header))
   \<and> (check_members errInvalidCheckpointVoters (snap_voters snap) (hVoters header) = Inl Panic \<longleftrightarrow>
        strict_prefix (hVoters header) (snap_voters snap))"
  using check_members_cases by simp

end
