(* ===== verification/Big_Math.thy ===== *)
theory Big_Math
  imports Common_Types
begin

text \<open>
  The arithmetic helpers of \<open>common/math\<close> and \<open>common/bytes.go\<close>: 256-bit two's complement on unbounded
  integers, exponentiation by squaring over the machine words of the exponent, bytes of big integers,
  and 64-bit arithmetic that reports overflow.  A \<open>*big.Int\<close> is an \<open>int\<close>; \<open>big_Bits\<close> are its machine
  words (\<open>big.Int.Bits\<close>, 64 bits each, least significant first).
\<close>

section \<open>Machine words of a big integer\<close>

fun nat_Bits :: "nat \<Rightarrow> u64 list" where
  "nat_Bits n = (if n = 0 then [] else of_nat n # nat_Bits (n div 2 ^ 64))"

declare nat_Bits.simps [simp del]

definition big_Bits :: "int \<Rightarrow> u64 list" where
  "big_Bits x = nat_Bits (nat \<bar>x\<bar>)"

fun nat_BitLen :: "nat \<Rightarrow> nat" where
  "nat_BitLen n = (if n = 0 then 0 else Suc (nat_BitLen (n div 2)))"

declare nat_BitLen.simps [simp del]

definition big_BitLen :: "int \<Rightarrow> nat" where
  "big_BitLen x = nat_BitLen (nat \<bar>x\<bar>)"

definition big_Bytes :: "int \<Rightarrow> bytes" where
  "big_Bytes x = nat_be (nat \<bar>x\<bar>)"

definition big_SetBytes :: "bytes \<Rightarrow> int" where
  "big_SetBytes b = int (be_nat b)"

section \<open>\<open>common/math/big.go\<close>\<close>

definition U256 :: "int \<Rightarrow> int" where
  "U256 x = x AND (2 ^ 256 - 1)"

definition S256 :: "int \<Rightarrow> int" where
  "S256 x = (if x < 2 ^ 255 then x else x - 2 ^ 256)"

definition BigMax :: "int \<Rightarrow> int \<Rightarrow> int" where
  "BigMax x y = (if x < y then y else x)"

definition BigMin :: "int \<Rightarrow> int \<Rightarrow> int" where
  "BigMin x y = (if x > y then y else x)"

text \<open>\<open>Exp\<close> returns the result and the value it leaves in its argument \<open>base\<close>.\<close>

primrec exp_word :: "nat \<Rightarrow> u64 \<Rightarrow> int \<times> int \<Rightarrow> int \<times> int" where
  "exp_word 0 word rb = rb"
| "exp_word (Suc i) word rb =
     exp_word i (drop_bit 1 word)
       (if word AND 1 = 1 then U256 (fst rb * snd rb) else fst rb, U256 (snd rb * snd rb))"

definition math_Exp :: "int \<Rightarrow> int \<Rightarrow> int \<times> int" where
  "math_Exp base exponent = foldl (\<lambda>rb word. exp_word 64 word rb) (1, base) (big_Bits exponent)"

definition bigEndianByteAt :: "int \<Rightarrow> nat \<Rightarrow> byte" where
  "bigEndianByteAt bigint n =
     (let words = big_Bits bigint; i = n div 8 in
      if i \<ge> length words then 0 else byte_of (words ! i) (8 * (n mod 8)))"

definition math_Byte :: "int \<Rightarrow> nat \<Rightarrow> nat \<Rightarrow> byte" where
  "math_Byte bigint padlength n = (if n \<ge> padlength then 0 else bigEndianByteAt bigint (padlength - 1 - n))"

primrec read_word :: "nat \<Rightarrow> u64 \<Rightarrow> nat \<times> bytes \<Rightarrow> nat \<times> bytes" where
  "read_word 0 d s = s"
| "read_word (Suc j) d s =
     (if fst s > 0 then read_word j (drop_bit 8 d) (fst s - 1, (snd s)[fst s - 1 := ucast d]) else s)"

definition ReadBits :: "int \<Rightarrow> bytes \<Rightarrow> bytes" where
  "ReadBits bigint buf = snd (foldl (\<lambda>s d. read_word 8 d s) (length buf, buf) (big_Bits bigint))"

definition PaddedBigBytes :: "int \<Rightarrow> nat \<Rightarrow> bytes" where
  "PaddedBigBytes bigint n = (if big_BitLen bigint div 8 \<ge> n then big_Bytes bigint else ReadBits bigint (replicate n 0))"

section \<open>\<open>common/math/integer.go\<close>\<close>

definition MaxUint64 :: u64 where "MaxUint64 = -1"

definition SafeSub :: "u64 \<Rightarrow> u64 \<Rightarrow> u64 \<times> bool" where
  "SafeSub x y = (x - y, x < y)"

definition SafeAdd :: "u64 \<Rightarrow> u64 \<Rightarrow> u64 \<times> bool" where
  "SafeAdd x y = (x + y, y > MaxUint64 - x)"

definition SafeMul :: "u64 \<Rightarrow> u64 \<Rightarrow> u64 \<times> bool" where
  "SafeMul x y = (if x = 0 \<or> y = 0 then (0, False) else (x * y, y > MaxUint64 div x))"

section \<open>\<open>common/bytes.go\<close>\<close>

definition RightPadBytes :: "bytes \<Rightarrow> nat \<Rightarrow> bytes" where
  "RightPadBytes b l = (if l \<le> length b then b else b @ replicate (l - length b) 0)"

definition LeftPadBytes :: "bytes \<Rightarrow> nat \<Rightarrow> bytes" where
  "LeftPadBytes b l = (if l \<le> length b then b else replicate (l - length b) 0 @ b)"

section \<open>What they compute\<close>

lemma U256_mod: "U256 x = x mod 2 ^ 256"
proof -
  have "x AND mask 256 = take_bit 256 x" by (simp add: take_bit_eq_mask)
  then show ?thesis by (simp add: U256_def mask_eq_exp_minus_1 take_bit_eq_mod)
qed

lemma U256_bounds [simp]: "0 \<le> U256 x" "U256 x < 2 ^ 256"
  by (simp_all add: U256_mod)

lemma U256_id [simp]: "0 \<le> x \<Longrightarrow> x < 2 ^ 256 \<Longrightarrow> U256 x = x"
  by (simp add: U256_mod)

lemma U256_word: "U256 x = uint (word_of_int x :: 256 word)"
  by (simp add: U256_mod uint_word_of_int take_bit_eq_mod)

lemma S256_word: "0 \<le> x \<Longrightarrow> x < 2 ^ 256 \<Longrightarrow> S256 x = sint (word_of_int x :: 256 word)"
proof -
  assume x: "0 \<le> x" "x < 2 ^ 256"
  have "uint (word_of_int x :: 256 word) = x" using x by (simp add: uint_word_of_int take_bit_int_eq_self)
  then have "sint (word_of_int x :: 256 word) = signed_take_bit 255 x" by (simp add: sint_uint)
  also have "\<dots> = S256 x"
  proof (cases "x < 2 ^ 255")
    case True
    then show ?thesis using x by (simp add: S256_def signed_take_bit_int_eq_self)
  next
    case False
    have "bit x 255 \<longleftrightarrow> odd (x div 2 ^ 255)" by (simp add: bit_iff_odd)
    moreover have "x div 2 ^ 255 = 1" using False x by (intro int_div_pos_eq [where r = "x - 2 ^ 255"]) auto
    ultimately have b: "bit x 255" by simp
    have "take_bit 256 x = x" using x by (simp add: take_bit_int_eq_self)
    then have "signed_take_bit 255 x = x - 2 ^ 256"
      using b by (simp add: signed_take_bit_eq_take_bit_minus)
    then show ?thesis using False by (simp add: S256_def)
  qed
  finally show ?thesis by simp
qed

lemma and_1_odd: "(w :: u64) AND 1 = 1 \<longleftrightarrow> odd (unat w)"
proof -
  have "odd w \<longleftrightarrow> odd (unat w)" using bit_unsigned_iff [of w 0, where ?'a = nat] by (simp add: bit_0)
  then show ?thesis by (simp add: and_one_eq odd_iff_mod_2_eq_one [of w])
qed

lemma U256_mult: "U256 (U256 x * y) = U256 (x * y)" "U256 (x * U256 y) = U256 (x * y)" "U256 (U256 x ^ n) = U256 (x ^ n)"
  by (simp_all add: U256_mod mod_mult_left_eq mod_mult_right_eq power_mod)

lemma U256_U256 [simp]: "U256 (U256 x) = U256 x"
  by (simp add: U256_mod)

lemma exp_word_spec:
  assumes "U256 r = r" "U256 b = b"
  shows "exp_word k w (r, b) = (U256 (r * b ^ (unat w mod 2 ^ k)), U256 (b ^ (2 ^ k)))"
  using assms
proof (induction k arbitrary: w r b)
  case (Suc k)
  let ?r = "if w AND 1 = 1 then U256 (r * b) else r" and ?d = "unat w div 2 mod 2 ^ k"
  have n: "unat w mod 2 ^ Suc k = unat w mod 2 + 2 * ?d" by (simp add: mod_mult2_eq)
  have "exp_word (Suc k) w (r, b) = exp_word k (drop_bit 1 w) (?r, U256 (b * b))" by simp
  also have "\<dots> = (U256 (?r * U256 (b * b) ^ ?d), U256 (U256 (b * b) ^ (2 ^ k)))"
    using Suc.IH [of ?r "U256 (b * b)" "drop_bit 1 w"] Suc.prems by (simp add: unat_drop_bit_u64)
  also have "U256 (U256 (b * b) ^ (2 ^ k)) = U256 (b ^ (2 ^ Suc k))"
    by (simp add: U256_mult power2_eq_square [symmetric] power_mult [symmetric])
  also have "U256 (?r * U256 (b * b) ^ ?d) = U256 (?r * (b * b) ^ ?d)"
    using U256_mult(2) [of ?r "U256 (b * b) ^ ?d"] U256_mult(2) [of ?r "(b * b) ^ ?d"] by (simp add: U256_mult(3))
  also have "\<dots> = U256 (r * b ^ (unat w mod 2 ^ Suc k))"
  proof -
    have bb: "(b * b) ^ ?d = b ^ (2 * ?d)" by (simp add: power_mult power2_eq_square)
    show ?thesis
    proof (cases "odd (unat w)")
      case True
      then have "unat w mod 2 = 1" by (simp add: odd_iff_mod_2_eq_one)
      with True show ?thesis unfolding n by (simp add: and_1_odd U256_mult bb power_add mult_ac)
    next
      case False
      then have "unat w mod 2 = 0" by (simp add: even_iff_mod_2_eq_zero)
      with False show ?thesis unfolding n by (simp add: and_1_odd bb)
    qed
  qed
  finally show ?case .
qed simp

lemma exp_fold:
  assumes "U256 r = r" "U256 b = b"
  shows "fst (foldl (\<lambda>rb word. exp_word 64 word rb) (r, b) (nat_Bits n)) = U256 (r * b ^ n)"
  using assms
proof (induction n arbitrary: r b rule: nat_Bits.induct)
  case (1 n)
  show ?case
  proof (cases "n = 0")
    case True
    with "1.prems" show ?thesis by (simp add: nat_Bits.simps)
  next
    case False
    have n: "n = n mod 2 ^ 64 + 2 ^ 64 * (n div 2 ^ 64)" by simp
    have u: "unat (of_nat n :: u64) = n mod 2 ^ 64" by (simp add: unat_of_nat)
    have "fst (foldl (\<lambda>rb word. exp_word 64 word rb) (r, b) (nat_Bits n)) =
      fst (foldl (\<lambda>rb word. exp_word 64 word rb) (U256 (r * b ^ (n mod 2 ^ 64)), U256 (b ^ (2 ^ 64))) (nat_Bits (n div 2 ^ 64)))"
      using False by (simp add: nat_Bits.simps [of n] exp_word_spec [OF "1.prems"] u)
    also have "\<dots> = U256 (U256 (r * b ^ (n mod 2 ^ 64)) * U256 (b ^ (2 ^ 64)) ^ (n div 2 ^ 64))"
      by (rule "1.IH") (simp_all add: False)
    also have "\<dots> = U256 (r * b ^ (n mod 2 ^ 64) * (b ^ (2 ^ 64)) ^ (n div 2 ^ 64))"
      using U256_mult(2) [of _ "U256 (b ^ (2 ^ 64)) ^ (n div 2 ^ 64)"] U256_mult(2) [of _ "(b ^ (2 ^ 64)) ^ (n div 2 ^ 64)"]
      by (simp add: U256_mult(1,3))
    also have "\<dots> = U256 (r * b ^ n)"
      by (subst (3) n) (simp only: power_add power_mult mult.assoc)
    finally show ?thesis .
  qed
qed

lemma math_Exp_correct:
  assumes "0 \<le> base" "base < 2 ^ 256" "0 \<le> e"
  shows "fst (math_Exp base e) = U256 (base ^ nat e)"
  using exp_fold [of 1 base "nat e"] assms by (simp add: math_Exp_def big_Bits_def)

lemma nat_Bits_digit:
  "(if i < length (nat_Bits n) then unat (nat_Bits n ! i) else 0) = n div 2 ^ (64 * i) mod 2 ^ 64"
proof (induction n arbitrary: i rule: nat_Bits.induct)
  case (1 n)
  show ?case
  proof (cases "n = 0")
    case True
    then show ?thesis by (simp add: nat_Bits.simps)
  next
    case False
    show ?thesis
    proof (cases i)
      case 0
      with False show ?thesis by (simp add: nat_Bits.simps [of n] unat_of_nat)
    next
      case (Suc j)
      have "n div 2 ^ 64 div 2 ^ (64 * j) = n div 2 ^ (64 * i)" by (simp add: Suc div_mult2_eq [symmetric] power_add)
      with "1.IH" [OF False, of j] False Suc show ?thesis by (auto simp: nat_Bits.simps [of n] split: if_splits)
    qed
  qed
qed

lemma bigEndianByteAt_eq: "bigEndianByteAt x n = of_nat (nat \<bar>x\<bar> div 256 ^ n)"
proof -
  let ?N = "nat \<bar>x\<bar>"
  define i j where "i = n div 8" and "j = n mod 8"
  have "8 * i + j = n" "j < 8" by (simp_all add: i_def j_def)
  then have n: "8 * n = 64 * i + 8 * j" "j < 8" by auto
  have "take_bit 8 (drop_bit (8 * j) (take_bit 64 (drop_bit (64 * i) ?N))) = take_bit 8 (drop_bit (64 * i + 8 * j) ?N)"
    using n(2) by (intro bit_eqI) (auto simp: bit_take_bit_iff bit_drop_bit_eq add_ac)
  then have d: "?N div 2 ^ (64 * i) mod 2 ^ 64 div 2 ^ (8 * j) mod 256 = ?N div 256 ^ n mod 256"
    unfolding n(1) [symmetric] by (simp add: take_bit_eq_mod drop_bit_eq_div power_mult)
  have "unat (bigEndianByteAt x n) = ?N div 2 ^ (64 * i) mod 2 ^ 64 div 2 ^ (8 * j) mod 256"
    using nat_Bits_digit [of i ?N] unat_byte_of
    by (auto simp: bigEndianByteAt_def big_Bits_def i_def [symmetric] j_def [symmetric] Let_def not_less split: if_splits)
  then show ?thesis unfolding d by (simp add: word_unat_eq_iff)
qed

lemma be_fixed_add: "be_fixed (a + b) n = be_fixed a (n div 256 ^ b) @ be_fixed b n"
proof (induction b arbitrary: n)
  case (Suc b)
  have "n div 256 div 256 ^ b = n div 256 ^ Suc b" by (simp add: div_mult2_eq)
  with Suc show ?case by (simp add: be_fixed_Suc)
qed simp

lemma be_fixed_zero: "be_fixed a 0 = replicate a 0"
  by (simp add: be_fixed_def map_replicate_const)

lemma be_fixed_pad: "n < 256 ^ b \<Longrightarrow> b \<le> a \<Longrightarrow> be_fixed a n = replicate (a - b) 0 @ be_fixed b n"
  using be_fixed_add [of "a - b" b n] by (simp add: be_fixed_zero)

lemma be_fixed_mod: "k \<le> m \<Longrightarrow> be_fixed k (n mod 256 ^ m) = be_fixed k n"
proof (induction k arbitrary: n m)
  case (Suc k)
  then obtain l where m: "m = Suc l" "k \<le> l" by (cases m) auto
  have "(n mod 256 ^ m) div 256 = n div 256 mod 256 ^ l" by (simp add: m mod_mult2_eq)
  moreover have "(of_nat (n mod 256 ^ m) :: byte) = of_nat n"
    unfolding word_unat_eq_iff unat_of_nat_byte by (simp add: m mod_mult2_eq)
  ultimately show ?case using Suc.IH [OF m(2)] by (simp add: be_fixed_Suc)
qed simp

lemma read_word_spec:
  "i \<le> length buf \<Longrightarrow> read_word j d (i, buf) = (i - j, take (i - j) buf @ be_fixed (min i j) (unat d) @ drop i buf)"
proof (induction j arbitrary: d i buf)
  case (Suc j)
  show ?case
  proof (cases i)
    case (Suc k)
    let ?buf = "buf[k := ucast d]"
    have k: "k < length buf" using Suc Suc.prems by simp
    have "read_word (Suc j) d (i, buf) = read_word j (drop_bit 8 d) (k, ?buf)" by (simp add: Suc)
    also have "\<dots> = (k - j, take (k - j) ?buf @ be_fixed (min k j) (unat d div 256) @ drop k ?buf)"
      using Suc.IH [of k ?buf "drop_bit 8 d"] k by (simp add: unat_drop_bit_u64)
    also have "drop k ?buf = ucast d # drop i buf" using k by (simp add: Suc Cons_nth_drop_Suc [symmetric])
    also have "take (k - j) ?buf = take (i - Suc j) buf" by (simp add: Suc)
    also have "(ucast d :: byte) = of_nat (unat d)" by (simp add: word_unat_eq_iff unsigned_ucast_eq take_bit_eq_mod)
    finally show ?thesis by (simp add: Suc be_fixed_Suc)
  qed simp
qed simp

lemma read_fold:
  "i \<le> length buf \<Longrightarrow> snd (foldl (\<lambda>s d. read_word 8 d s) (i, buf) (nat_Bits n)) =
     take (i - 8 * length (nat_Bits n)) buf @ be_fixed (min i (8 * length (nat_Bits n))) n @ drop i buf"
proof (induction n arbitrary: i buf rule: nat_Bits.induct)
  case (1 n)
  show ?case
  proof (cases "n = 0")
    case True
    then show ?thesis by (simp add: nat_Bits.simps)
  next
    case False
    let ?m = "n div 2 ^ 64" and ?b = "take (i - 8) buf @ be_fixed (min i 8) n @ drop i buf"
    let ?l = "8 * length (nat_Bits ?m)"
    have low: "be_fixed (min i 8) (n mod 2 ^ 64) = be_fixed (min i 8) n"
      using be_fixed_mod [of "min i 8" 8 n] by simp
    have len: "i - 8 \<le> length ?b" using "1.prems" by simp
    have "snd (foldl (\<lambda>s d. read_word 8 d s) (i, buf) (nat_Bits n)) =
      snd (foldl (\<lambda>s d. read_word 8 d s) (i - 8, ?b) (nat_Bits ?m))"
      using False low by (simp add: nat_Bits.simps [of n] read_word_spec [OF "1.prems"] unat_of_nat)
    also have "\<dots> = take (i - 8 - ?l) ?b @ be_fixed (min (i - 8) ?l) ?m @ drop (i - 8) ?b"
      by (rule "1.IH" [OF False len])
    also have "take (i - 8 - ?l) ?b = take (i - (8 + ?l)) buf" using "1.prems" by (simp add: min_def)
    also have "drop (i - 8) ?b = be_fixed (min i 8) n @ drop i buf" using "1.prems" by (cases "i \<le> 8") simp_all
    also have "be_fixed (min (i - 8) ?l) ?m @ be_fixed (min i 8) n @ drop i buf = be_fixed (min i (8 + ?l)) n @ drop i buf"
    proof (cases "8 \<le> i")
      case True
      then have "min i (8 + ?l) = min (i - 8) ?l + 8" by simp
      moreover have "?m = n div 256 ^ 8" by simp
      ultimately show ?thesis using True be_fixed_add [of "min (i - 8) ?l" 8 n] by (simp add: min_def)
    qed (simp add: min_def)
    finally show ?thesis using False by (simp add: nat_Bits.simps [of n])
  qed
qed

lemma nat_Bits_bound: "n < 256 ^ (8 * length (nat_Bits n))"
proof (induction n rule: nat_Bits.induct)
  case (1 n)
  show ?case
  proof (cases "n = 0")
    case False
    have "n < 2 ^ 64 * 256 ^ (8 * length (nat_Bits (n div 2 ^ 64)))"
      using "1.IH" [OF False] by (simp add: div_less_iff_less_mult mult.commute)
    with False show ?thesis by (simp add: nat_Bits.simps [of n] power_add)
  qed (simp add: nat_Bits.simps)
qed

lemma ReadBits_eq: "ReadBits x (replicate k 0) = be_fixed k (nat \<bar>x\<bar>)"
proof -
  let ?n = "nat \<bar>x\<bar>" and ?l = "8 * length (nat_Bits (nat \<bar>x\<bar>))"
  have "ReadBits x (replicate k 0) = replicate (k - ?l) 0 @ be_fixed (min k ?l) ?n"
    using read_fold [of k "replicate k 0" ?n] by (simp add: ReadBits_def big_Bits_def)
  also have "\<dots> = be_fixed k ?n" using be_fixed_pad [OF nat_Bits_bound, of ?n k] by (cases "?l \<le> k") (simp_all add: min_def)
  finally show ?thesis .
qed

lemma nat_BitLen_le: "nat_BitLen n \<le> k \<longleftrightarrow> n < 2 ^ k"
proof (induction n arbitrary: k rule: nat_BitLen.induct)
  case (1 n)
  show ?case
  proof (cases "n = 0")
    case False
    show ?thesis
    proof (cases k)
      case (Suc j)
      have "n div 2 < 2 ^ j \<longleftrightarrow> n < 2 ^ k" by (simp add: Suc div_less_iff_less_mult mult.commute)
      with False Suc 1 [OF False, of j] show ?thesis by (simp add: nat_BitLen.simps [of n])
    qed (use False in \<open>simp add: nat_BitLen.simps [of n]\<close>)
  qed (simp add: nat_BitLen.simps)
qed

lemma big_BitLen_le: "0 \<le> x \<Longrightarrow> big_BitLen x \<le> k \<longleftrightarrow> x < 2 ^ k"
  by (simp add: big_BitLen_def nat_BitLen_le nat_less_iff)

lemma PaddedBigBytes_eq:
  assumes "0 \<le> x" "x < 256 ^ k"
  shows "PaddedBigBytes x k = be_fixed k (nat x)"
proof (cases "big_BitLen x div 8 \<ge> k")
  case False
  with assms show ?thesis by (simp add: PaddedBigBytes_def ReadBits_eq)
next
  case True
  have n: "nat x < 256 ^ k" using assms by (simp add: nat_less_iff)
  have "length (nat_be (nat x)) = k"
  proof (rule antisym)
    show "length (nat_be (nat x)) \<le> k" using n by (simp add: length_nat_be_le)
    show "k \<le> length (nat_be (nat x))"
    proof (rule ccontr)
      assume "\<not> k \<le> length (nat_be (nat x))"
      then obtain m where m: "k = Suc m" "length (nat_be (nat x)) \<le> m" by (cases k) auto
      then have "nat x < 2 ^ (8 * m)" by (simp add: length_nat_be_le power_mult)
      then have "big_BitLen x \<le> 8 * m" using assms(1) by (simp add: big_BitLen_def nat_BitLen_le)
      with True m(1) show False by simp
    qed
  qed
  with be_fixed_be_nat [of "nat_be (nat x)"] True assms(1) show ?thesis by (simp add: PaddedBigBytes_def big_Bytes_def)
qed

lemma MaxUint64_nat: "unat MaxUint64 = 2 ^ 64 - 1"
  by (simp add: MaxUint64_def unsigned_minus_1_eq_mask mask_eq_exp_minus_1)

lemma unat_u64_less: "unat (x :: u64) < 2 ^ 64"
  using unsigned_less [of x, where ?'a = nat] by simp

lemma SafeAdd_correct: "SafeAdd x y = (x + y, unat x + unat y \<ge> 2 ^ 64)"
proof -
  have "x \<le> MaxUint64" by (simp add: MaxUint64_def)
  then have "unat (MaxUint64 - x) = 2 ^ 64 - 1 - unat x" by (simp only: unat_sub MaxUint64_nat)
  then show ?thesis using unat_u64_less [of x] unfolding SafeAdd_def word_less_nat_alt by auto
qed

lemma SafeMul_correct: "SafeMul x y = (x * y, unat x * unat y \<ge> 2 ^ 64)"
proof (cases "x = 0 \<or> y = 0")
  case False
  then have "unat x > 0" by (simp add: unat_gt_0)
  then have "(2 ^ 64 - 1) div unat x < unat y \<longleftrightarrow> 2 ^ 64 - 1 < unat y * unat x" by (rule div_less_iff_less_mult)
  with False show ?thesis by (auto simp: SafeMul_def word_less_nat_alt unat_div MaxUint64_nat mult.commute)
qed (auto simp: SafeMul_def)

end
