(* ===== verification/Evm_Machine.thy ===== *)
theory Evm_Machine
  imports Big_Math Chain_Config
begin

text \<open>
  The parts of the virtual machine (\<open>core/vm\<close>): stack, memory, contract, jump destination analysis and
  the helpers of \<open>common.go\<close>.

  A stack is the list of its values, the top first: the integers of the Go stack are never shared (\<open>dup\<close>
  copies), so that values stand for the pointers.  \<open>VmPanic\<close> is a run-time panic of the Go program (an
  index or slice bound out of range, a nil dereference); \<open>VmUnresolved\<close> is the exhaustion of the model's fuel.
\<close>

section \<open>Errors\<close>

datatype vm_error = ErrOutOfGas | ErrCodeStoreOutOfGas | ErrDepth | ErrInsufficientBalance
  | ErrContractAddressCollision | errWriteProtection | errReturnDataOutOfBounds | errExecutionReverted
  | errMaxCodeSizeExceeded | errGasUintOverflow | errStackUnderflow nat nat | errStackLimit nat
  | errInvalidOpcode byte | errInvalidJump byte int | errBadPairingInput | errBadPoint
  | VmPanic | VmUnresolved

section \<open>Stack\<close>

type_synonym stack = "int list"

text \<open>\<open>Back(n)\<close>, and \<open>data[len-1-n]\<close>.\<close>

definition stack_Back :: "stack \<Rightarrow> nat \<Rightarrow> vm_error + int" where
  "stack_Back st n = (if n < length st then Inr (st ! n) else Inl VmPanic)"

definition stack_swap :: "nat \<Rightarrow> stack \<Rightarrow> vm_error + stack" where
  "stack_swap n st = (if 0 < n \<and> n \<le> length st then Inr (st[n - 1 := st ! 0, 0 := st ! (n - 1)]) else Inl VmPanic)"

definition stack_dup :: "nat \<Rightarrow> stack \<Rightarrow> vm_error + stack" where
  "stack_dup n st = (if 0 < n \<and> n \<le> length st then Inr (st ! (n - 1) # st) else Inl VmPanic)"

definition stack_require :: "stack \<Rightarrow> nat \<Rightarrow> vm_error + unit" where
  "stack_require st n = (if length st < n then Inl (errStackUnderflow (length st) n) else Inr ())"

definition StackLimit :: nat where "StackLimit = 1024"

definition makeStackFunc :: "nat \<Rightarrow> nat \<Rightarrow> stack \<Rightarrow> vm_error + unit" where
  "makeStackFunc pop push st =
     bindE (stack_require st pop) (\<lambda>_.
       if int (length st) + int push - int pop > int StackLimit then Inl (errStackLimit (length st)) else Inr ())"

definition makeDupStackFunc :: "nat \<Rightarrow> stack \<Rightarrow> vm_error + unit" where
  "makeDupStackFunc n = makeStackFunc n (n + 1)"

definition makeSwapStackFunc :: "nat \<Rightarrow> stack \<Rightarrow> vm_error + unit" where
  "makeSwapStackFunc n = makeStackFunc n n"

section \<open>Memory\<close>

record Memory =
  store :: bytes
  lastGasCost :: u64

definition NewMemory :: Memory where
  "NewMemory = \<lparr>store = [], lastGasCost = 0\<rparr>"

text \<open>\<open>copy(store[offset:offset+size], value)\<close>; bounds beyond the length count as out of range.\<close>

definition overwrite :: "bytes \<Rightarrow> nat \<Rightarrow> nat \<Rightarrow> bytes \<Rightarrow> bytes" where
  "overwrite b off sz v = take off b @ take sz v @ drop (off + min sz (length v)) b"

definition Memory_Set :: "u64 \<Rightarrow> u64 \<Rightarrow> bytes \<Rightarrow> Memory \<Rightarrow> vm_error + Memory" where
  "Memory_Set offset sz value m =
     (if unat sz > length (store m) then Inl VmPanic
      else if sz > 0 then
        if offset \<le> offset + sz \<and> unat (offset + sz) \<le> length (store m)
        then Inr (m\<lparr>store := overwrite (store m) (unat offset) (unat sz) value\<rparr>)
        else Inl VmPanic
      else Inr m)"

definition Memory_Resize :: "u64 \<Rightarrow> Memory \<Rightarrow> Memory" where
  "Memory_Resize sz m =
     (if length (store m) < unat sz then m\<lparr>store := store m @ replicate (unat sz - length (store m)) 0\<rparr> else m)"

definition Memory_Get :: "int \<Rightarrow> int \<Rightarrow> Memory \<Rightarrow> vm_error + bytes" where
  "Memory_Get offset sz m =
     (if sz = 0 then Inr []
      else if int (length (store m)) > offset then
        if 0 \<le> offset \<and> 0 \<le> sz \<and> offset + sz \<le> int (length (store m))
        then Inr (take (nat sz) (drop (nat offset) (store m))) else Inl VmPanic
      else Inr [])"

definition Memory_GetPtr :: "int \<Rightarrow> int \<Rightarrow> Memory \<Rightarrow> vm_error + bytes" where
  "Memory_GetPtr offset sz m =
     (if sz = 0 then Inr []
      else if int (length (store m)) > offset then
        if 0 \<le> offset \<and> 0 \<le> sz \<and> offset + sz \<le> int (length (store m))
        then Inr (take (nat sz) (drop (nat offset) (store m))) else Inl VmPanic
      else Inr [])"

section \<open>\<open>common.go\<close>\<close>

definition calcMemSize :: "int \<Rightarrow> int \<Rightarrow> int" where
  "calcMemSize off l = (if l = 0 then 0 else off + l)"

definition getData :: "bytes \<Rightarrow> u64 \<Rightarrow> u64 \<Rightarrow> vm_error + bytes" where
  "getData data start0 sz =
     (let len = of_nat (length data);
          start = (if start0 > len then len else start0);
          end0 = start + sz;
          end1 = (if end0 > len then len else end0)
      in if start \<le> end1
         then Inr (RightPadBytes (take (unat end1 - unat start) (drop (unat start) data)) (nat (sint sz)))
         else Inl VmPanic)"

definition getDataBig :: "bytes \<Rightarrow> int \<Rightarrow> int \<Rightarrow> bytes" where
  "getDataBig data start sz =
     (let dlen = int (length data); s = BigMin start dlen; e = BigMin (s + sz) dlen
      in RightPadBytes (take (nat e - nat s) (drop (nat s) data)) (nat (sint (big_Uint64 sz))))"

definition bigUint64 :: "int \<Rightarrow> u64 \<times> bool" where
  "bigUint64 v = (big_Uint64 v, big_BitLen v > 64)"

definition toWordSize :: "u64 \<Rightarrow> u64" where
  "toWordSize sz = (if sz > MaxUint64 - 31 then MaxUint64 div 32 + 1 else (sz + 31) div 32)"

definition allZero :: "bytes \<Rightarrow> bool" where
  "allZero b \<longleftrightarrow> list_all (\<lambda>x. x = 0) b"

section \<open>Jump destination analysis\<close>

definition bitvec_set :: "nat \<Rightarrow> bytes \<Rightarrow> vm_error + bytes" where
  "bitvec_set pos bits =
     (if pos div 8 < length bits then Inr (bits[pos div 8 := bits ! (pos div 8) OR drop_bit (pos mod 8) 0x80]) else Inl VmPanic)"

definition bitvec_set8 :: "nat \<Rightarrow> bytes \<Rightarrow> vm_error + bytes" where
  "bitvec_set8 pos bits =
     (if pos div 8 + 1 < length bits
      then let b1 = bits[pos div 8 := bits ! (pos div 8) OR drop_bit (pos mod 8) 0xFF]
           in Inr (b1[pos div 8 + 1 := b1 ! (pos div 8 + 1) OR NOT (drop_bit (pos mod 8) 0xFF)])
      else Inl VmPanic)"

definition codeSegment :: "bytes \<Rightarrow> nat \<Rightarrow> vm_error + bool" where
  "codeSegment bits pos =
     (if pos div 8 < length bits then Inr (bits ! (pos div 8) AND drop_bit (pos mod 8) 0x80 = 0) else Inl VmPanic)"

definition PUSH1 :: byte where "PUSH1 = 0x60"
definition PUSH32 :: byte where "PUSH32 = 0x7F"
definition JUMPDEST :: byte where "JUMPDEST = 0x5B"

text \<open>The two inner loops of \<open>codeBitmap\<close>: \<open>numbits\<close> bits left to mark from \<open>pc\<close>.\<close>

fun mark_data :: "nat \<Rightarrow> nat \<Rightarrow> bytes \<Rightarrow> vm_error + nat \<times> bytes" where
  "mark_data numbits pc bits =
     (if numbits \<ge> 8 then bindE (bitvec_set8 pc bits) (mark_data (numbits - 8) (pc + 8))
      else if numbits > 0 then bindE (bitvec_set pc bits) (mark_data (numbits - 1) (pc + 1))
      else Inr (pc, bits))"

declare mark_data.simps [simp del]

lemma mark_data_pc: "mark_data n pc bits = Inr (pc', bits') \<Longrightarrow> pc' = pc + n"
proof (induction n pc bits rule: mark_data.induct)
  case (1 n pc bits)
  show ?case using 1 by (subst (asm) mark_data.simps [of n]) (fastforce split: if_splits)
qed

function codeBitmap_loop :: "bytes \<Rightarrow> nat \<Rightarrow> bytes \<Rightarrow> vm_error + bytes" where
  "codeBitmap_loop code pc bits =
     (if pc < length code then
        let op = code ! pc in
        if op \<ge> PUSH1 \<and> op \<le> PUSH32
        then (case mark_data (unat (op - PUSH1 + 1)) (pc + 1) bits of
                Inl e \<Rightarrow> Inl e | Inr (pc', bits') \<Rightarrow> codeBitmap_loop code pc' bits')
        else codeBitmap_loop code (pc + 1) bits
      else Inr bits)"
  by pat_completeness auto
termination
  by (relation "measure (\<lambda>(code, pc, bits). length code - pc)") (auto dest: mark_data_pc)

declare codeBitmap_loop.simps [simp del]

definition codeBitmap :: "bytes \<Rightarrow> vm_error + bytes" where
  "codeBitmap code = codeBitmap_loop code 0 (replicate (length code div 8 + 1 + 4) 0)"

text \<open>The analysis of a code is looked up by its hash in the map that all frames of a call share.\<close>

definition destinations_has ::
    "(hash, bytes) gomap \<Rightarrow> hash \<Rightarrow> bytes \<Rightarrow> int \<Rightarrow> vm_error + bool \<times> (hash, bytes) gomap" where
  "destinations_has d codehash code dest =
     (let udest = big_Uint64 dest in
      if big_BitLen dest \<ge> 63 \<or> udest \<ge> of_nat (length code) then Inr (False, d)
      else bindE (case gget d codehash of Some m \<Rightarrow> Inr (m, d)
                  | None \<Rightarrow> bindE (codeBitmap code) (\<lambda>m. Inr (m, gput d codehash m))) (\<lambda>(m, d').
           if code ! unat udest = JUMPDEST then bindE (codeSegment m (unat udest)) (\<lambda>b. Inr (b, d'))
           else Inr (False, d')))"

section \<open>Contracts\<close>

record contract =
  CallerAddress :: address
  c_self :: address
  Code :: bytes
  CodeHash :: hash
  CodeAddr :: "address option"
  c_Input :: bytes
  Gas :: u64
  c_value :: int
  c_DelegateCall :: bool

text \<open>A caller is an account, or the contract that is running.\<close>

datatype ContractRef = AccountRef address | ContractCaller contract

primrec ref_Address :: "ContractRef \<Rightarrow> address" where
  "ref_Address (AccountRef a) = a"
| "ref_Address (ContractCaller c) = c_self c"

definition NewContract :: "ContractRef \<Rightarrow> address \<Rightarrow> int \<Rightarrow> u64 \<Rightarrow> contract" where
  "NewContract caller object value gas =
     \<lparr>CallerAddress = ref_Address caller, c_self = object, Code = [], CodeHash = 0, CodeAddr = None, c_Input = [],
      Gas = gas, c_value = value, c_DelegateCall = False\<rparr>"

definition AsDelegate :: "ContractRef \<Rightarrow> contract \<Rightarrow> vm_error + contract" where
  "AsDelegate caller c = (case caller of
      AccountRef _ \<Rightarrow> Inl VmPanic
    | ContractCaller parent \<Rightarrow> Inr (c\<lparr>c_DelegateCall := True, CallerAddress := CallerAddress parent, c_value := c_value parent\<rparr>))"

definition GetByte :: "contract \<Rightarrow> u64 \<Rightarrow> byte" where
  "GetByte c n = (if n < of_nat (length (Code c)) then Code c ! unat n else 0)"

definition GetOp :: "contract \<Rightarrow> u64 \<Rightarrow> byte" where
  "GetOp c n = GetByte c n"

definition UseGas :: "u64 \<Rightarrow> contract \<Rightarrow> bool \<times> contract" where
  "UseGas gas c = (if Gas c < gas then (False, c) else (True, c\<lparr>Gas := Gas c - gas\<rparr>))"

definition SetCallCode :: "address \<Rightarrow> hash \<Rightarrow> bytes \<Rightarrow> contract \<Rightarrow> contract" where
  "SetCallCode addr h code c = c\<lparr>Code := code, CodeHash := h, CodeAddr := Some addr\<rparr>"

end
