(* ===== verification/Evm_Jumps.thy ===== *)
theory Evm_Jumps
  imports Evm_Machine
begin

text \<open>
  The jump destination analysis is exact: the bit vector of \<open>codeBitmap\<close> leaves unmarked the positions at
  which an instruction starts, and marks the bytes that a PUSH instruction carries as data.
\<close>

section \<open>Instruction boundaries\<close>

definition push_len :: "byte \<Rightarrow> nat" where
  "push_len op = (if op \<ge> PUSH1 \<and> op \<le> PUSH32 then unat (op - PUSH1 + 1) else 0)"

inductive instr_start :: "bytes \<Rightarrow> nat \<Rightarrow> bool" for code where
  first: "instr_start code 0"
| following: "instr_start code pc \<Longrightarrow> pc < length code \<Longrightarrow> instr_start code (pc + 1 + push_len (code ! pc))"

lemma push_len_le: "push_len op \<le> 32"
proof (cases "op \<ge> PUSH1 \<and> op \<le> PUSH32")
  case True
  then have "op - PUSH1 + 1 \<le> 32" unfolding PUSH1_def PUSH32_def by unat_arith
  with True show ?thesis unfolding push_len_def by (simp add: word_le_nat_alt)
qed (auto simp: push_len_def)

lemma instr_start_gap:
  "instr_start code p \<Longrightarrow> instr_start code pc \<Longrightarrow> pc < p \<Longrightarrow> pc < length code \<Longrightarrow> pc + 1 + push_len (code ! pc) \<le> p"
proof (induction "p + pc" arbitrary: p pc rule: less_induct)
  case less
  from less.prems(1) show ?case
  proof cases
    case first
    with less.prems(3) show ?thesis by simp
  next
    case (following q)
    consider "q = pc" | "q > pc" | "q < pc" by linarith
    then show ?thesis
    proof cases
      case 2
      with less.hyps [of q pc] following less.prems show ?thesis by simp
    next
      case 3
      with less.hyps [of pc q] following less.prems show ?thesis by simp
    qed (use following in simp)
  qed
qed

section \<open>Marked bits\<close>

definition marked :: "bytes \<Rightarrow> nat \<Rightarrow> bool" where
  "marked bits p \<longleftrightarrow> p div 8 < length bits \<and> bit (bits ! (p div 8)) (7 - p mod 8)"

lemma bit_0x80: "k < 8 \<Longrightarrow> bit (drop_bit k (0x80 :: byte)) j \<longleftrightarrow> j = 7 - k"
proof -
  have "(0x80 :: byte) = 2 ^ 7" by simp
  then have b: "bit (0x80 :: byte) i \<longleftrightarrow> i = 7" for i by (simp only: bit_exp_iff) auto
  show "k < 8 \<Longrightarrow> ?thesis" unfolding bit_drop_bit_eq comp_def b by linarith
qed

lemma bit_0xFF: "bit (drop_bit k (0xFF :: byte)) j \<longleftrightarrow> k + j < 8"
proof -
  have "(0xFF :: byte) = -1" by simp
  then have b: "bit (0xFF :: byte) i \<longleftrightarrow> i < 8" for i by (simp only: bit_minus_1_iff) simp
  show ?thesis unfolding bit_drop_bit_eq comp_def b ..
qed

lemma bit_not_0xFF: "bit (NOT (drop_bit k (0xFF :: byte))) j \<longleftrightarrow> j < 8 \<and> 8 \<le> k + j"
  unfolding bit_not_iff bit_0xFF by auto

lemma codeSegment_marked:
  "p div 8 < length bits \<Longrightarrow> codeSegment bits p = Inr (\<not> marked bits p)"
proof -
  assume p: "p div 8 < length bits"
  have "bits ! (p div 8) AND drop_bit (p mod 8) 0x80 = 0 \<longleftrightarrow> \<not> bit (bits ! (p div 8)) (7 - p mod 8)"
    unfolding bit_eq_iff bit_and_iff by (auto simp: bit_0x80 dest!: spec [of _ "7 - p mod 8"])
  with p show ?thesis by (simp add: codeSegment_def marked_def)
qed

lemma bitvec_set_marked:
  assumes "pos div 8 < length bits"
  shows "\<exists>bits'. bitvec_set pos bits = Inr bits' \<and> length bits' = length bits
    \<and> (\<forall>p. marked bits' p \<longleftrightarrow> marked bits p \<or> p = pos)"
proof (intro exI conjI allI)
  let ?b = "bits[pos div 8 := bits ! (pos div 8) OR drop_bit (pos mod 8) 0x80]"
  show "bitvec_set pos bits = Inr ?b" using assms by (simp add: bitvec_set_def)
  show "length ?b = length bits" by simp
  fix p
  have "7 - a = 7 - b \<longleftrightarrow> a = b" if "a < 8" "b < 8" for a b :: nat using that by linarith
  then have "7 - p mod 8 = 7 - pos mod 8 \<longleftrightarrow> p mod 8 = pos mod 8" by simp
  moreover have "p = pos \<longleftrightarrow> p div 8 = pos div 8 \<and> p mod 8 = pos mod 8" by (metis div_mod_decomp)
  ultimately show "marked ?b p \<longleftrightarrow> marked bits p \<or> p = pos"
    using assms by (auto simp: marked_def nth_list_update bit_or_iff bit_0x80)
qed

lemma bitvec_set8_marked:
  assumes "pos div 8 + 1 < length bits"
  shows "\<exists>bits'. bitvec_set8 pos bits = Inr bits' \<and> length bits' = length bits
    \<and> (\<forall>p. marked bits' p \<longleftrightarrow> marked bits p \<or> pos \<le> p \<and> p < pos + 8)"
proof -
  define q k where "q = pos div 8" and "k = pos mod 8"
  have pos: "pos = 8 * q + k" "k < 8" by (simp_all add: q_def k_def)
  let ?b1 = "bits[q := bits ! q OR drop_bit k 0xFF]"
  let ?b = "?b1[q + 1 := ?b1 ! (q + 1) OR NOT (drop_bit k 0xFF)]"
  show ?thesis
  proof (intro exI conjI allI)
    show "bitvec_set8 pos bits = Inr ?b" using assms by (simp add: bitvec_set8_def q_def k_def Let_def)
    show "length ?b = length bits" by simp
    fix p :: nat
    define r j where "r = p div 8" and "j = p mod 8"
    have p: "p = 8 * r + j" "j < 8" by (simp_all add: r_def j_def)
    have "marked ?b p \<longleftrightarrow> marked bits p \<or> r = q \<and> k + (7 - j) < 8 \<or> r = q + 1 \<and> 7 - j < 8 \<and> 8 \<le> k + (7 - j)"
      using assms unfolding marked_def r_def [symmetric] j_def [symmetric] q_def [symmetric]
      by (auto simp: nth_list_update bit_or_iff bit_0xFF bit_not_0xFF)
    also have "\<dots> \<longleftrightarrow> marked bits p \<or> pos \<le> p \<and> p < pos + 8"
    proof -
      have "(r = q \<and> k + (7 - j) < 8 \<or> r = q + 1 \<and> 7 - j < 8 \<and> 8 \<le> k + (7 - j)) \<longleftrightarrow> pos \<le> p \<and> p < pos + 8"
      proof -
        have "k + (7 - j) < 8 \<longleftrightarrow> k \<le> j" "8 \<le> k + (7 - j) \<longleftrightarrow> j < k" "7 - j < 8" using p(2) by linarith+
        moreover consider "r < q" | "r = q" | "r = q + 1" | "r > q + 1" by linarith
        then have "(r = q \<and> k \<le> j \<or> r = q + 1 \<and> j < k) \<longleftrightarrow> pos \<le> p \<and> p < pos + 8"
          by cases (use pos p in linarith)+
        ultimately show ?thesis by simp
      qed
      then show ?thesis by blast
    qed
    finally show "marked ?b p \<longleftrightarrow> marked bits p \<or> pos \<le> p \<and> p < pos + 8" .
  qed
qed

section \<open>The loops\<close>

lemma mark_data_marked:
  "(pc + n) div 8 < length bits \<Longrightarrow> \<exists>bits'. mark_data n pc bits = Inr (pc + n, bits') \<and> length bits' = length bits
     \<and> (\<forall>p. marked bits' p \<longleftrightarrow> marked bits p \<or> pc \<le> p \<and> p < pc + n)"
proof (induction n pc bits rule: mark_data.induct)
  case (1 n pc bits)
  consider "8 \<le> n" | "0 < n" "n < 8" | "n = 0" by linarith
  then show ?case
  proof cases
    case 1
    then have "pc div 8 + 1 < length bits" using "1.prems" div_le_mono [of "pc + 8" "pc + n" 8] by simp
    then obtain b1 where b1: "bitvec_set8 pc bits = Inr b1" "length b1 = length bits"
      "\<And>p. marked b1 p \<longleftrightarrow> marked bits p \<or> pc \<le> p \<and> p < pc + 8" using bitvec_set8_marked by blast
    have e: "pc + 8 + (n - 8) = pc + n" using 1 by simp
    have "(pc + n) div 8 < length b1" using "1.prems" b1(2) by simp
    from "1.IH"(1) [OF 1, of b1, unfolded e, OF this] obtain b2 where b2: "mark_data (n - 8) (pc + 8) b1 = Inr (pc + n, b2)"
      "length b2 = length b1" "\<forall>p. marked b2 p \<longleftrightarrow> marked b1 p \<or> pc + 8 \<le> p \<and> p < pc + n" by blast
    have "mark_data n pc bits = Inr (pc + n, b2)" using 1 b1(1) b2(1) by (simp add: mark_data.simps [of n])
    moreover have "marked b2 p \<longleftrightarrow> marked bits p \<or> pc \<le> p \<and> p < pc + n" for p
      using b1(3) [of p] b2(3) [rule_format, of p] 1 by linarith
    ultimately show ?thesis using b1(2) b2(2) by simp
  next
    case 2
    then have "pc div 8 < length bits" using "1.prems" div_le_mono [of pc "pc + n" 8] by linarith
    then obtain b1 where b1: "bitvec_set pc bits = Inr b1" "length b1 = length bits"
      "\<And>p. marked b1 p \<longleftrightarrow> marked bits p \<or> p = pc" using bitvec_set_marked by blast
    have e: "pc + 1 + (n - 1) = pc + n" using 2 by simp
    have nn: "\<not> 8 \<le> n" using 2 by simp
    have "(pc + n) div 8 < length b1" using "1.prems" b1(2) by simp
    from "1.IH"(2) [OF nn 2(1), of b1, unfolded e, OF this] obtain b2 where b2: "mark_data (n - 1) (pc + 1) b1 = Inr (pc + n, b2)"
      "length b2 = length b1" "\<forall>p. marked b2 p \<longleftrightarrow> marked b1 p \<or> pc + 1 \<le> p \<and> p < pc + n" by blast
    have "mark_data n pc bits = Inr (pc + n, b2)" using 2 b1(1) b2(1) by (simp add: mark_data.simps [of n])
    moreover have "marked b2 p \<longleftrightarrow> marked bits p \<or> pc \<le> p \<and> p < pc + n" for p
      using b1(3) [of p] b2(3) [rule_format, of p] 2 by linarith
    ultimately show ?thesis using b1(2) b2(2) by simp
  qed (auto simp: mark_data.simps)
qed

lemma codeBitmap_loop_marked:
  "instr_start code pc \<Longrightarrow> length bits = length code div 8 + 5 \<Longrightarrow>
   (\<forall>p. marked bits p \<longleftrightarrow> p < pc \<and> \<not> instr_start code p) \<Longrightarrow>
   \<exists>bits'. codeBitmap_loop code pc bits = Inr bits' \<and> length bits' = length code div 8 + 5
     \<and> (\<forall>p < length code. marked bits' p \<longleftrightarrow> \<not> instr_start code p)"
proof (induction code pc bits rule: codeBitmap_loop.induct)
  case (1 code pc bits)
  show ?case
  proof (cases "pc < length code")
    case False
    with "1.prems" show ?thesis by (auto simp: codeBitmap_loop.simps [of code pc])
  next
    case pc: True
    let ?op = "code ! pc"
    have next_start: "instr_start code (pc + 1 + push_len ?op)" using following [OF "1.prems"(1) pc] .
    show ?thesis
    proof (cases "?op \<ge> PUSH1 \<and> ?op \<le> PUSH32")
      case True
      then have n: "unat (?op - PUSH1 + 1) = push_len ?op" by (simp add: push_len_def)
      have "(pc + 1 + push_len ?op) div 8 < length bits"
      proof -
        have "pc + 1 + push_len ?op \<le> length code + 32" using pc push_len_le [of ?op] by linarith
        then have "(pc + 1 + push_len ?op) div 8 \<le> (length code + 32) div 8" by (rule div_le_mono)
        then show ?thesis using "1.prems"(2) by simp
      qed
      from mark_data_marked [OF this] obtain b1 where b1: "mark_data (push_len ?op) (pc + 1) bits = Inr (pc + 1 + push_len ?op, b1)"
        "length b1 = length bits" "\<forall>p. marked b1 p \<longleftrightarrow> marked bits p \<or> pc + 1 \<le> p \<and> p < pc + 1 + push_len ?op" by blast
      have inv: "\<forall>p. marked b1 p \<longleftrightarrow> p < pc + 1 + push_len ?op \<and> \<not> instr_start code p"
      proof
        fix p
        have "\<not> instr_start code p" if "pc < p" "p < pc + 1 + push_len ?op"
          using instr_start_gap [OF _ "1.prems"(1) that(1) pc] that(2) by fastforce
        then show "marked b1 p \<longleftrightarrow> p < pc + 1 + push_len ?op \<and> \<not> instr_start code p"
          using b1(3) [rule_format, of p] "1.prems"(3) [rule_format, of p] "1.prems"(1) by (cases "p < pc"; cases "p = pc") auto
      qed
      have "codeBitmap_loop code pc bits = codeBitmap_loop code (pc + 1 + push_len ?op) b1"
        using True pc b1(1) n by (simp add: codeBitmap_loop.simps [of code pc] Let_def)
      moreover note "1.IH"(1) [OF pc refl True, of "(pc + 1 + push_len ?op, b1)" "pc + 1 + push_len ?op" b1]
      ultimately show ?thesis using b1(1,2) n inv next_start "1.prems"(2) by simp
    next
      case False
      then have z: "push_len ?op = 0" by (auto simp: push_len_def)
      have inv: "\<forall>p. marked bits p \<longleftrightarrow> p < pc + 1 \<and> \<not> instr_start code p"
        using "1.prems"(1,3) by (metis less_add_one less_antisym add.commute plus_1_eq_Suc less_Suc_eq)
      have "codeBitmap_loop code pc bits = codeBitmap_loop code (pc + 1) bits"
        using False pc by (auto simp add: codeBitmap_loop.simps [of code pc] Let_def)
      moreover have "instr_start code (pc + 1)" using next_start z by simp
      ultimately show ?thesis using "1.IH"(2) [OF pc refl False _ "1.prems"(2) inv] by simp
    qed
  qed
qed

lemma codeBitmap_correct:
  obtains bits where "codeBitmap code = Inr bits"
    "\<And>p. p < length code \<Longrightarrow> codeSegment bits p = Inr (instr_start code p)"
proof -
  have "\<not> marked (replicate k 0) p" for k p by (simp add: marked_def)
  then obtain bits where b: "codeBitmap code = Inr bits" "length bits = length code div 8 + 5"
    "\<forall>p < length code. marked bits p \<longleftrightarrow> \<not> instr_start code p"
    using codeBitmap_loop_marked [OF first, of "replicate (length code div 8 + 5) 0" code] by (auto simp: codeBitmap_def add.commute)
  have "codeSegment bits p = Inr (instr_start code p)" if "p < length code" for p
  proof -
    have "p div 8 < length bits" using that b(2) div_le_mono [of p "length code" 8] by linarith
    with codeSegment_marked b(3) that show ?thesis by simp
  qed
  with that b(1) show thesis by blast
qed

lemma destinations_has_correct:
  assumes len: "length code \<le> 2 ^ 62" and dest: "0 \<le> dest"
    and cache: "\<And>m. gget d h = Some m \<Longrightarrow> codeBitmap code = Inr m"
  shows "\<exists>d'. destinations_has d h code dest =
      Inr (nat dest < length code \<and> code ! nat dest = JUMPDEST \<and> instr_start code (nat dest), d')
    \<and> (d' = d \<or> (\<exists>m. d' = gput d h m \<and> codeBitmap code = Inr m))"
proof -
  have small: "big_BitLen dest \<ge> 63 \<longleftrightarrow> \<not> dest < 2 ^ 62" using big_BitLen_le [OF dest, of 62] by linarith
  have u: "unat (big_Uint64 dest) = nat dest" if "dest < 2 ^ 62"
    using dest that by (simp add: big_Uint64_def unsigned_of_int take_bit_int_eq_self)
  have c: "(big_BitLen dest \<ge> 63 \<or> big_Uint64 dest \<ge> of_nat (length code)) \<longleftrightarrow> \<not> dest < int (length code)"
    using small u len dest by (cases "dest < 2 ^ 62") (auto simp: word_le_nat_alt unat_of_nat)
  show ?thesis
  proof (cases "dest < int (length code)")
    case False
    with c show ?thesis by (auto simp: destinations_has_def Let_def)
  next
    case True
    then have n: "unat (big_Uint64 dest) = nat dest" "nat dest < length code" using u len dest by auto
    obtain bits where b: "codeBitmap code = Inr bits" "\<And>p. p < length code \<Longrightarrow> codeSegment bits p = Inr (instr_start code p)"
      using codeBitmap_correct by blast
    have "\<not> (big_BitLen dest \<ge> 63 \<or> big_Uint64 dest \<ge> of_nat (length code))" using c True by simp
    then show ?thesis
      using b n cache by (cases "gget d h") (simp_all add: destinations_has_def Let_def)
  qed
qed

text \<open>
  C8. The jump destination analysis always completes, within the bounds of its bit vector, and a jump is
  allowed exactly to the positions of the code that hold a JUMPDEST and at which an instruction starts:
  never into the data of a PUSH, and nowhere else is it refused.
\<close>

theorem jumps_land_on_instructions:
  assumes "length code \<le> 2 ^ 62" "0 \<le> dest" "\<And>m. gget d h = Some m \<Longrightarrow> codeBitmap code = Inr m"
  shows "\<exists>d'. destinations_has d h code dest =
      Inr (nat dest < length code \<and> code ! nat dest = JUMPDEST \<and> instr_start code (nat dest), d')"
  using destinations_has_correct [OF assms] by blast

text \<open>PUSH2 0x5B 0x5B JUMPDEST: the last byte is a destination, those the PUSH carries are not.\<close>

lemma sample_code_starts: "instr_start [0x61, 0x5B, 0x5B, 0x5B] 3" "\<not> instr_start [0x61, 0x5B, 0x5B, 0x5B] 1"
proof -
  have l: "push_len 0x61 = 2" by (simp add: push_len_def PUSH1_def PUSH32_def)
  have "instr_start [0x61, 0x5B, 0x5B, 0x5B] (0 + 1 + push_len ([0x61, 0x5B, 0x5B, 0x5B] ! 0))"
    by (rule following [OF first]) simp
  then show "instr_start [0x61, 0x5B, 0x5B, 0x5B] 3" using l by (simp add: numeral_3_eq_3)
  show "\<not> instr_start [0x61, 0x5B, 0x5B, 0x5B] 1" using instr_start_gap [OF _ first, of "[0x61, 0x5B, 0x5B, 0x5B]" 1] l by auto
qed

theorem jumps_land_on_instructions_witness:
  "(\<exists>d'. destinations_has [] 0 [0x61, 0x5B, 0x5B, 0x5B] 3 = Inr (True, d'))
   \<and> (\<exists>d'. destinations_has [] 0 [0x61, 0x5B, 0x5B, 0x5B] 1 = Inr (False, d'))"
  using jumps_land_on_instructions [of "[0x61, 0x5B, 0x5B, 0x5B]" 3 "[]" 0]
    jumps_land_on_instructions [of "[0x61, 0x5B, 0x5B, 0x5B]" 1 "[]" 0] sample_code_starts
  by (simp add: JUMPDEST_def)

end
