(* ===== verification/Evm_Instr.thy ===== *)
theory Evm_Instr
  imports Evm_Machine Rlp_Encode
begin

text \<open>
  The instructions of the virtual machine (\<open>core/vm/instructions.go\<close>), one definition per function, on
  the frame of the running contract.

  The state database is an interface (\<open>core/vm/interface.go\<close>): the record \<open>vm_db\<close> holds its methods over
  an arbitrary type of databases; \<open>core/state\<close>, which implements it, is not modelled.  The message calls the
  instructions make (\<open>evm.Call\<close> and so on) run the interpreter again: here they are the record \<open>vm_calls\<close>,
  and \<open>Evm_Run\<close> ties the recursion.
\<close>

section \<open>Interfaces and state\<close>

record Log =
  l_Address :: address
  l_Topics :: "hash list"
  l_Data :: bytes
  l_BlockNumber :: u64

record 'db vm_db =
  db_CreateAccount :: "address \<Rightarrow> 'db \<Rightarrow> 'db"
  db_SubBalance :: "address \<Rightarrow> int \<Rightarrow> 'db \<Rightarrow> 'db"
  db_AddBalance :: "address \<Rightarrow> int \<Rightarrow> 'db \<Rightarrow> 'db"
  db_GetBalance :: "'db \<Rightarrow> address \<Rightarrow> int"
  db_GetNonce :: "'db \<Rightarrow> address \<Rightarrow> u64"
  db_SetNonce :: "address \<Rightarrow> u64 \<Rightarrow> 'db \<Rightarrow> 'db"
  db_GetCodeHash :: "'db \<Rightarrow> address \<Rightarrow> hash"
  db_GetCode :: "'db \<Rightarrow> address \<Rightarrow> bytes"
  db_SetCode :: "address \<Rightarrow> bytes \<Rightarrow> 'db \<Rightarrow> 'db"
  db_GetCodeSize :: "'db \<Rightarrow> address \<Rightarrow> nat"
  db_AddRefund :: "u64 \<Rightarrow> 'db \<Rightarrow> 'db"
  db_GetRefund :: "'db \<Rightarrow> u64"
  db_GetState :: "'db \<Rightarrow> address \<Rightarrow> hash \<Rightarrow> hash"
  db_SetState :: "address \<Rightarrow> hash \<Rightarrow> hash \<Rightarrow> 'db \<Rightarrow> 'db"
  db_Suicide :: "address \<Rightarrow> 'db \<Rightarrow> 'db"
  db_HasSuicided :: "'db \<Rightarrow> address \<Rightarrow> bool"
  db_Exist :: "'db \<Rightarrow> address \<Rightarrow> bool"
  db_Empty :: "'db \<Rightarrow> address \<Rightarrow> bool"
  db_RevertToSnapshot :: "nat \<Rightarrow> 'db \<Rightarrow> 'db option"
  db_Snapshot :: "'db \<Rightarrow> nat \<times> 'db"
  db_AddLog :: "Log \<Rightarrow> 'db \<Rightarrow> 'db"
  db_AddPreimage :: "hash \<Rightarrow> bytes \<Rightarrow> 'db \<Rightarrow> 'db"

text \<open>The cryptographic libraries.  A point of a curve stands for its canonical encoding: \<open>bn_G1\<close> and \<open>bn_G2\<close> are
  \<open>Unmarshal\<close>, and fail on input that is no point.\<close>

record vm_crypto =
  Keccak256 :: "bytes \<Rightarrow> hash"
  x_sha256 :: "bytes \<Rightarrow> bytes"
  x_ripemd160 :: "bytes \<Rightarrow> bytes"
  x_Ecrecover :: "bytes \<Rightarrow> bytes \<Rightarrow> bytes option"
  bn_G1 :: "bytes \<Rightarrow> bytes option"
  bn_G2 :: "bytes \<Rightarrow> bytes option"
  bn_Add :: "bytes \<Rightarrow> bytes \<Rightarrow> bytes"
  bn_ScalarMult :: "bytes \<Rightarrow> int \<Rightarrow> bytes"
  bn_PairingCheck :: "bytes list \<Rightarrow> bytes list \<Rightarrow> bool"

record 'db vm_context =
  sdb :: "'db vm_db"
  crypt :: vm_crypto
  CanTransfer :: "'db \<Rightarrow> address \<Rightarrow> int \<Rightarrow> bool"
  Transfer :: "address \<Rightarrow> address \<Rightarrow> int \<Rightarrow> 'db \<Rightarrow> 'db"
  GetHash :: "u64 \<Rightarrow> hash"
  Origin :: address
  GasPrice :: int
  x_Coinbase :: address
  x_GasLimit :: u64
  BlockNumber :: int
  x_Time :: int
  x_Difficulty :: int
  chainConfig :: ChainConfig
  NoRecursion :: bool
  DisableGasMetering :: bool
  EnablePreimageRecording :: bool

text \<open>The EVM: \<open>readOnly\<close> and \<open>returnData\<close> are fields of its interpreter, and \<open>jumpdests\<close> is the map of
  analyses that the contracts of one call tree share.\<close>

record 'db EVM =
  StateDB :: 'db
  depth :: nat
  callGasTemp :: u64
  readOnly :: bool
  returnData :: bytes
  jumpdests :: "(hash, bytes) gomap"

record 'db frame =
  pc :: u64
  stk :: stack
  memory :: Memory
  contract :: contract
  evm :: "'db EVM"

type_synonym 'db op = "('db frame, vm_error, bytes) stm"

text \<open>Results of message calls: the returned data, the gas left and the error, if any.\<close>

type_synonym call_result = "bytes \<times> u64 \<times> vm_error option"

record 'db vm_calls =
  do_Call :: "ContractRef \<Rightarrow> address \<Rightarrow> bytes \<Rightarrow> u64 \<Rightarrow> int \<Rightarrow> 'db EVM \<Rightarrow> call_result \<times> 'db EVM"
  do_CallCode :: "ContractRef \<Rightarrow> address \<Rightarrow> bytes \<Rightarrow> u64 \<Rightarrow> int \<Rightarrow> 'db EVM \<Rightarrow> call_result \<times> 'db EVM"
  do_DelegateCall :: "ContractRef \<Rightarrow> address \<Rightarrow> bytes \<Rightarrow> u64 \<Rightarrow> 'db EVM \<Rightarrow> call_result \<times> 'db EVM"
  do_StaticCall :: "ContractRef \<Rightarrow> address \<Rightarrow> bytes \<Rightarrow> u64 \<Rightarrow> 'db EVM \<Rightarrow> call_result \<times> 'db EVM"
  do_Create :: "ContractRef \<Rightarrow> bytes \<Rightarrow> u64 \<Rightarrow> int \<Rightarrow> 'db EVM \<Rightarrow> (bytes \<times> address \<times> u64 \<times> vm_error option) \<times> 'db EVM"

section \<open>Conversions\<close>

definition BigToAddress :: "int \<Rightarrow> address" where
  "BigToAddress b = BytesToAddress (big_Bytes b)"

definition BigToHash :: "int \<Rightarrow> hash" where
  "BigToHash b = BytesToHash (big_Bytes b)"

definition word_Big :: "'a :: len word \<Rightarrow> int" where
  "word_Big w = big_SetBytes (word_bytes w)"

definition CreateAddress :: "(bytes \<Rightarrow> hash) \<Rightarrow> address \<Rightarrow> u64 \<Rightarrow> address" where
  "CreateAddress keccak b nonce =
     (let data = (case EncodeToBytes \<lparr>str = [], lheads = [], lhsize = 0\<rparr> (GSlice [GInterface (GBytes (word_bytes b)), GInterface (GUint nonce)]) of
                    Inl _ \<Rightarrow> [] | Inr d \<Rightarrow> d)
      in BytesToAddress (drop 12 (word_bytes (keccak data))))"

text \<open>\<open>big.Int.Div\<close> and \<open>Mod\<close> are Euclidean.\<close>

definition big_Div :: "int \<Rightarrow> int \<Rightarrow> int" where
  "big_Div x y = (if y < 0 then - (x div (- y)) else x div y)"

definition big_Mod :: "int \<Rightarrow> int \<Rightarrow> int" where
  "big_Mod x y = x mod \<bar>y\<bar>"

section \<open>Access to the stack\<close>

definition pop1 :: "(int \<Rightarrow> 'db op) \<Rightarrow> 'db op" where
  "pop1 k f = (case stk f of [] \<Rightarrow> (Inl VmPanic, f) | x # st \<Rightarrow> k x (f\<lparr>stk := st\<rparr>))"

definition pop2 :: "(int \<Rightarrow> int \<Rightarrow> 'db op) \<Rightarrow> 'db op" where
  "pop2 k = pop1 (\<lambda>x. pop1 (\<lambda>y. k x y))"

definition pop3 :: "(int \<Rightarrow> int \<Rightarrow> int \<Rightarrow> 'db op) \<Rightarrow> 'db op" where
  "pop3 k = pop1 (\<lambda>x. pop2 (\<lambda>y z. k x y z))"

definition push :: "int \<Rightarrow> 'db op" where
  "push v f = (Inr [], f\<lparr>stk := v # stk f\<rparr>)"

text \<open>\<open>memory.Get(offset.Int64(), size.Int64())\<close> and \<open>memory.Set(offset.Uint64(), size.Uint64(), value)\<close>.\<close>

definition mem_get :: "int \<Rightarrow> int \<Rightarrow> (bytes \<Rightarrow> 'db op) \<Rightarrow> 'db op" where
  "mem_get off sz k f = (case Memory_Get (big_Int64 off) (big_Int64 sz) (memory f) of
      Inl e \<Rightarrow> (Inl e, f) | Inr d \<Rightarrow> k d f)"

definition mem_set :: "int \<Rightarrow> int \<Rightarrow> bytes \<Rightarrow> 'db op" where
  "mem_set off sz value f = (case Memory_Set (big_Uint64 off) (big_Uint64 sz) value (memory f) of
      Inl e \<Rightarrow> (Inl e, f) | Inr m \<Rightarrow> (Inr [], f\<lparr>memory := m\<rparr>))"

definition upd_db :: "('db \<Rightarrow> 'db) \<Rightarrow> 'db frame \<Rightarrow> 'db frame" where
  "upd_db g f = f\<lparr>evm := (evm f)\<lparr>StateDB := g (StateDB (evm f))\<rparr>\<rparr>"

section \<open>Arithmetic\<close>

definition opAdd :: "'db op" where
  "opAdd = pop2 (\<lambda>x y. push (U256 (x + y)))"

definition opSub :: "'db op" where
  "opSub = pop2 (\<lambda>x y. push (U256 (x - y)))"

definition opMul :: "'db op" where
  "opMul = pop2 (\<lambda>x y. push (U256 (x * y)))"

definition opDiv :: "'db op" where
  "opDiv = pop2 (\<lambda>x y. if y \<noteq> 0 then push (U256 (big_Div x y)) else push 0)"

definition opSdiv :: "'db op" where
  "opSdiv = pop2 (\<lambda>a b. let x = S256 a; y = S256 b in
     if y = 0 then push 0
     else let n = (if x * y < 0 then -1 else 1) in push (U256 (big_Div \<bar>x\<bar> \<bar>y\<bar> * n)))"

definition opMod :: "'db op" where
  "opMod = pop2 (\<lambda>x y. if y = 0 then push 0 else push (U256 (big_Mod x y)))"

definition opSmod :: "'db op" where
  "opSmod = pop2 (\<lambda>a b. let x = S256 a; y = S256 b in
     if y = 0 then push 0
     else let n = (if x < 0 then -1 else 1) in push (U256 (big_Mod \<bar>x\<bar> \<bar>y\<bar> * n)))"

definition opExp :: "'db op" where
  "opExp = pop2 (\<lambda>base exponent. push (fst (math_Exp base exponent)))"

definition opSignExtend :: "'db op" where
  "opSignExtend = pop1 (\<lambda>back.
     if back < 31 then
       let b = unat (big_Uint64 back * 8 + 7) in
       pop1 (\<lambda>num. let mk = push_bit b 1 - 1 in
         push (U256 (if bit num b then num OR NOT mk else num AND mk)))
     else returnS [])"

definition opNot :: "'db op" where
  "opNot = pop1 (\<lambda>x. push (U256 (NOT x)))"

definition opLt :: "'db op" where
  "opLt = pop2 (\<lambda>x y. push (if x < y then 1 else 0))"

definition opGt :: "'db op" where
  "opGt = pop2 (\<lambda>x y. push (if x > y then 1 else 0))"

definition opSlt :: "'db op" where
  "opSlt = pop2 (\<lambda>a b. let x = S256 a; y = S256 b in push (if x < S256 y then 1 else 0))"

definition opSgt :: "'db op" where
  "opSgt = pop2 (\<lambda>a b. let x = S256 a; y = S256 b in push (if x > y then 1 else 0))"

definition opEq :: "'db op" where
  "opEq = pop2 (\<lambda>x y. push (if x = y then 1 else 0))"

definition opIszero :: "'db op" where
  "opIszero = pop1 (\<lambda>x. push (if x > 0 then 0 else 1))"

definition opAnd :: "'db op" where
  "opAnd = pop2 (\<lambda>x y. push (x AND y))"

definition opOr :: "'db op" where
  "opOr = pop2 (\<lambda>x y. push (x OR y))"

definition opXor :: "'db op" where
  "opXor = pop2 (\<lambda>x y. push (x XOR y))"

definition opByte :: "'db op" where
  "opByte = pop2 (\<lambda>th val. push (if th < 32 then uint (math_Byte val 32 (nat (big_Int64 th))) else 0))"

definition opAddmod :: "'db op" where
  "opAddmod = pop3 (\<lambda>x y z. if z > 0 then push (U256 (big_Mod (x + y) z)) else push 0)"

definition opMulmod :: "'db op" where
  "opMulmod = pop3 (\<lambda>x y z. if z > 0 then push (U256 (big_Mod (x * y) z)) else push 0)"

section \<open>Environment\<close>

definition opSha3 :: "'db vm_context \<Rightarrow> 'db op" where
  "opSha3 cx = pop2 (\<lambda>off sz. mem_get off sz (\<lambda>data f.
     let h = Keccak256 (crypt cx) data;
         f' = (if EnablePreimageRecording cx then upd_db (db_AddPreimage (sdb cx) h data) f else f)
     in push (word_Big h) f'))"

definition opAddress :: "'db op" where
  "opAddress f = push (word_Big (c_self (contract f))) f"

definition opBalance :: "'db vm_context \<Rightarrow> 'db op" where
  "opBalance cx = pop1 (\<lambda>a f. push (db_GetBalance (sdb cx) (StateDB (evm f)) (BigToAddress a)) f)"

definition opOrigin :: "'db vm_context \<Rightarrow> 'db op" where
  "opOrigin cx = push (word_Big (Origin cx))"

definition opCaller :: "'db op" where
  "opCaller f = push (word_Big (CallerAddress (contract f))) f"

definition opCallValue :: "'db op" where
  "opCallValue f = push (c_value (contract f)) f"

definition opCallDataLoad :: "'db op" where
  "opCallDataLoad = pop1 (\<lambda>x f. push (big_SetBytes (getDataBig (c_Input (contract f)) x 32)) f)"

definition opCallDataSize :: "'db op" where
  "opCallDataSize f = push (int (length (c_Input (contract f)))) f"

definition opCallDataCopy :: "'db op" where
  "opCallDataCopy = pop3 (\<lambda>memOffset dataOffset len f.
     mem_set memOffset len (getDataBig (c_Input (contract f)) dataOffset len) f)"

definition opReturnDataSize :: "'db op" where
  "opReturnDataSize f = push (int (length (returnData (evm f)))) f"

definition opReturnDataCopy :: "'db op" where
  "opReturnDataCopy = pop3 (\<lambda>memOffset dataOffset len f.
     let en = dataOffset + len; rd = returnData (evm f) in
     if big_BitLen en > 64 \<or> (of_nat (length rd) :: u64) < big_Uint64 en then failS errReturnDataOutOfBounds f
     else if big_Uint64 dataOffset \<le> big_Uint64 en
     then mem_set memOffset len
            (take (unat (big_Uint64 en) - unat (big_Uint64 dataOffset)) (drop (unat (big_Uint64 dataOffset)) rd)) f
     else failS VmPanic f)"

definition opExtCodeSize :: "'db vm_context \<Rightarrow> 'db op" where
  "opExtCodeSize cx = pop1 (\<lambda>a f. push (int (db_GetCodeSize (sdb cx) (StateDB (evm f)) (BigToAddress a))) f)"

definition opCodeSize :: "'db op" where
  "opCodeSize f = push (int (length (Code (contract f)))) f"

definition opCodeCopy :: "'db op" where
  "opCodeCopy = pop3 (\<lambda>memOffset codeOffset len f.
     mem_set memOffset len (getDataBig (Code (contract f)) codeOffset len) f)"

definition opExtCodeCopy :: "'db vm_context \<Rightarrow> 'db op" where
  "opExtCodeCopy cx = pop1 (\<lambda>addr. pop3 (\<lambda>memOffset codeOffset len f.
     let code = db_GetCode (sdb cx) (StateDB (evm f)) (BigToAddress addr)
     in mem_set memOffset len (getDataBig code codeOffset len) f))"

definition opGasprice :: "'db vm_context \<Rightarrow> 'db op" where
  "opGasprice cx = push (GasPrice cx)"

definition opBlockhash :: "'db vm_context \<Rightarrow> 'db op" where
  "opBlockhash cx = pop1 (\<lambda>num.
     let n = BlockNumber cx - 257 in
     if num > n \<and> num < BlockNumber cx then push (word_Big (GetHash cx (big_Uint64 num))) else push 0)"

definition opCoinbase :: "'db vm_context \<Rightarrow> 'db op" where
  "opCoinbase cx = push (word_Big (x_Coinbase cx))"

definition opTimestamp :: "'db vm_context \<Rightarrow> 'db op" where
  "opTimestamp cx = push (U256 (x_Time cx))"

definition opNumber :: "'db vm_context \<Rightarrow> 'db op" where
  "opNumber cx = push (U256 (BlockNumber cx))"

definition opDifficulty :: "'db vm_context \<Rightarrow> 'db op" where
  "opDifficulty cx = push (U256 (x_Difficulty cx))"

definition opGasLimit :: "'db vm_context \<Rightarrow> 'db op" where
  "opGasLimit cx = push (U256 (uint (x_GasLimit cx)))"

section \<open>Stack, memory, storage and flow\<close>

definition opPop :: "'db op" where
  "opPop = pop1 (\<lambda>_. returnS [])"

definition opMload :: "'db op" where
  "opMload = pop1 (\<lambda>off. mem_get off 32 (\<lambda>d. push (big_SetBytes d)))"

definition opMstore :: "'db op" where
  "opMstore = pop2 (\<lambda>mStart val. mem_set mStart 32 (PaddedBigBytes val 32))"

definition opMstore8 :: "'db op" where
  "opMstore8 = pop2 (\<lambda>a b f.
     let off = big_Int64 a; val = big_Int64 b in
     if 0 \<le> off \<and> off < int (length (store (memory f)))
     then returnS [] (f\<lparr>memory := (memory f)\<lparr>store := (store (memory f))[nat off := word_of_int (val AND 0xFF)]\<rparr>\<rparr>)
     else failS VmPanic f)"

definition opSload :: "'db vm_context \<Rightarrow> 'db op" where
  "opSload cx = pop1 (\<lambda>x f. push (word_Big (db_GetState (sdb cx) (StateDB (evm f)) (c_self (contract f)) (BigToHash x))) f)"

definition opSstore :: "'db vm_context \<Rightarrow> 'db op" where
  "opSstore cx = pop2 (\<lambda>x val f.
     returnS [] (upd_db (db_SetState (sdb cx) (c_self (contract f)) (BigToHash x) (BigToHash val)) f))"

text \<open>The check that \<open>opJump\<close> and \<open>opJumpi\<close> share.\<close>

definition jump_to :: "int \<Rightarrow> 'db op" where
  "jump_to pos f = (case destinations_has (jumpdests (evm f)) (CodeHash (contract f)) (Code (contract f)) pos of
      Inl e \<Rightarrow> (Inl e, f)
    | Inr (ok, d) \<Rightarrow>
        let f' = f\<lparr>evm := (evm f)\<lparr>jumpdests := d\<rparr>\<rparr> in
        if ok then returnS [] (f'\<lparr>pc := big_Uint64 pos\<rparr>)
        else failS (errInvalidJump (GetOp (contract f) (big_Uint64 pos)) pos) f')"

definition opJump :: "'db op" where
  "opJump = pop1 jump_to"

definition opJumpi :: "'db op" where
  "opJumpi = pop2 (\<lambda>pos cond. if cond \<noteq> 0 then jump_to pos else (\<lambda>f. returnS [] (f\<lparr>pc := pc f + 1\<rparr>)))"

definition opJumpdest :: "'db op" where
  "opJumpdest = returnS []"

definition opPc :: "'db op" where
  "opPc f = push (uint (pc f)) f"

definition opMsize :: "'db op" where
  "opMsize f = push (int (length (store (memory f)))) f"

definition opGas :: "'db op" where
  "opGas f = push (uint (Gas (contract f))) f"

section \<open>Message calls\<close>

definition CallStipend :: u64 where "CallStipend = 2300"

text \<open>A panic of the callee, or exhausted fuel, is one of the caller.\<close>

definition fatal :: "vm_error \<Rightarrow> bool" where
  "fatal e \<longleftrightarrow> e = VmPanic \<or> e = VmUnresolved"

definition add_gas :: "u64 \<Rightarrow> 'db frame \<Rightarrow> 'db frame" where
  "add_gas g f = f\<lparr>contract := (contract f)\<lparr>Gas := Gas (contract f) + g\<rparr>\<rparr>"

definition opCreate :: "'db vm_context \<Rightarrow> 'db vm_calls \<Rightarrow> 'db op" where
  "opCreate cx K = pop3 (\<lambda>value off sz. mem_get off sz (\<lambda>input f.
     let gas0 = Gas (contract f);
         gas = (if IsEIP150 (chainConfig cx) (Some (BlockNumber cx)) then gas0 - gas0 div 64 else gas0);
         c = snd (UseGas gas (contract f));
         ((res, addr, returnGas, suberr), evm') = do_Create K (ContractCaller c) input gas value (evm f);
         f1 = f\<lparr>contract := c, evm := evm'\<rparr>;
         v = (if IsHomestead (chainConfig cx) (Some (BlockNumber cx)) \<and> suberr = Some ErrCodeStoreOutOfGas then 0
              else if suberr \<noteq> None \<and> suberr \<noteq> Some ErrCodeStoreOutOfGas then 0
              else word_Big addr);
         f2 = add_gas returnGas (f1\<lparr>stk := v # stk f1\<rparr>)
     in case suberr of
          Some e \<Rightarrow> if fatal e then failS e f2
                    else if e = errExecutionReverted then returnS res f2 else returnS [] f2
        | None \<Rightarrow> returnS [] f2))"

text \<open>What the four call instructions do with the result of the call.\<close>

definition call_end :: "int \<Rightarrow> int \<Rightarrow> call_result \<times> 'db EVM \<Rightarrow> 'db op" where
  "call_end retOffset retSize r f =
     (let ((ret, returnGas, err), evm') = r;
          f1 = f\<lparr>evm := evm', stk := (if err \<noteq> None then 0 else 1) # stk f\<rparr>
      in case err of
           None \<Rightarrow> bindS (mem_set retOffset retSize ret) (\<lambda>_ f2. returnS ret (add_gas returnGas f2)) f1
         | Some e \<Rightarrow>
             if fatal e then failS e f1
             else if e = errExecutionReverted
             then bindS (mem_set retOffset retSize ret) (\<lambda>_ f2. returnS ret (add_gas returnGas f2)) f1
             else returnS ret (add_gas returnGas f1))"

definition opCall :: "'db vm_calls \<Rightarrow> 'db op" where
  "opCall K = pop1 (\<lambda>_. pop3 (\<lambda>addr value inOffset. pop3 (\<lambda>inSize retOffset retSize.
     mem_get inOffset inSize (\<lambda>args f.
       let gas0 = callGasTemp (evm f); toAddr = BigToAddress addr; value' = U256 value;
           gas = (if value' \<noteq> 0 then gas0 + CallStipend else gas0)
       in call_end retOffset retSize (do_Call K (ContractCaller (contract f)) toAddr args gas value' (evm f)) f))))"

definition opCallCode :: "'db vm_calls \<Rightarrow> 'db op" where
  "opCallCode K = pop1 (\<lambda>_. pop3 (\<lambda>addr value inOffset. pop3 (\<lambda>inSize retOffset retSize.
     mem_get inOffset inSize (\<lambda>args f.
       let gas0 = callGasTemp (evm f); toAddr = BigToAddress addr; value' = U256 value;
           gas = (if value' \<noteq> 0 then gas0 + CallStipend else gas0)
       in call_end retOffset retSize (do_CallCode K (ContractCaller (contract f)) toAddr args gas value' (evm f)) f))))"

definition opDelegateCall :: "'db vm_calls \<Rightarrow> 'db op" where
  "opDelegateCall K = pop1 (\<lambda>_. pop3 (\<lambda>addr inOffset inSize. pop2 (\<lambda>retOffset retSize.
     mem_get inOffset inSize (\<lambda>args f.
       call_end retOffset retSize
         (do_DelegateCall K (ContractCaller (contract f)) (BigToAddress addr) args (callGasTemp (evm f)) (evm f)) f))))"

definition opStaticCall :: "'db vm_calls \<Rightarrow> 'db op" where
  "opStaticCall K = pop1 (\<lambda>_. pop3 (\<lambda>addr inOffset inSize. pop2 (\<lambda>retOffset retSize.
     mem_get inOffset inSize (\<lambda>args f.
       call_end retOffset retSize
         (do_StaticCall K (ContractCaller (contract f)) (BigToAddress addr) args (callGasTemp (evm f)) (evm f)) f))))"

definition mem_ptr :: "int \<Rightarrow> int \<Rightarrow> 'db op" where
  "mem_ptr off sz f = (Memory_GetPtr (big_Int64 off) (big_Int64 sz) (memory f), f)"

definition opReturn :: "'db op" where
  "opReturn = pop2 mem_ptr"

definition opRevert :: "'db op" where
  "opRevert = pop2 mem_ptr"

definition opStop :: "'db op" where
  "opStop = returnS []"

definition opSuicide :: "'db vm_context \<Rightarrow> 'db op" where
  "opSuicide cx f =
     (let self = c_self (contract f); balance = db_GetBalance (sdb cx) (StateDB (evm f)) self
      in pop1 (\<lambda>a f. returnS [] (upd_db (db_Suicide (sdb cx) self) (upd_db (db_AddBalance (sdb cx) (BigToAddress a) balance) f))) f)"

section \<open>Instruction families\<close>

fun pop_topics :: "nat \<Rightarrow> (hash list \<Rightarrow> 'db op) \<Rightarrow> 'db op" where
  "pop_topics 0 k = k []"
| "pop_topics (Suc n) k = pop1 (\<lambda>x. pop_topics n (\<lambda>ts. k (BigToHash x # ts)))"

definition makeLog :: "'db vm_context \<Rightarrow> nat \<Rightarrow> 'db op" where
  "makeLog cx n = pop2 (\<lambda>mStart mSize. pop_topics n (\<lambda>topics. mem_get mStart mSize (\<lambda>d f.
     returnS [] (upd_db (db_AddLog (sdb cx)
       \<lparr>l_Address = c_self (contract f), l_Topics = topics, l_Data = d, l_BlockNumber = big_Uint64 (BlockNumber cx)\<rparr>) f))))"

definition makePush :: "u64 \<Rightarrow> nat \<Rightarrow> 'db op" where
  "makePush sz pushByteSize f =
     (let code = Code (contract f); codeLen = int (length code);
          next = sint (pc f + 1);
          startMin = (if next < codeLen then next else codeLen);
          endMin = (if startMin + int pushByteSize < codeLen then startMin + int pushByteSize else codeLen)
      in if startMin < 0 then failS VmPanic f
         else (Inr [], f\<lparr>stk := big_SetBytes (RightPadBytes (take (nat (endMin - startMin)) (drop (nat startMin) code)) pushByteSize) # stk f,
                        pc := pc f + sz\<rparr>))"

definition makeDup :: "nat \<Rightarrow> 'db op" where
  "makeDup n f = (case stack_dup n (stk f) of Inl e \<Rightarrow> (Inl e, f) | Inr st \<Rightarrow> (Inr [], f\<lparr>stk := st\<rparr>))"

definition makeSwap :: "nat \<Rightarrow> 'db op" where
  "makeSwap n f = (case stack_swap (n + 1) (stk f) of Inl e \<Rightarrow> (Inl e, f) | Inr st \<Rightarrow> (Inr [], f\<lparr>stk := st\<rparr>))"

end
