(* ===== verification/Evm_Gas.thy ===== *)
theory Evm_Gas
  imports Evm_Instr
begin

text \<open>
  Gas: the prices of \<open>params\<close>, the gas functions of \<open>core/vm/gas.go\<close> and \<open>core/vm/gas_table.go\<close> and the memory
  size functions of \<open>core/vm/memory_table.go\<close>.  A gas function runs on the frame before the instruction: it
  reads the stack, moves \<open>lastGasCost\<close> of the memory, and may set \<open>callGasTemp\<close> or add a refund.
\<close>

section \<open>Prices\<close>

record GasTable =
  gt_ExtcodeSize :: u64
  gt_ExtcodeCopy :: u64
  gt_Balance :: u64
  gt_SLoad :: u64
  gt_Calls :: u64
  gt_Suicide :: u64
  gt_ExpByte :: u64
  gt_CreateBySuicide :: u64

definition GasTableHomestead :: GasTable where
  "GasTableHomestead =
     \<lparr>gt_ExtcodeSize = 20, gt_ExtcodeCopy = 20, gt_Balance = 20, gt_SLoad = 50, gt_Calls = 40, gt_Suicide = 0,
      gt_ExpByte = 10, gt_CreateBySuicide = 0\<rparr>"

definition GasTableEIP150 :: GasTable where
  "GasTableEIP150 =
     \<lparr>gt_ExtcodeSize = 700, gt_ExtcodeCopy = 700, gt_Balance = 400, gt_SLoad = 200, gt_Calls = 700, gt_Suicide = 5000,
      gt_ExpByte = 10, gt_CreateBySuicide = 25000\<rparr>"

definition GasTableEIP158 :: GasTable where
  "GasTableEIP158 =
     \<lparr>gt_ExtcodeSize = 700, gt_ExtcodeCopy = 700, gt_Balance = 400, gt_SLoad = 200, gt_Calls = 700, gt_Suicide = 5000,
      gt_ExpByte = 50, gt_CreateBySuicide = 25000\<rparr>"

definition chain_GasTable :: "ChainConfig \<Rightarrow> int option \<Rightarrow> GasTable" where
  "chain_GasTable c num =
     (if num = None then GasTableHomestead
      else if IsEIP158 c num then GasTableEIP158
      else if IsEIP150 c num then GasTableEIP150
      else GasTableHomestead)"

definition GasQuickStep :: u64 where "GasQuickStep = 2"
definition GasFastestStep :: u64 where "GasFastestStep = 3"
definition GasFastStep :: u64 where "GasFastStep = 5"
definition GasMidStep :: u64 where "GasMidStep = 8"
definition GasSlowStep :: u64 where "GasSlowStep = 10"
definition GasExtStep :: u64 where "GasExtStep = 20"

definition CallValueTransferGas :: u64 where "CallValueTransferGas = 9000"
definition CallNewAccountGas :: u64 where "CallNewAccountGas = 25000"
definition QuadCoeffDiv :: u64 where "QuadCoeffDiv = 512"
definition SstoreSetGas :: u64 where "SstoreSetGas = 20000"
definition LogDataGas :: u64 where "LogDataGas = 8"
definition Sha3Gas :: u64 where "Sha3Gas = 30"
definition Sha3WordGas :: u64 where "Sha3WordGas = 6"
definition SstoreResetGas :: u64 where "SstoreResetGas = 5000"
definition SstoreClearGas :: u64 where "SstoreClearGas = 5000"
definition SstoreRefundGas :: u64 where "SstoreRefundGas = 15000"
definition JumpdestGas :: u64 where "JumpdestGas = 1"
definition CreateDataGas :: u64 where "CreateDataGas = 200"
definition CallCreateDepth :: nat where "CallCreateDepth = 1024"
definition LogGas :: u64 where "LogGas = 375"
definition CopyGas :: u64 where "CopyGas = 3"
definition LogTopicGas :: u64 where "LogTopicGas = 375"
definition CreateGas :: u64 where "CreateGas = 32000"
definition SuicideRefundGas :: u64 where "SuicideRefundGas = 24000"
definition MemoryGas :: u64 where "MemoryGas = 3"
definition MaxCodeSize :: nat where "MaxCodeSize = 24576"

lemmas gas_prices = GasQuickStep_def GasFastestStep_def GasFastStep_def GasMidStep_def GasSlowStep_def GasExtStep_def
  CallValueTransferGas_def CallNewAccountGas_def QuadCoeffDiv_def SstoreSetGas_def LogDataGas_def Sha3Gas_def
  Sha3WordGas_def SstoreResetGas_def SstoreClearGas_def SstoreRefundGas_def JumpdestGas_def CreateDataGas_def
  LogGas_def CopyGas_def LogTopicGas_def CreateGas_def SuicideRefundGas_def MemoryGas_def CallStipend_def

section \<open>\<open>gas.go\<close>\<close>

definition callGas :: "GasTable \<Rightarrow> u64 \<Rightarrow> u64 \<Rightarrow> int \<Rightarrow> vm_error + u64" where
  "callGas gt availableGas base callCost =
     (let avail = availableGas - base; gas = avail - avail div 64 in
      if gt_CreateBySuicide gt > 0 \<and> (big_BitLen callCost > 64 \<or> gas < big_Uint64 callCost) then Inr gas
      else if big_BitLen callCost > 64 then Inl errGasUintOverflow
      else Inr (big_Uint64 callCost))"

section \<open>Gas functions\<close>

type_synonym 'db gasFunc = "GasTable \<Rightarrow> u64 \<Rightarrow> ('db frame, vm_error, u64) stm"

text \<open>The checked additions and products, and \<open>stack.Back(n)\<close>.\<close>

definition safe_add :: "u64 \<Rightarrow> u64 \<Rightarrow> (u64 \<Rightarrow> ('s, vm_error, 'a) stm) \<Rightarrow> ('s, vm_error, 'a) stm" where
  "safe_add a b k = (case SafeAdd a b of (g, overflow) \<Rightarrow> if overflow then failS errGasUintOverflow else k g)"

definition safe_mul :: "u64 \<Rightarrow> u64 \<Rightarrow> (u64 \<Rightarrow> ('s, vm_error, 'a) stm) \<Rightarrow> ('s, vm_error, 'a) stm" where
  "safe_mul a b k = (case SafeMul a b of (g, overflow) \<Rightarrow> if overflow then failS errGasUintOverflow else k g)"

definition big_u64 :: "int \<Rightarrow> (u64 \<Rightarrow> ('s, vm_error, 'a) stm) \<Rightarrow> ('s, vm_error, 'a) stm" where
  "big_u64 v k = (case bigUint64 v of (g, overflow) \<Rightarrow> if overflow then failS errGasUintOverflow else k g)"

definition backS :: "nat \<Rightarrow> (int \<Rightarrow> ('db frame, vm_error, 'a) stm) \<Rightarrow> ('db frame, vm_error, 'a) stm" where
  "backS n k f = (case stack_Back (stk f) n of Inl e \<Rightarrow> (Inl e, f) | Inr v \<Rightarrow> k v f)"

definition memoryGasCost :: "u64 \<Rightarrow> Memory \<Rightarrow> (vm_error + u64) \<times> Memory" where
  "memoryGasCost newMemSize mem =
     (if newMemSize = 0 then (Inr 0, mem)
      else if newMemSize > 0xffffffffe0 then (Inl errGasUintOverflow, mem)
      else
        let newMemSizeWords = toWordSize newMemSize; newMemSize' = newMemSizeWords * 32 in
        if newMemSize' > of_nat (length (store mem)) then
          let square = newMemSizeWords * newMemSizeWords;
              linCoef = newMemSizeWords * MemoryGas;
              quadCoef = square div QuadCoeffDiv;
              newTotalFee = linCoef + quadCoef
          in (Inr (newTotalFee - lastGasCost mem), mem\<lparr>lastGasCost := newTotalFee\<rparr>)
        else (Inr 0, mem))"

definition memGas :: "u64 \<Rightarrow> ('db frame, vm_error, u64) stm" where
  "memGas sz f = (case memoryGasCost sz (memory f) of (r, m) \<Rightarrow> (r, f\<lparr>memory := m\<rparr>))"

definition constGasFunc :: "u64 \<Rightarrow> 'db gasFunc" where
  "constGasFunc gas gt memorySize = returnS gas"

definition gasCallDataCopy :: "'db gasFunc" where
  "gasCallDataCopy gt memorySize = bindS (memGas memorySize) (\<lambda>gas. safe_add gas GasFastestStep (\<lambda>gas.
     backS 2 (\<lambda>v. big_u64 v (\<lambda>words. safe_mul (toWordSize words) CopyGas (\<lambda>words. safe_add gas words returnS)))))"

definition gasReturnDataCopy :: "'db gasFunc" where
  "gasReturnDataCopy gt memorySize = bindS (memGas memorySize) (\<lambda>gas. safe_add gas GasFastestStep (\<lambda>gas.
     backS 2 (\<lambda>v. big_u64 v (\<lambda>words. safe_mul (toWordSize words) CopyGas (\<lambda>words. safe_add gas words returnS)))))"

definition gasSStore :: "'db vm_context \<Rightarrow> 'db gasFunc" where
  "gasSStore cx gt memorySize = backS 1 (\<lambda>y. backS 0 (\<lambda>x f.
     let val = db_GetState (sdb cx) (StateDB (evm f)) (c_self (contract f)) (BigToHash x) in
     if val = 0 \<and> BigToHash y \<noteq> 0 then returnS SstoreSetGas f
     else if val \<noteq> 0 \<and> BigToHash y = 0 then returnS SstoreClearGas (upd_db (db_AddRefund (sdb cx) SstoreRefundGas) f)
     else returnS SstoreResetGas f))"

definition makeGasLog :: "u64 \<Rightarrow> 'db gasFunc" where
  "makeGasLog n gt memorySize = backS 1 (\<lambda>v. big_u64 v (\<lambda>requestedSize. bindS (memGas memorySize) (\<lambda>gas.
     safe_add gas LogGas (\<lambda>gas. safe_add gas (n * LogTopicGas) (\<lambda>gas.
       safe_mul requestedSize LogDataGas (\<lambda>memorySizeGas. safe_add gas memorySizeGas returnS))))))"

definition gasSha3 :: "'db gasFunc" where
  "gasSha3 gt memorySize = bindS (memGas memorySize) (\<lambda>gas. safe_add gas Sha3Gas (\<lambda>gas.
     backS 1 (\<lambda>v. big_u64 v (\<lambda>wordGas. safe_mul (toWordSize wordGas) Sha3WordGas (\<lambda>wordGas. safe_add gas wordGas returnS)))))"

definition gasCodeCopy :: "'db gasFunc" where
  "gasCodeCopy gt memorySize = bindS (memGas memorySize) (\<lambda>gas. safe_add gas GasFastestStep (\<lambda>gas.
     backS 2 (\<lambda>v. big_u64 v (\<lambda>wordGas. safe_mul (toWordSize wordGas) CopyGas (\<lambda>wordGas. safe_add gas wordGas returnS)))))"

definition gasExtCodeCopy :: "'db gasFunc" where
  "gasExtCodeCopy gt memorySize = bindS (memGas memorySize) (\<lambda>gas. safe_add gas (gt_ExtcodeCopy gt) (\<lambda>gas.
     backS 3 (\<lambda>v. big_u64 v (\<lambda>wordGas. safe_mul (toWordSize wordGas) CopyGas (\<lambda>wordGas. safe_add gas wordGas returnS)))))"

definition memGas' :: "u64 \<Rightarrow> ('db frame, vm_error, u64) stm" where
  "memGas' sz f = (case memGas sz f of (Inl _, f') \<Rightarrow> (Inl errGasUintOverflow, f') | r \<Rightarrow> r)"

definition gasMLoad :: "'db gasFunc" where
  "gasMLoad gt memorySize = bindS (memGas' memorySize) (\<lambda>gas. safe_add gas GasFastestStep returnS)"

definition gasMStore8 :: "'db gasFunc" where
  "gasMStore8 gt memorySize = bindS (memGas' memorySize) (\<lambda>gas. safe_add gas GasFastestStep returnS)"

definition gasMStore :: "'db gasFunc" where
  "gasMStore gt memorySize = bindS (memGas' memorySize) (\<lambda>gas. safe_add gas GasFastestStep returnS)"

definition gasCreate :: "'db gasFunc" where
  "gasCreate gt memorySize = bindS (memGas memorySize) (\<lambda>gas. safe_add gas CreateGas returnS)"

definition gasBalance :: "'db gasFunc" where
  "gasBalance gt memorySize = returnS (gt_Balance gt)"

definition gasExtCodeSize :: "'db gasFunc" where
  "gasExtCodeSize gt memorySize = returnS (gt_ExtcodeSize gt)"

definition gasSLoad :: "'db gasFunc" where
  "gasSLoad gt memorySize = returnS (gt_SLoad gt)"

definition gasExp :: "'db gasFunc" where
  "gasExp gt memorySize = backS 1 (\<lambda>v.
     let expByteLen = of_nat ((big_BitLen v + 7) div 8) in safe_add (expByteLen * gt_ExpByte gt) GasSlowStep returnS)"

text \<open>The end of the gas functions of calls: the gas for the callee is kept in \<open>callGasTemp\<close>.\<close>

definition call_gas :: "GasTable \<Rightarrow> u64 \<Rightarrow> ('db frame, vm_error, u64) stm" where
  "call_gas gt gas = backS 0 (\<lambda>cost f. case callGas gt (Gas (contract f)) gas cost of
      Inl e \<Rightarrow> failS e (f\<lparr>evm := (evm f)\<lparr>callGasTemp := 0\<rparr>\<rparr>)
    | Inr g \<Rightarrow> safe_add gas g returnS (f\<lparr>evm := (evm f)\<lparr>callGasTemp := g\<rparr>\<rparr>))"

definition gasCall :: "'db vm_context \<Rightarrow> 'db gasFunc" where
  "gasCall cx gt memorySize = backS 2 (\<lambda>v. backS 1 (\<lambda>a f.
     let transfersValue = (v \<noteq> 0); addr = BigToAddress a;
         eip158 = IsEIP158 (chainConfig cx) (Some (BlockNumber cx));
         gas0 = gt_Calls gt;
         gas1 = (if eip158
                 then if transfersValue \<and> db_Empty (sdb cx) (StateDB (evm f)) addr then gas0 + CallNewAccountGas else gas0
                 else if \<not> db_Exist (sdb cx) (StateDB (evm f)) addr then gas0 + CallNewAccountGas else gas0);
         gas2 = (if transfersValue then gas1 + CallValueTransferGas else gas1)
     in bindS (memGas memorySize) (\<lambda>memoryGas. safe_add gas2 memoryGas (call_gas gt)) f))"

definition gasCallCode :: "'db gasFunc" where
  "gasCallCode gt memorySize = backS 2 (\<lambda>v.
     let gas = (if v \<noteq> 0 then gt_Calls gt + CallValueTransferGas else gt_Calls gt)
     in bindS (memGas memorySize) (\<lambda>memoryGas. safe_add gas memoryGas (call_gas gt)))"

definition gasReturn :: "'db gasFunc" where
  "gasReturn gt memorySize = memGas memorySize"

definition gasRevert :: "'db gasFunc" where
  "gasRevert gt memorySize = memGas memorySize"

definition gasSuicide :: "'db vm_context \<Rightarrow> 'db gasFunc" where
  "gasSuicide cx gt memorySize f =
     (let db = StateDB (evm f); self = c_self (contract f);
          refund = (\<lambda>f. if \<not> db_HasSuicided (sdb cx) db self then upd_db (db_AddRefund (sdb cx) SuicideRefundGas) f else f)
      in if IsEIP150 (chainConfig cx) (Some (BlockNumber cx)) then
           backS 0 (\<lambda>a f.
             let addr = BigToAddress a;
                 gas = (if IsEIP158 (chainConfig cx) (Some (BlockNumber cx))
                        then if db_Empty (sdb cx) db addr \<and> db_GetBalance (sdb cx) db self \<noteq> 0
                             then gt_Suicide gt + gt_CreateBySuicide gt else gt_Suicide gt
                        else if \<not> db_Exist (sdb cx) db addr then gt_Suicide gt + gt_CreateBySuicide gt else gt_Suicide gt)
             in returnS gas (refund f)) f
         else returnS 0 (refund f))"

definition gasDelegateCall :: "'db gasFunc" where
  "gasDelegateCall gt memorySize = bindS (memGas memorySize) (\<lambda>gas. safe_add gas (gt_Calls gt) (call_gas gt))"

definition gasStaticCall :: "'db gasFunc" where
  "gasStaticCall gt memorySize = bindS (memGas memorySize) (\<lambda>gas. safe_add gas (gt_Calls gt) (call_gas gt))"

definition gasPush :: "'db gasFunc" where
  "gasPush gt memorySize = returnS GasFastestStep"

definition gasSwap :: "'db gasFunc" where
  "gasSwap gt memorySize = returnS GasFastestStep"

definition gasDup :: "'db gasFunc" where
  "gasDup gt memorySize = returnS GasFastestStep"

section \<open>Memory sizes\<close>

type_synonym memorySizeFunc = "stack \<Rightarrow> vm_error + int"

text \<open>\<open>calcMemSize(stack.Back(i), stack.Back(j))\<close>.\<close>

definition back_size :: "nat \<Rightarrow> nat \<Rightarrow> memorySizeFunc" where
  "back_size i j st = bindE (stack_Back st i) (\<lambda>off. bindE (stack_Back st j) (\<lambda>l. Inr (calcMemSize off l)))"

definition memorySha3 :: memorySizeFunc where
  "memorySha3 = back_size 0 1"

definition memoryCallDataCopy :: memorySizeFunc where
  "memoryCallDataCopy = back_size 0 2"

definition memoryReturnDataCopy :: memorySizeFunc where
  "memoryReturnDataCopy = back_size 0 2"

definition memoryCodeCopy :: memorySizeFunc where
  "memoryCodeCopy = back_size 0 2"

definition memoryExtCodeCopy :: memorySizeFunc where
  "memoryExtCodeCopy = back_size 1 3"

definition memoryMLoad :: memorySizeFunc where
  "memoryMLoad st = bindE (stack_Back st 0) (\<lambda>off. Inr (calcMemSize off 32))"

definition memoryMStore8 :: memorySizeFunc where
  "memoryMStore8 st = bindE (stack_Back st 0) (\<lambda>off. Inr (calcMemSize off 1))"

definition memoryMStore :: memorySizeFunc where
  "memoryMStore st = bindE (stack_Back st 0) (\<lambda>off. Inr (calcMemSize off 32))"

definition memoryCreate :: memorySizeFunc where
  "memoryCreate = back_size 1 2"

definition memoryCall :: memorySizeFunc where
  "memoryCall st = bindE (back_size 5 6 st) (\<lambda>x. bindE (back_size 3 4 st) (\<lambda>y. Inr (BigMax x y)))"

definition memoryDelegateCall :: memorySizeFunc where
  "memoryDelegateCall st = bindE (back_size 4 5 st) (\<lambda>x. bindE (back_size 2 3 st) (\<lambda>y. Inr (BigMax x y)))"

definition memoryStaticCall :: memorySizeFunc where
  "memoryStaticCall st = bindE (back_size 4 5 st) (\<lambda>x. bindE (back_size 2 3 st) (\<lambda>y. Inr (BigMax x y)))"

definition memoryReturn :: memorySizeFunc where
  "memoryReturn = back_size 0 1"

definition memoryRevert :: memorySizeFunc where
  "memoryRevert = back_size 0 1"

definition memoryLog :: memorySizeFunc where
  "memoryLog = back_size 0 1"

end
