(* ===== verification/Evm_Table.thy ===== *)
theory Evm_Table
  imports Evm_Gas
begin

text \<open>
  The instruction tables of \<open>core/vm/jump_table.go\<close>.  A table \<open>[256]operation\<close> is the list of its entries that
  are set; every other index holds the zero operation, which is not valid.
\<close>

section \<open>Operations\<close>

record 'db operation =
  execute :: "'db op"
  gasCost :: "'db gasFunc"
  validateStack :: "stack \<Rightarrow> vm_error + unit"
  memorySize :: "memorySizeFunc option"
  halts :: bool
  jumps :: bool
  writes :: bool
  valid :: bool
  reverts :: bool
  returns :: bool

text \<open>The zero operation: to call one of its nil functions is a panic.\<close>

definition nil_operation :: "'db operation" where
  "nil_operation = \<lparr>execute = failS VmPanic, gasCost = (\<lambda>_ _. failS VmPanic), validateStack = (\<lambda>_. Inl VmPanic),
     memorySize = None, halts = False, jumps = False, writes = False, valid = False, reverts = False, returns = False\<rparr>"

definition plain :: "'db op \<Rightarrow> 'db gasFunc \<Rightarrow> (stack \<Rightarrow> vm_error + unit) \<Rightarrow> 'db operation" where
  "plain ex gas check = nil_operation\<lparr>execute := ex, gasCost := gas, validateStack := check, valid := True\<rparr>"

lemma plain_simps [simp]:
  "execute (plain ex gas check) = ex" "gasCost (plain ex gas check) = gas" "validateStack (plain ex gas check) = check"
  "memorySize (plain ex gas check) = None" "halts (plain ex gas check) = False" "jumps (plain ex gas check) = False"
  "writes (plain ex gas check) = False" "valid (plain ex gas check) = True" "reverts (plain ex gas check) = False"
  "returns (plain ex gas check) = False"
  by (simp_all add: plain_def nil_operation_def)

section \<open>Opcodes\<close>

abbreviation (input) OP_STOP :: byte where "OP_STOP \<equiv> 0x00"
abbreviation (input) OP_ADD :: byte where "OP_ADD \<equiv> 0x01"
abbreviation (input) OP_MUL :: byte where "OP_MUL \<equiv> 0x02"
abbreviation (input) OP_SUB :: byte where "OP_SUB \<equiv> 0x03"
abbreviation (input) OP_DIV :: byte where "OP_DIV \<equiv> 0x04"
abbreviation (input) OP_SDIV :: byte where "OP_SDIV \<equiv> 0x05"
abbreviation (input) OP_MOD :: byte where "OP_MOD \<equiv> 0x06"
abbreviation (input) OP_SMOD :: byte where "OP_SMOD \<equiv> 0x07"
abbreviation (input) OP_ADDMOD :: byte where "OP_ADDMOD \<equiv> 0x08"
abbreviation (input) OP_MULMOD :: byte where "OP_MULMOD \<equiv> 0x09"
abbreviation (input) OP_EXP :: byte where "OP_EXP \<equiv> 0x0A"
abbreviation (input) OP_SIGNEXTEND :: byte where "OP_SIGNEXTEND \<equiv> 0x0B"
abbreviation (input) OP_LT :: byte where "OP_LT \<equiv> 0x10"
abbreviation (input) OP_GT :: byte where "OP_GT \<equiv> 0x11"
abbreviation (input) OP_SLT :: byte where "OP_SLT \<equiv> 0x12"
abbreviation (input) OP_SGT :: byte where "OP_SGT \<equiv> 0x13"
abbreviation (input) OP_EQ :: byte where "OP_EQ \<equiv> 0x14"
abbreviation (input) OP_ISZERO :: byte where "OP_ISZERO \<equiv> 0x15"
abbreviation (input) OP_AND :: byte where "OP_AND \<equiv> 0x16"
abbreviation (input) OP_XOR :: byte where "OP_XOR \<equiv> 0x18"
abbreviation (input) OP_OR :: byte where "OP_OR \<equiv> 0x17"
abbreviation (input) OP_NOT :: byte where "OP_NOT \<equiv> 0x19"
abbreviation (input) OP_BYTE :: byte where "OP_BYTE \<equiv> 0x1A"
abbreviation (input) OP_SHA3 :: byte where "OP_SHA3 \<equiv> 0x20"
abbreviation (input) OP_ADDRESS :: byte where "OP_ADDRESS \<equiv> 0x30"
abbreviation (input) OP_BALANCE :: byte where "OP_BALANCE \<equiv> 0x31"
abbreviation (input) OP_ORIGIN :: byte where "OP_ORIGIN \<equiv> 0x32"
abbreviation (input) OP_CALLER :: byte where "OP_CALLER \<equiv> 0x33"
abbreviation (input) OP_CALLVALUE :: byte where "OP_CALLVALUE \<equiv> 0x34"
abbreviation (input) OP_CALLDATALOAD :: byte where "OP_CALLDATALOAD \<equiv> 0x35"
abbreviation (input) OP_CALLDATASIZE :: byte where "OP_CALLDATASIZE \<equiv> 0x36"
abbreviation (input) OP_CALLDATACOPY :: byte where "OP_CALLDATACOPY \<equiv> 0x37"
abbreviation (input) OP_CODESIZE :: byte where "OP_CODESIZE \<equiv> 0x38"
abbreviation (input) OP_CODECOPY :: byte where "OP_CODECOPY \<equiv> 0x39"
abbreviation (input) OP_GASPRICE :: byte where "OP_GASPRICE \<equiv> 0x3A"
abbreviation (input) OP_EXTCODESIZE :: byte where "OP_EXTCODESIZE \<equiv> 0x3B"
abbreviation (input) OP_EXTCODECOPY :: byte where "OP_EXTCODECOPY \<equiv> 0x3C"
abbreviation (input) OP_BLOCKHASH :: byte where "OP_BLOCKHASH \<equiv> 0x40"
abbreviation (input) OP_COINBASE :: byte where "OP_COINBASE \<equiv> 0x41"
abbreviation (input) OP_TIMESTAMP :: byte where "OP_TIMESTAMP \<equiv> 0x42"
abbreviation (input) OP_NUMBER :: byte where "OP_NUMBER \<equiv> 0x43"
abbreviation (input) OP_DIFFICULTY :: byte where "OP_DIFFICULTY \<equiv> 0x44"
abbreviation (input) OP_GASLIMIT :: byte where "OP_GASLIMIT \<equiv> 0x45"
abbreviation (input) OP_POP :: byte where "OP_POP \<equiv> 0x50"
abbreviation (input) OP_MLOAD :: byte where "OP_MLOAD \<equiv> 0x51"
abbreviation (input) OP_MSTORE :: byte where "OP_MSTORE \<equiv> 0x52"
abbreviation (input) OP_MSTORE8 :: byte where "OP_MSTORE8 \<equiv> 0x53"
abbreviation (input) OP_SLOAD :: byte where "OP_SLOAD \<equiv> 0x54"
abbreviation (input) OP_SSTORE :: byte where "OP_SSTORE \<equiv> 0x55"
abbreviation (input) OP_JUMP :: byte where "OP_JUMP \<equiv> 0x56"
abbreviation (input) OP_JUMPI :: byte where "OP_JUMPI \<equiv> 0x57"
abbreviation (input) OP_PC :: byte where "OP_PC \<equiv> 0x58"
abbreviation (input) OP_MSIZE :: byte where "OP_MSIZE \<equiv> 0x59"
abbreviation (input) OP_GAS :: byte where "OP_GAS \<equiv> 0x5A"
abbreviation (input) OP_JUMPDEST :: byte where "OP_JUMPDEST \<equiv> 0x5B"
abbreviation (input) OP_CREATE :: byte where "OP_CREATE \<equiv> 0xF0"
abbreviation (input) OP_CALL :: byte where "OP_CALL \<equiv> 0xF1"
abbreviation (input) OP_CALLCODE :: byte where "OP_CALLCODE \<equiv> 0xF2"
abbreviation (input) OP_RETURN :: byte where "OP_RETURN \<equiv> 0xF3"
abbreviation (input) OP_SELFDESTRUCT :: byte where "OP_SELFDESTRUCT \<equiv> 0xFF"
abbreviation (input) OP_DELEGATECALL :: byte where "OP_DELEGATECALL \<equiv> 0xF4"
abbreviation (input) OP_STATICCALL :: byte where "OP_STATICCALL \<equiv> 0xFA"
abbreviation (input) OP_RETURNDATASIZE :: byte where "OP_RETURNDATASIZE \<equiv> 0x3D"
abbreviation (input) OP_RETURNDATACOPY :: byte where "OP_RETURNDATACOPY \<equiv> 0x3E"
abbreviation (input) OP_REVERT :: byte where "OP_REVERT \<equiv> 0xFD"
abbreviation (input) OP_DUP1 :: byte where "OP_DUP1 \<equiv> 0x80"
abbreviation (input) OP_SWAP1 :: byte where "OP_SWAP1 \<equiv> 0x90"
abbreviation (input) OP_LOG0 :: byte where "OP_LOG0 \<equiv> 0xA0"
abbreviation (input) OP_LOG1 :: byte where "OP_LOG1 \<equiv> 0xA1"
abbreviation (input) OP_LOG2 :: byte where "OP_LOG2 \<equiv> 0xA2"
abbreviation (input) OP_LOG3 :: byte where "OP_LOG3 \<equiv> 0xA3"
abbreviation (input) OP_LOG4 :: byte where "OP_LOG4 \<equiv> 0xA4"

section \<open>The Frontier table\<close>

definition frontier_arithmetic :: "(byte \<times> 'db operation) list" where
  "frontier_arithmetic =
     [(OP_STOP, (plain opStop (constGasFunc 0) (makeStackFunc 0 0))\<lparr>halts := True\<rparr>),
      (OP_ADD, plain opAdd (constGasFunc GasFastestStep) (makeStackFunc 2 1)),
      (OP_MUL, plain opMul (constGasFunc GasFastStep) (makeStackFunc 2 1)),
      (OP_SUB, plain opSub (constGasFunc GasFastestStep) (makeStackFunc 2 1)),
      (OP_DIV, plain opDiv (constGasFunc GasFastStep) (makeStackFunc 2 1)),
      (OP_SDIV, plain opSdiv (constGasFunc GasFastStep) (makeStackFunc 2 1)),
      (OP_MOD, plain opMod (constGasFunc GasFastStep) (makeStackFunc 2 1)),
      (OP_SMOD, plain opSmod (constGasFunc GasFastStep) (makeStackFunc 2 1)),
      (OP_ADDMOD, plain opAddmod (constGasFunc GasMidStep) (makeStackFunc 3 1)),
      (OP_MULMOD, plain opMulmod (constGasFunc GasMidStep) (makeStackFunc 3 1)),
      (OP_EXP, plain opExp gasExp (makeStackFunc 2 1)),
      (OP_SIGNEXTEND, plain opSignExtend (constGasFunc GasFastStep) (makeStackFunc 2 1))]"

definition frontier_comparison :: "(byte \<times> 'db operation) list" where
  "frontier_comparison =
     [(OP_LT, plain opLt (constGasFunc GasFastestStep) (makeStackFunc 2 1)),
      (OP_GT, plain opGt (constGasFunc GasFastestStep) (makeStackFunc 2 1)),
      (OP_SLT, plain opSlt (constGasFunc GasFastestStep) (makeStackFunc 2 1)),
      (OP_SGT, plain opSgt (constGasFunc GasFastestStep) (makeStackFunc 2 1)),
      (OP_EQ, plain opEq (constGasFunc GasFastestStep) (makeStackFunc 2 1)),
      (OP_ISZERO, plain opIszero (constGasFunc GasFastestStep) (makeStackFunc 1 1)),
      (OP_AND, plain opAnd (constGasFunc GasFastestStep) (makeStackFunc 2 1)),
      (OP_XOR, plain opXor (constGasFunc GasFastestStep) (makeStackFunc 2 1)),
      (OP_OR, plain opOr (constGasFunc GasFastestStep) (makeStackFunc 2 1)),
      (OP_NOT, plain opNot (constGasFunc GasFastestStep) (makeStackFunc 1 1)),
      (OP_BYTE, plain opByte (constGasFunc GasFastestStep) (makeStackFunc 2 1))]"

definition frontier_environment :: "'db vm_context \<Rightarrow> (byte \<times> 'db operation) list" where
  "frontier_environment cx =
     [(OP_SHA3, (plain (opSha3 cx) gasSha3 (makeStackFunc 2 1))\<lparr>memorySize := Some memorySha3\<rparr>),
      (OP_ADDRESS, plain opAddress (constGasFunc GasQuickStep) (makeStackFunc 0 1)),
      (OP_BALANCE, plain (opBalance cx) gasBalance (makeStackFunc 1 1)),
      (OP_ORIGIN, plain (opOrigin cx) (constGasFunc GasQuickStep) (makeStackFunc 0 1)),
      (OP_CALLER, plain opCaller (constGasFunc GasQuickStep) (makeStackFunc 0 1)),
      (OP_CALLVALUE, plain opCallValue (constGasFunc GasQuickStep) (makeStackFunc 0 1)),
      (OP_CALLDATALOAD, plain opCallDataLoad (constGasFunc GasFastestStep) (makeStackFunc 1 1)),
      (OP_CALLDATASIZE, plain opCallDataSize (constGasFunc GasQuickStep) (makeStackFunc 0 1)),
      (OP_CALLDATACOPY, (plain opCallDataCopy gasCallDataCopy (makeStackFunc 3 0))\<lparr>memorySize := Some memoryCallDataCopy\<rparr>),
      (OP_CODESIZE, plain opCodeSize (constGasFunc GasQuickStep) (makeStackFunc 0 1)),
      (OP_CODECOPY, (plain opCodeCopy gasCodeCopy (makeStackFunc 3 0))\<lparr>memorySize := Some memoryCodeCopy\<rparr>),
      (OP_GASPRICE, plain (opGasprice cx) (constGasFunc GasQuickStep) (makeStackFunc 0 1)),
      (OP_EXTCODESIZE, plain (opExtCodeSize cx) gasExtCodeSize (makeStackFunc 1 1)),
      (OP_EXTCODECOPY, (plain (opExtCodeCopy cx) gasExtCodeCopy (makeStackFunc 4 0))\<lparr>memorySize := Some memoryExtCodeCopy\<rparr>)]"

definition frontier_block :: "'db vm_context \<Rightarrow> (byte \<times> 'db operation) list" where
  "frontier_block cx =
     [(OP_BLOCKHASH, plain (opBlockhash cx) (constGasFunc GasExtStep) (makeStackFunc 1 1)),
      (OP_COINBASE, plain (opCoinbase cx) (constGasFunc GasQuickStep) (makeStackFunc 0 1)),
      (OP_TIMESTAMP, plain (opTimestamp cx) (constGasFunc GasQuickStep) (makeStackFunc 0 1)),
      (OP_NUMBER, plain (opNumber cx) (constGasFunc GasQuickStep) (makeStackFunc 0 1)),
      (OP_DIFFICULTY, plain (opDifficulty cx) (constGasFunc GasQuickStep) (makeStackFunc 0 1)),
      (OP_GASLIMIT, plain (opGasLimit cx) (constGasFunc GasQuickStep) (makeStackFunc 0 1))]"

definition frontier_flow :: "'db vm_context \<Rightarrow> (byte \<times> 'db operation) list" where
  "frontier_flow cx =
     [(OP_POP, plain opPop (constGasFunc GasQuickStep) (makeStackFunc 1 0)),
      (OP_MLOAD, (plain opMload gasMLoad (makeStackFunc 1 1))\<lparr>memorySize := Some memoryMLoad\<rparr>),
      (OP_MSTORE, (plain opMstore gasMStore (makeStackFunc 2 0))\<lparr>memorySize := Some memoryMStore\<rparr>),
      (OP_MSTORE8, (plain opMstore8 gasMStore8 (makeStackFunc 2 0))\<lparr>memorySize := Some memoryMStore8\<rparr>),
      (OP_SLOAD, plain (opSload cx) gasSLoad (makeStackFunc 1 1)),
      (OP_SSTORE, (plain (opSstore cx) (gasSStore cx) (makeStackFunc 2 0))\<lparr>writes := True\<rparr>),
      (OP_JUMP, (plain opJump (constGasFunc GasMidStep) (makeStackFunc 1 0))\<lparr>jumps := True\<rparr>),
      (OP_JUMPI, (plain opJumpi (constGasFunc GasSlowStep) (makeStackFunc 2 0))\<lparr>jumps := True\<rparr>),
      (OP_PC, plain opPc (constGasFunc GasQuickStep) (makeStackFunc 0 1)),
      (OP_MSIZE, plain opMsize (constGasFunc GasQuickStep) (makeStackFunc 0 1)),
      (OP_GAS, plain opGas (constGasFunc GasQuickStep) (makeStackFunc 0 1)),
      (OP_JUMPDEST, plain opJumpdest (constGasFunc JumpdestGas) (makeStackFunc 0 0))]"

text \<open>The entries \<open>PUSH1\<close> to \<open>PUSH32\<close>, \<open>DUP1\<close> to \<open>DUP16\<close> and \<open>SWAP1\<close> to \<open>SWAP16\<close> differ in their number only.\<close>

definition frontier_push :: "(byte \<times> 'db operation) list" where
  "frontier_push = map (\<lambda>n. (PUSH1 + of_nat (n - 1), plain (makePush (of_nat n) n) gasPush (makeStackFunc 0 1))) [1..<33]"

definition frontier_dup :: "(byte \<times> 'db operation) list" where
  "frontier_dup = map (\<lambda>n. (OP_DUP1 + of_nat (n - 1), plain (makeDup n) gasDup (makeDupStackFunc n))) [1..<17]"

definition frontier_swap :: "(byte \<times> 'db operation) list" where
  "frontier_swap = map (\<lambda>n. (OP_SWAP1 + of_nat (n - 1), plain (makeSwap n) gasSwap (makeSwapStackFunc (n + 1)))) [1..<17]"

definition frontier_log :: "'db vm_context \<Rightarrow> (byte \<times> 'db operation) list" where
  "frontier_log cx =
     [(OP_LOG0, (plain (makeLog cx 0) (makeGasLog 0) (makeStackFunc 2 0))\<lparr>memorySize := Some memoryLog, writes := True\<rparr>),
      (OP_LOG1, (plain (makeLog cx 1) (makeGasLog 1) (makeStackFunc 3 0))\<lparr>memorySize := Some memoryLog, writes := True\<rparr>),
      (OP_LOG2, (plain (makeLog cx 2) (makeGasLog 2) (makeStackFunc 4 0))\<lparr>memorySize := Some memoryLog, writes := True\<rparr>),
      (OP_LOG3, (plain (makeLog cx 3) (makeGasLog 3) (makeStackFunc 5 0))\<lparr>memorySize := Some memoryLog, writes := True\<rparr>),
      (OP_LOG4, (plain (makeLog cx 4) (makeGasLog 4) (makeStackFunc 6 0))\<lparr>memorySize := Some memoryLog, writes := True\<rparr>)]"

definition frontier_call :: "'db vm_context \<Rightarrow> 'db vm_calls \<Rightarrow> (byte \<times> 'db operation) list" where
  "frontier_call cx K =
     [(OP_CREATE, (plain (opCreate cx K) gasCreate (makeStackFunc 3 1))\<lparr>memorySize := Some memoryCreate, writes := True, returns := True\<rparr>),
      (OP_CALL, (plain (opCall K) (gasCall cx) (makeStackFunc 7 1))\<lparr>memorySize := Some memoryCall, returns := True\<rparr>),
      (OP_CALLCODE, (plain (opCallCode K) gasCallCode (makeStackFunc 7 1))\<lparr>memorySize := Some memoryCall, returns := True\<rparr>),
      (OP_RETURN, (plain opReturn gasReturn (makeStackFunc 2 0))\<lparr>memorySize := Some memoryReturn, halts := True\<rparr>),
      (OP_SELFDESTRUCT, (plain (opSuicide cx) (gasSuicide cx) (makeStackFunc 1 0))\<lparr>halts := True, writes := True\<rparr>)]"

definition NewFrontierInstructionSet :: "'db vm_context \<Rightarrow> 'db vm_calls \<Rightarrow> (byte \<times> 'db operation) list" where
  "NewFrontierInstructionSet cx K =
     frontier_arithmetic @ frontier_comparison @ frontier_environment cx @ frontier_block cx @ frontier_flow cx
     @ frontier_push @ frontier_dup @ frontier_swap @ frontier_log cx @ frontier_call cx K"

section \<open>Homestead and Byzantium\<close>

text \<open>\<open>instructionSet[op] = \<dots>\<close> sets an entry that was not set before.\<close>

definition NewHomesteadInstructionSet :: "'db vm_context \<Rightarrow> 'db vm_calls \<Rightarrow> (byte \<times> 'db operation) list" where
  "NewHomesteadInstructionSet cx K =
     NewFrontierInstructionSet cx K @
     [(OP_DELEGATECALL, (plain (opDelegateCall K) gasDelegateCall (makeStackFunc 6 1))\<lparr>memorySize := Some memoryDelegateCall, returns := True\<rparr>)]"

definition NewByzantiumInstructionSet :: "'db vm_context \<Rightarrow> 'db vm_calls \<Rightarrow> (byte \<times> 'db operation) list" where
  "NewByzantiumInstructionSet cx K =
     NewHomesteadInstructionSet cx K @
     [(OP_STATICCALL, (plain (opStaticCall K) gasStaticCall (makeStackFunc 6 1))\<lparr>memorySize := Some memoryStaticCall, returns := True\<rparr>),
      (OP_RETURNDATASIZE, plain opReturnDataSize (constGasFunc GasQuickStep) (makeStackFunc 0 1)),
      (OP_RETURNDATACOPY, (plain opReturnDataCopy gasReturnDataCopy (makeStackFunc 3 0))\<lparr>memorySize := Some memoryReturnDataCopy\<rparr>),
      (OP_REVERT, (plain opRevert gasRevert (makeStackFunc 2 0))\<lparr>memorySize := Some memoryRevert, reverts := True, returns := True\<rparr>)]"

text \<open>The choice that \<open>NewInterpreter\<close> makes; the configuration brings no table of its own.\<close>

definition JumpTable :: "'db vm_context \<Rightarrow> 'db vm_calls \<Rightarrow> (byte \<times> 'db operation) list" where
  "JumpTable cx K =
     (if IsByzantium (chainConfig cx) (Some (BlockNumber cx)) then NewByzantiumInstructionSet cx K
      else if IsHomestead (chainConfig cx) (Some (BlockNumber cx)) then NewHomesteadInstructionSet cx K
      else NewFrontierInstructionSet cx K)"

definition table_lookup :: "(byte \<times> 'db operation) list \<Rightarrow> byte \<Rightarrow> 'db operation" where
  "table_lookup t op = (case map_of t op of None \<Rightarrow> nil_operation | Some e \<Rightarrow> e)"

lemmas table_parts = frontier_arithmetic_def frontier_comparison_def frontier_environment_def frontier_block_def
  frontier_flow_def frontier_push_def frontier_dup_def frontier_swap_def frontier_log_def frontier_call_def

lemma table_lookup_cases:
  "table_lookup t op = nil_operation \<or> (op, table_lookup t op) \<in> set t"
  by (auto simp: table_lookup_def map_of_SomeD split: option.split)

lemma JumpTable_byzantium: "set (JumpTable cx K) \<subseteq> set (NewByzantiumInstructionSet cx K)"
  by (auto simp: JumpTable_def NewByzantiumInstructionSet_def NewHomesteadInstructionSet_def)

lemma later_entries_new:
  "set (map fst (NewFrontierInstructionSet cx K)) \<inter> {OP_DELEGATECALL, OP_STATICCALL, OP_RETURNDATASIZE, OP_RETURNDATACOPY, OP_REVERT} = {}"
  by (simp add: NewFrontierInstructionSet_def table_parts PUSH1_def upt_rec)

end
