(* ===== verification/Evm_Precompiled.thy ===== *)
theory Evm_Precompiled
  imports Evm_Table
begin

text \<open>
  The native contracts of \<open>core/vm/contracts.go\<close>: their prices and their results, over the cryptographic
  libraries of \<open>vm_crypto\<close>.
\<close>

section \<open>Signatures\<close>

definition secp256k1_N :: int where
  "secp256k1_N = 0xfffffffffffffffffffffffffffffffebaaedce6af48a03bbfd25e8cd0364141"

definition secp256k1_halfN :: int where
  "secp256k1_halfN = big_Div secp256k1_N 2"

definition ValidateSignatureValues :: "byte \<Rightarrow> int \<Rightarrow> int \<Rightarrow> bool \<Rightarrow> bool" where
  "ValidateSignatureValues v r s homestead =
     (if r < 1 \<or> s < 1 then False
      else if homestead \<and> s > secp256k1_halfN then False
      else r < secp256k1_N \<and> s < secp256k1_N \<and> (v = 0 \<or> v = 1))"

text \<open>\<open>input[i:j]\<close> of an input long enough.\<close>

definition sub :: "nat \<Rightarrow> nat \<Rightarrow> bytes \<Rightarrow> bytes" where
  "sub i j b = take (j - i) (drop i b)"

definition ecrecover_Run :: "vm_crypto \<Rightarrow> bytes \<Rightarrow> vm_error + bytes" where
  "ecrecover_Run x input0 =
     (let input = RightPadBytes input0 128;
          r = big_SetBytes (sub 64 96 input); s = big_SetBytes (sub 96 128 input); v = input ! 63 - 27
      in if \<not> allZero (sub 32 63 input) \<or> \<not> ValidateSignatureValues v r s False then Inr []
         else case x_Ecrecover x (take 32 input) (sub 64 128 input @ [v]) of
                None \<Rightarrow> Inr []
              | Some pubKey \<Rightarrow> if pubKey = [] then Inl VmPanic
                               else Inr (replicate 12 0 @ drop 12 (word_bytes (Keccak256 x (tl pubKey)))))"

definition wordGas :: "bytes \<Rightarrow> u64 \<Rightarrow> u64 \<Rightarrow> u64" where
  "wordGas input perWord base = of_nat (length input + 31) div 32 * perWord + base"

section \<open>Modular exponentiation\<close>

definition modexp_header :: "bytes \<Rightarrow> vm_error + (int \<times> int \<times> int) \<times> bytes" where
  "modexp_header input =
     bindE (getData input 0 32) (\<lambda>b. bindE (getData input 32 32) (\<lambda>e. bindE (getData input 64 32) (\<lambda>m.
       Inr ((big_SetBytes b, big_SetBytes e, big_SetBytes m), if length input > 96 then drop 96 input else []))))"

definition modexp_complexity :: "int \<Rightarrow> int" where
  "modexp_complexity x =
     (if x \<le> 64 then x * x
      else if x \<le> 1024 then big_Div (x * x) 4 + (96 * x - 3072)
      else big_Div (x * x) 16 + (480 * x - 199680))"

definition bigModExp_RequiredGas :: "bytes \<Rightarrow> vm_error + u64" where
  "bigModExp_RequiredGas input0 = bindE (modexp_header input0) (\<lambda>((baseLen, expLen, modLen), input).
     bindE (if int (length input) \<le> baseLen then Inr 0
            else if expLen > 32 then bindE (getData input (big_Uint64 baseLen) 32) (\<lambda>d. Inr (big_SetBytes d))
            else bindE (getData input (big_Uint64 baseLen) (big_Uint64 expLen)) (\<lambda>d. Inr (big_SetBytes d))) (\<lambda>expHead.
       let bitlen = big_BitLen expHead;
           msb = (if bitlen > 0 then bitlen - 1 else 0);
           adjExpLen = (if expLen > 32 then 8 * (expLen - 32) else 0) + int msb;
           gas = big_Div (modexp_complexity (BigMax modLen baseLen) * BigMax adjExpLen 1) 20
       in if big_BitLen gas > 64 then Inr MaxUint64 else Inr (big_Uint64 gas)))"

definition bigModExp_Run :: "bytes \<Rightarrow> vm_error + bytes" where
  "bigModExp_Run input0 = bindE (modexp_header input0) (\<lambda>((b, e, m), input).
     let baseLen = big_Uint64 b; expLen = big_Uint64 e; modLen = big_Uint64 m in
     if baseLen = 0 \<and> modLen = 0 then Inr []
     else bindE (getData input 0 baseLen) (\<lambda>base. bindE (getData input baseLen expLen) (\<lambda>exp.
            bindE (getData input (baseLen + expLen) modLen) (\<lambda>m.
              let md = big_SetBytes m in
              if big_BitLen md = 0 then Inr (LeftPadBytes [] (nat (sint modLen)))
              else Inr (LeftPadBytes (big_Bytes (big_SetBytes base ^ nat (big_SetBytes exp) mod md)) (nat (sint modLen)))))))"

section \<open>The curve bn256\<close>

definition newCurvePoint :: "vm_crypto \<Rightarrow> bytes \<Rightarrow> vm_error + bytes" where
  "newCurvePoint x blob = (case bn_G1 x blob of None \<Rightarrow> Inl errBadPoint | Some p \<Rightarrow> Inr p)"

definition newTwistPoint :: "vm_crypto \<Rightarrow> bytes \<Rightarrow> vm_error + bytes" where
  "newTwistPoint x blob = (case bn_G2 x blob of None \<Rightarrow> Inl errBadPoint | Some p \<Rightarrow> Inr p)"

definition bn256Add_Run :: "vm_crypto \<Rightarrow> bytes \<Rightarrow> vm_error + bytes" where
  "bn256Add_Run x input =
     bindE (getData input 0 64) (\<lambda>d. bindE (newCurvePoint x d) (\<lambda>a.
       bindE (getData input 64 64) (\<lambda>d. bindE (newCurvePoint x d) (\<lambda>b. Inr (bn_Add x a b)))))"

definition bn256ScalarMul_Run :: "vm_crypto \<Rightarrow> bytes \<Rightarrow> vm_error + bytes" where
  "bn256ScalarMul_Run x input =
     bindE (getData input 0 64) (\<lambda>d. bindE (newCurvePoint x d) (\<lambda>p.
       bindE (getData input 64 32) (\<lambda>k. Inr (bn_ScalarMult x p (big_SetBytes k)))))"

function pairing_points :: "vm_crypto \<Rightarrow> bytes \<Rightarrow> vm_error + bytes list \<times> bytes list" where
  "pairing_points x input =
     (if input = [] then Inr ([], [])
      else bindE (newCurvePoint x (sub 0 64 input)) (\<lambda>c. bindE (newTwistPoint x (sub 64 192 input)) (\<lambda>t.
             bindE (pairing_points x (drop 192 input)) (\<lambda>(cs, ts). Inr (c # cs, t # ts)))))"
  by pat_completeness auto
termination
  by (relation "measure (\<lambda>(x, input). length input)") auto

declare pairing_points.simps [simp del]

definition bn256Pairing_Run :: "vm_crypto \<Rightarrow> bytes \<Rightarrow> vm_error + bytes" where
  "bn256Pairing_Run x input =
     (if length input mod 192 > 0 then Inl errBadPairingInput
      else bindE (pairing_points x input) (\<lambda>(cs, ts).
             Inr (replicate 31 0 @ [if bn_PairingCheck x cs ts then 1 else 0])))"

section \<open>The contracts\<close>

datatype PrecompiledContract = ecrecover | sha256hash | ripemd160hash | dataCopy | bigModExp | bn256Add
  | bn256ScalarMul | bn256Pairing

primrec RequiredGas :: "PrecompiledContract \<Rightarrow> bytes \<Rightarrow> vm_error + u64" where
  "RequiredGas ecrecover input = Inr 3000"
| "RequiredGas sha256hash input = Inr (wordGas input 12 60)"
| "RequiredGas ripemd160hash input = Inr (wordGas input 120 600)"
| "RequiredGas dataCopy input = Inr (wordGas input 3 15)"
| "RequiredGas bigModExp input = bigModExp_RequiredGas input"
| "RequiredGas bn256Add input = Inr 500"
| "RequiredGas bn256ScalarMul input = Inr 40000"
| "RequiredGas bn256Pairing input = Inr (100000 + of_nat (length input div 192) * 80000)"

primrec precompiled_Run :: "vm_crypto \<Rightarrow> PrecompiledContract \<Rightarrow> bytes \<Rightarrow> vm_error + bytes" where
  "precompiled_Run x ecrecover input = ecrecover_Run x input"
| "precompiled_Run x sha256hash input = Inr (x_sha256 x input)"
| "precompiled_Run x ripemd160hash input = Inr (LeftPadBytes (x_ripemd160 x input) 32)"
| "precompiled_Run x dataCopy input = Inr input"
| "precompiled_Run x bigModExp input = bigModExp_Run input"
| "precompiled_Run x bn256Add input = bn256Add_Run x input"
| "precompiled_Run x bn256ScalarMul input = bn256ScalarMul_Run x input"
| "precompiled_Run x bn256Pairing input = bn256Pairing_Run x input"

definition PrecompiledContractsHomestead :: "(address \<times> PrecompiledContract) list" where
  "PrecompiledContractsHomestead =
     [(BytesToAddress [1], ecrecover), (BytesToAddress [2], sha256hash), (BytesToAddress [3], ripemd160hash),
      (BytesToAddress [4], dataCopy)]"

definition PrecompiledContractsByzantium :: "(address \<times> PrecompiledContract) list" where
  "PrecompiledContractsByzantium =
     [(BytesToAddress [1], ecrecover), (BytesToAddress [2], sha256hash), (BytesToAddress [3], ripemd160hash),
      (BytesToAddress [4], dataCopy), (BytesToAddress [5], bigModExp), (BytesToAddress [6], bn256Add),
      (BytesToAddress [7], bn256ScalarMul), (BytesToAddress [8], bn256Pairing)]"

definition precompiles :: "'db vm_context \<Rightarrow> (address \<times> PrecompiledContract) list" where
  "precompiles cx = (if IsByzantium (chainConfig cx) (Some (BlockNumber cx)) then PrecompiledContractsByzantium
                     else PrecompiledContractsHomestead)"

definition RunPrecompiledContract :: "vm_crypto \<Rightarrow> PrecompiledContract \<Rightarrow> bytes \<Rightarrow> contract \<Rightarrow> (vm_error + bytes) \<times> contract" where
  "RunPrecompiledContract x p input c =
     (case RequiredGas p input of
        Inl e \<Rightarrow> (Inl e, c)
      | Inr gas \<Rightarrow> (case UseGas gas c of
          (True, c') \<Rightarrow> (precompiled_Run x p input, c')
        | (False, c') \<Rightarrow> (Inl ErrOutOfGas, c')))"

end
