(* ===== verification/Evm_Run.thy ===== *)
theory Evm_Run
  imports Evm_Precompiled
begin

text \<open>
  The interpreter (\<open>core/vm/interpreter.go\<close>), the message calls (\<open>core/vm/evm.go\<close>) and the functions that
  \<open>core/evm.go\<close> gives to the virtual machine.

  The loop of \<open>Run\<close> has fuel, since code may loop; with gas metering, fuel above the gas of the contract is
  enough (\<open>Evm_Terminates\<close>).  The recursion of \<open>Run\<close> through the call instructions is bounded by a depth,
  above the limit \<open>CallCreateDepth\<close> that the code itself enforces.  The abort flag, which another goroutine
  sets, and the tracer are not modelled.
\<close>

section \<open>The interpreter\<close>

definition enforceRestrictions :: "'db vm_context \<Rightarrow> byte \<Rightarrow> 'db operation \<Rightarrow> 'db frame \<Rightarrow> vm_error + unit" where
  "enforceRestrictions cx op oper f =
     (if r_IsByzantium (chain_Rules (chainConfig cx) (Some (BlockNumber cx))) \<and> readOnly (evm f) then
        if writes oper then Inl errWriteProtection
        else if op = OP_CALL then bindE (stack_Back (stk f) 2) (\<lambda>v. if big_BitLen v > 0 then Inl errWriteProtection else Inr ())
        else Inr ()
      else Inr ())"

text \<open>The memory an instruction needs, rounded up to words.\<close>

definition memory_need :: "'db operation \<Rightarrow> stack \<Rightarrow> vm_error + u64" where
  "memory_need oper st = (case memorySize oper of
      None \<Rightarrow> Inr 0
    | Some g \<Rightarrow> bindE (g st) (\<lambda>v. case bigUint64 v of (memSize, overflow) \<Rightarrow>
        if overflow then Inl errGasUintOverflow
        else case SafeMul (toWordSize memSize) 32 of (sz, overflow) \<Rightarrow>
          if overflow then Inl errGasUintOverflow else Inr sz))"

text \<open>\<open>cost, err = operation.gasCost(\<dots>); if err != nil || !contract.UseGas(cost) { return nil, ErrOutOfGas }\<close>.\<close>

definition charge :: "'db vm_context \<Rightarrow> 'db operation \<Rightarrow> u64 \<Rightarrow> ('db frame, vm_error, unit) stm" where
  "charge cx oper memSize f =
     (if DisableGasMetering cx then (Inr (), f)
      else case gasCost oper (chain_GasTable (chainConfig cx) (Some (BlockNumber cx))) memSize f of
        (Inl e, f') \<Rightarrow> (Inl (if fatal e then e else ErrOutOfGas), f')
      | (Inr cost, f') \<Rightarrow> (case UseGas cost (contract f') of
            (True, c) \<Rightarrow> (Inr (), f'\<lparr>contract := c\<rparr>)
          | (False, c) \<Rightarrow> (Inl ErrOutOfGas, f'\<lparr>contract := c\<rparr>)))"

definition grow :: "u64 \<Rightarrow> 'db frame \<Rightarrow> 'db frame" where
  "grow memSize f = (if memSize > 0 then f\<lparr>memory := Memory_Resize memSize (memory f)\<rparr> else f)"

text \<open>What follows the instruction: the loop goes on (\<open>None\<close>) or returns data and an error.\<close>

definition step_end :: "'db operation \<Rightarrow> (vm_error + bytes) \<times> 'db frame \<Rightarrow> (bytes \<times> vm_error option) option \<times> 'db frame" where
  "step_end oper r =
     (let (res, f) = r;
          data = (case res of Inl _ \<Rightarrow> [] | Inr d \<Rightarrow> d);
          f' = (if returns oper then f\<lparr>evm := (evm f)\<lparr>returnData := data\<rparr>\<rparr> else f)
      in case res of
           Inl e \<Rightarrow> (Some ([], Some e), f')
         | Inr _ \<Rightarrow>
             if reverts oper then (Some (data, Some errExecutionReverted), f')
             else if halts oper then (Some (data, None), f')
             else if \<not> jumps oper then (None, f'\<lparr>pc := pc f' + 1\<rparr>)
             else (None, f'))"

text \<open>One turn of the loop of \<open>Run\<close>.\<close>

definition run_step :: "'db vm_context \<Rightarrow> 'db vm_calls \<Rightarrow> 'db frame \<Rightarrow> (bytes \<times> vm_error option) option \<times> 'db frame" where
  "run_step cx K f =
     (let op = GetOp (contract f) (pc f); oper = table_lookup (JumpTable cx K) op in
      if \<not> valid oper then (Some ([], Some (errInvalidOpcode op)), f)
      else case bindE (validateStack oper (stk f)) (\<lambda>_. bindE (enforceRestrictions cx op oper f) (\<lambda>_. memory_need oper (stk f))) of
        Inl e \<Rightarrow> (Some ([], Some e), f)
      | Inr memSize \<Rightarrow> (case charge cx oper memSize f of
          (Inl e, f1) \<Rightarrow> (Some ([], Some e), f1)
        | (Inr _, f1) \<Rightarrow> step_end oper (execute oper (grow memSize f1))))"

fun run_loop :: "nat \<Rightarrow> 'db vm_context \<Rightarrow> 'db vm_calls \<Rightarrow> 'db frame \<Rightarrow> (bytes \<times> vm_error option) \<times> 'db frame" where
  "run_loop 0 cx K f = (([], Some VmUnresolved), f)"
| "run_loop (Suc n) cx K f = (case run_step cx K f of
      (None, f') \<Rightarrow> run_loop n cx K f'
    | (Some r, f') \<Rightarrow> (r, f'))"

definition Interpreter_Run :: "nat \<Rightarrow> 'db vm_context \<Rightarrow> 'db vm_calls \<Rightarrow> contract \<Rightarrow> bytes \<Rightarrow> 'db EVM
    \<Rightarrow> (bytes \<times> vm_error option) \<times> contract \<times> 'db EVM" where
  "Interpreter_Run n cx K c input e0 =
     (let e1 = e0\<lparr>depth := depth e0 + 1, returnData := []\<rparr> in
      if Code c = [] then (([], None), c, e1\<lparr>depth := depth e1 - 1\<rparr>)
      else let (r, f) = run_loop n cx K \<lparr>pc = 0, stk = [], memory = NewMemory, contract = c\<lparr>c_Input := input\<rparr>, evm = e1\<rparr>
           in (r, contract f, (evm f)\<lparr>depth := depth (evm f) - 1\<rparr>))"

section \<open>Message calls\<close>

definition vm_run :: "nat \<Rightarrow> 'db vm_context \<Rightarrow> 'db vm_calls \<Rightarrow> contract \<Rightarrow> bytes \<Rightarrow> 'db EVM
    \<Rightarrow> (bytes \<times> vm_error option) \<times> contract \<times> 'db EVM" where
  "vm_run n cx K c input e =
     (case (case CodeAddr c of None \<Rightarrow> None | Some a \<Rightarrow> map_of (precompiles cx) a) of
        Some p \<Rightarrow> (case RunPrecompiledContract (crypt cx) p input c of
            (Inl err, c') \<Rightarrow> (([], Some err), c', e)
          | (Inr ret, c') \<Rightarrow> ((ret, None), c', e))
      | None \<Rightarrow> Interpreter_Run n cx K c input e)"

text \<open>The map of the jump destinations is the parent's for a contract that calls, and a new one for an account.\<close>

definition enter_dests :: "ContractRef \<Rightarrow> 'db EVM \<Rightarrow> 'db EVM" where
  "enter_dests caller e = (case caller of AccountRef _ \<Rightarrow> e\<lparr>jumpdests := []\<rparr> | ContractCaller _ \<Rightarrow> e)"

text \<open>The end that the calls share: on an error the state goes back to the snapshot, and unless the contract
  reverted, all gas is used.\<close>

definition finish_call :: "'db vm_context \<Rightarrow> nat \<Rightarrow> (bytes \<times> vm_error option) \<times> contract \<times> 'db EVM \<Rightarrow> call_result \<times> 'db EVM" where
  "finish_call cx snap r =
     (let ((ret, err), c, e) = r in
      case err of
        None \<Rightarrow> ((ret, Gas c, None), e)
      | Some x \<Rightarrow>
          if fatal x then ((ret, Gas c, Some x), e)
          else case db_RevertToSnapshot (sdb cx) snap (StateDB e) of
            None \<Rightarrow> ((ret, Gas c, Some VmPanic), e)
          | Some db \<Rightarrow> ((ret, Gas (if x \<noteq> errExecutionReverted then snd (UseGas (Gas c) c) else c), Some x), e\<lparr>StateDB := db\<rparr>))"

definition EVM_Call :: "nat \<Rightarrow> 'db vm_context \<Rightarrow> 'db vm_calls \<Rightarrow> ContractRef \<Rightarrow> address \<Rightarrow> bytes \<Rightarrow> u64 \<Rightarrow> int \<Rightarrow> 'db EVM
    \<Rightarrow> call_result \<times> 'db EVM" where
  "EVM_Call n cx K caller addr input gas value e =
     (if NoRecursion cx \<and> depth e > 0 then (([], gas, None), e)
      else if depth e > CallCreateDepth then (([], gas, Some ErrDepth), e)
      else if \<not> CanTransfer cx (StateDB e) (ref_Address caller) value then (([], gas, Some ErrInsufficientBalance), e)
      else
        let (snap, db) = db_Snapshot (sdb cx) (StateDB e) in
        if \<not> db_Exist (sdb cx) db addr \<and> map_of (precompiles cx) addr = None
           \<and> IsEIP158 (chainConfig cx) (Some (BlockNumber cx)) \<and> value = 0
        then (([], gas, None), e\<lparr>StateDB := db\<rparr>)
        else
          let db1 = (if \<not> db_Exist (sdb cx) db addr then db_CreateAccount (sdb cx) addr db else db);
              db2 = Transfer cx (ref_Address caller) addr value db1;
              c = SetCallCode addr (db_GetCodeHash (sdb cx) db2 addr) (db_GetCode (sdb cx) db2 addr) (NewContract caller addr value gas)
          in finish_call cx snap (vm_run n cx K c input (enter_dests caller (e\<lparr>StateDB := db2\<rparr>))))"

definition EVM_CallCode :: "nat \<Rightarrow> 'db vm_context \<Rightarrow> 'db vm_calls \<Rightarrow> ContractRef \<Rightarrow> address \<Rightarrow> bytes \<Rightarrow> u64 \<Rightarrow> int \<Rightarrow> 'db EVM
    \<Rightarrow> call_result \<times> 'db EVM" where
  "EVM_CallCode n cx K caller addr input gas value e =
     (if NoRecursion cx \<and> depth e > 0 then (([], gas, None), e)
      else if depth e > CallCreateDepth then (([], gas, Some ErrDepth), e)
      else if \<not> CanTransfer cx (StateDB e) (ref_Address caller) value then (([], gas, Some ErrInsufficientBalance), e)
      else
        let (snap, db) = db_Snapshot (sdb cx) (StateDB e);
            c = SetCallCode addr (db_GetCodeHash (sdb cx) db addr) (db_GetCode (sdb cx) db addr)
                  (NewContract caller (ref_Address caller) value gas)
        in finish_call cx snap (vm_run n cx K c input (enter_dests caller (e\<lparr>StateDB := db\<rparr>))))"

definition EVM_DelegateCall :: "nat \<Rightarrow> 'db vm_context \<Rightarrow> 'db vm_calls \<Rightarrow> ContractRef \<Rightarrow> address \<Rightarrow> bytes \<Rightarrow> u64 \<Rightarrow> 'db EVM
    \<Rightarrow> call_result \<times> 'db EVM" where
  "EVM_DelegateCall n cx K caller addr input gas e =
     (if NoRecursion cx \<and> depth e > 0 then (([], gas, None), e)
      else if depth e > CallCreateDepth then (([], gas, Some ErrDepth), e)
      else
        let (snap, db) = db_Snapshot (sdb cx) (StateDB e) in
        case AsDelegate caller (NewContract caller (ref_Address caller) 0 gas) of
          Inl x \<Rightarrow> (([], gas, Some x), e\<lparr>StateDB := db\<rparr>)
        | Inr c0 \<Rightarrow>
            let c = SetCallCode addr (db_GetCodeHash (sdb cx) db addr) (db_GetCode (sdb cx) db addr) c0
            in finish_call cx snap (vm_run n cx K c input (enter_dests caller (e\<lparr>StateDB := db\<rparr>))))"

definition EVM_StaticCall :: "nat \<Rightarrow> 'db vm_context \<Rightarrow> 'db vm_calls \<Rightarrow> ContractRef \<Rightarrow> address \<Rightarrow> bytes \<Rightarrow> u64 \<Rightarrow> 'db EVM
    \<Rightarrow> call_result \<times> 'db EVM" where
  "EVM_StaticCall n cx K caller addr input gas e =
     (if NoRecursion cx \<and> depth e > 0 then (([], gas, None), e)
      else if depth e > CallCreateDepth then (([], gas, Some ErrDepth), e)
      else
        let (snap, db) = db_Snapshot (sdb cx) (StateDB e);
            c = SetCallCode addr (db_GetCodeHash (sdb cx) db addr) (db_GetCode (sdb cx) db addr) (NewContract caller addr 0 gas);
            (r, e') = finish_call cx snap (vm_run n cx K c input (enter_dests caller (e\<lparr>StateDB := db, readOnly := True\<rparr>)))
        in (r, if \<not> readOnly e then e'\<lparr>readOnly := False\<rparr> else e'))"

text \<open>The end of a creation: the code is stored and paid for, or the state goes back to the snapshot.\<close>

definition store_code :: "'db vm_context \<Rightarrow> address \<Rightarrow> bytes \<Rightarrow> contract \<Rightarrow> 'db EVM \<Rightarrow> vm_error option \<times> contract \<times> 'db EVM" where
  "store_code cx contractAddr ret c e =
     (case UseGas (of_nat (length ret) * CreateDataGas) c of
        (True, c') \<Rightarrow> (None, c', e\<lparr>StateDB := db_SetCode (sdb cx) contractAddr ret (StateDB e)\<rparr>)
      | (False, c') \<Rightarrow> (Some ErrCodeStoreOutOfGas, c', e))"

definition finish_create :: "'db vm_context \<Rightarrow> nat \<Rightarrow> address \<Rightarrow> (bytes \<times> vm_error option) \<times> contract \<times> 'db EVM
    \<Rightarrow> (bytes \<times> address \<times> u64 \<times> vm_error option) \<times> 'db EVM" where
  "finish_create cx snap contractAddr r =
     (let ((ret, err0), c1, e1) = r;
          maxCodeSizeExceeded = (IsEIP158 (chainConfig cx) (Some (BlockNumber cx)) \<and> length ret > MaxCodeSize);
          (err, c2, e2) = (if err0 = None \<and> \<not> maxCodeSizeExceeded then store_code cx contractAddr ret c1 e1 else (err0, c1, e1))
      in if (case err of None \<Rightarrow> False | Some x \<Rightarrow> fatal x) then ((ret, contractAddr, Gas c2, err), e2)
         else if maxCodeSizeExceeded
            \<or> (err \<noteq> None \<and> (IsHomestead (chainConfig cx) (Some (BlockNumber cx)) \<or> err \<noteq> Some ErrCodeStoreOutOfGas))
         then case db_RevertToSnapshot (sdb cx) snap (StateDB e2) of
                None \<Rightarrow> ((ret, contractAddr, Gas c2, Some VmPanic), e2)
              | Some db \<Rightarrow>
                  ((ret, contractAddr, Gas (if err \<noteq> Some errExecutionReverted then snd (UseGas (Gas c2) c2) else c2),
                    if maxCodeSizeExceeded \<and> err = None then Some errMaxCodeSizeExceeded else err),
                   e2\<lparr>StateDB := db\<rparr>)
         else ((ret, contractAddr, Gas c2, err), e2))"

definition EVM_Create :: "nat \<Rightarrow> 'db vm_context \<Rightarrow> 'db vm_calls \<Rightarrow> ContractRef \<Rightarrow> bytes \<Rightarrow> u64 \<Rightarrow> int \<Rightarrow> 'db EVM
    \<Rightarrow> (bytes \<times> address \<times> u64 \<times> vm_error option) \<times> 'db EVM" where
  "EVM_Create n cx K caller code gas value e =
     (if depth e > CallCreateDepth then (([], 0, gas, Some ErrDepth), e)
      else if \<not> CanTransfer cx (StateDB e) (ref_Address caller) value then (([], 0, gas, Some ErrInsufficientBalance), e)
      else
        let nonce = db_GetNonce (sdb cx) (StateDB e) (ref_Address caller);
            db = db_SetNonce (sdb cx) (ref_Address caller) (nonce + 1) (StateDB e);
            contractAddr = CreateAddress (Keccak256 (crypt cx)) (ref_Address caller) nonce;
            contractHash = db_GetCodeHash (sdb cx) db contractAddr
        in if db_GetNonce (sdb cx) db contractAddr \<noteq> 0
              \<or> (contractHash \<noteq> 0 \<and> contractHash \<noteq> Keccak256 (crypt cx) [])
           then (([], 0, 0, Some ErrContractAddressCollision), e\<lparr>StateDB := db\<rparr>)
           else
             let (snap, db1) = db_Snapshot (sdb cx) db;
                 db2 = db_CreateAccount (sdb cx) contractAddr db1;
                 db3 = (if IsEIP158 (chainConfig cx) (Some (BlockNumber cx)) then db_SetNonce (sdb cx) contractAddr 1 db2 else db2);
                 db4 = Transfer cx (ref_Address caller) contractAddr value db3;
                 c = SetCallCode contractAddr (Keccak256 (crypt cx) code) code (NewContract caller contractAddr value gas)
             in if NoRecursion cx \<and> depth e > 0 then (([], contractAddr, gas, None), e\<lparr>StateDB := db4\<rparr>)
                else
                  finish_create cx snap contractAddr (vm_run n cx K c [] (enter_dests caller (e\<lparr>StateDB := db4\<rparr>))))"

text \<open>The recursion: the calls that the instructions of one frame make run with one level less.\<close>

definition no_calls :: "'db vm_calls" where
  "no_calls = \<lparr>do_Call = (\<lambda>_ _ _ gas _ e. (([], gas, Some VmUnresolved), e)), do_CallCode = (\<lambda>_ _ _ gas _ e. (([], gas, Some VmUnresolved), e)),
     do_DelegateCall = (\<lambda>_ _ _ gas e. (([], gas, Some VmUnresolved), e)), do_StaticCall = (\<lambda>_ _ _ gas e. (([], gas, Some VmUnresolved), e)),
     do_Create = (\<lambda>_ _ gas _ e. (([], 0, gas, Some VmUnresolved), e))\<rparr>"

definition calls_over :: "nat \<Rightarrow> 'db vm_context \<Rightarrow> 'db vm_calls \<Rightarrow> 'db vm_calls" where
  "calls_over n cx K = \<lparr>do_Call = EVM_Call n cx K, do_CallCode = EVM_CallCode n cx K, do_DelegateCall = EVM_DelegateCall n cx K,
     do_StaticCall = EVM_StaticCall n cx K, do_Create = EVM_Create n cx K\<rparr>"

primrec vm_calls_at :: "nat \<Rightarrow> nat \<Rightarrow> 'db vm_context \<Rightarrow> 'db vm_calls" where
  "vm_calls_at n 0 cx = no_calls"
| "vm_calls_at n (Suc d) cx = calls_over n cx (vm_calls_at n d cx)"

definition NewEVM :: "'db \<Rightarrow> 'db EVM" where
  "NewEVM statedb = \<lparr>StateDB = statedb, depth = 0, callGasTemp = 0, readOnly = False, returnData = [], jumpdests = []\<rparr>"

section \<open>\<open>core/evm.go\<close>\<close>

definition core_CanTransfer :: "'db vm_db \<Rightarrow> 'db \<Rightarrow> address \<Rightarrow> int \<Rightarrow> bool" where
  "core_CanTransfer s db addr amount \<longleftrightarrow> db_GetBalance s db addr \<ge> amount"

definition core_Transfer :: "'db vm_db \<Rightarrow> address \<Rightarrow> address \<Rightarrow> int \<Rightarrow> 'db \<Rightarrow> 'db" where
  "core_Transfer s sender recipient amount db = db_AddBalance s recipient amount (db_SubBalance s sender amount db)"

end
