(* ===== verification/Evm_Frames.thy ===== *)
theory Evm_Frames
  imports Evm_Run
begin

text \<open>
  What the instructions leave alone.  \<open>sound R op\<close> says that every run of \<open>op\<close> is related by \<open>R\<close> to the frame it
  started from, and does not end for lack of fuel.  The locale \<open>frame_relation\<close> is the contract of such a
  relation: it must allow changes of the stack, the memory, the program counter, the cache of jump
  destinations and the gas set aside for a call, which is all that the instructions that touch neither the
  state nor other contracts change.  \<open>state_relation\<close> extends it by the changes of the state.
\<close>

definition sound :: "('s \<Rightarrow> 's \<Rightarrow> bool) \<Rightarrow> ('s, vm_error, 'a) stm \<Rightarrow> bool" where
  "sound R m \<longleftrightarrow> (\<forall>s. R s (snd (m s)) \<and> fst (m s) \<noteq> Inl VmUnresolved)"

lemma soundI: "(\<And>s. R s (snd (m s))) \<Longrightarrow> (\<And>s. fst (m s) \<noteq> Inl VmUnresolved) \<Longrightarrow> sound R m"
  by (simp add: sound_def)

lemma soundD: "sound R m \<Longrightarrow> m s = (r, s') \<Longrightarrow> R s s' \<and> r \<noteq> Inl VmUnresolved"
  by (metis fst_conv snd_conv sound_def)

lemma destinations_has_panic: "destinations_has d h code dest = Inl e \<Longrightarrow> e = VmPanic"
proof -
  have m: "mark_data n p b = Inl e' \<Longrightarrow> e' = VmPanic" for n p b e'
    by (induction n p b rule: mark_data.induct, subst (asm) mark_data.simps)
       (auto simp: bitvec_set8_def bitvec_set_def Let_def split: if_splits)
  have c: "codeBitmap_loop cd p b = Inl e' \<Longrightarrow> e' = VmPanic" for cd p b e'
  proof (induction cd p b rule: codeBitmap_loop.induct)
    case (1 cd p b)
    then show ?case
      by (subst (asm) (3) codeBitmap_loop.simps) (auto simp: Let_def m split: if_splits sum.splits)
  qed
  show "destinations_has d h code dest = Inl e \<Longrightarrow> e = VmPanic"
    by (auto simp: destinations_has_def codeBitmap_def codeSegment_def Let_def bindE_def dest: c split: if_splits option.splits sum.splits)
qed

text \<open>The entries that call other contracts.\<close>

definition call_entries :: "'db vm_context \<Rightarrow> 'db vm_calls \<Rightarrow> 'db operation list" where
  "call_entries cx K =
     [(plain (opCreate cx K) gasCreate (makeStackFunc 3 1))\<lparr>memorySize := Some memoryCreate, writes := True, returns := True\<rparr>,
      (plain (opCall K) (gasCall cx) (makeStackFunc 7 1))\<lparr>memorySize := Some memoryCall, returns := True\<rparr>,
      (plain (opCallCode K) gasCallCode (makeStackFunc 7 1))\<lparr>memorySize := Some memoryCall, returns := True\<rparr>,
      (plain (opDelegateCall K) gasDelegateCall (makeStackFunc 6 1))\<lparr>memorySize := Some memoryDelegateCall, returns := True\<rparr>,
      (plain (opStaticCall K) gasStaticCall (makeStackFunc 6 1))\<lparr>memorySize := Some memoryStaticCall, returns := True\<rparr>]"

lemma table_union:
  "set (NewByzantiumInstructionSet cx K) =
     set frontier_arithmetic \<union> set frontier_comparison \<union> set (frontier_environment cx @ frontier_block cx) \<union> set (frontier_flow cx)
    \<union> set (frontier_push @ frontier_dup @ frontier_swap) \<union> set (frontier_log cx)
    \<union> set (frontier_call cx K @ drop (length (NewFrontierInstructionSet cx K)) (NewByzantiumInstructionSet cx K))"
    by (auto simp: NewByzantiumInstructionSet_def NewHomesteadInstructionSet_def NewFrontierInstructionSet_def)

text \<open>The ways a turn of the loop can go.\<close>

lemma run_step_cases:
  fixes f :: "'db frame"
  assumes "run_step cx K f = (r, f')"
  obtains (invalid) op where "r = Some ([], Some (errInvalidOpcode op))" "f' = f"
  | (refused) op e x where "op = GetOp (contract f) (pc f)" "(op, e) \<in> set (NewByzantiumInstructionSet cx K)" "r = Some ([], Some x)" "f' = f"
      "bindE (validateStack e (stk f)) (\<lambda>_. bindE (enforceRestrictions cx op e f) (\<lambda>_. memory_need e (stk f))) = Inl x"
  | (unpaid) op e memSize x where "op = GetOp (contract f) (pc f)" "(op, e) \<in> set (NewByzantiumInstructionSet cx K)" "r = Some ([], Some x)"
      "validateStack e (stk f) = Inr ()" "enforceRestrictions cx op e f = Inr ()" "memory_need e (stk f) = Inr memSize"
      "charge cx e memSize f = (Inl x, f')"
  | (ran) op e memSize f1 where "op = GetOp (contract f) (pc f)" "(op, e) \<in> set (NewByzantiumInstructionSet cx K)"
      "validateStack e (stk f) = Inr ()" "enforceRestrictions cx op e f = Inr ()" "memory_need e (stk f) = Inr memSize"
      "charge cx e memSize f = (Inr (), f1)" "(r, f') = step_end e (execute e (grow memSize f1))"
proof -
  define op where "op = GetOp (contract f) (pc f)"
  define e where "e = table_lookup (JumpTable cx K) op"
  have step: "(r, f') = (if \<not> valid e then (Some ([], Some (errInvalidOpcode op)), f)
      else case bindE (validateStack e (stk f)) (\<lambda>_. bindE (enforceRestrictions cx op e f) (\<lambda>_. memory_need e (stk f))) of
        Inl x \<Rightarrow> (Some ([], Some x), f)
      | Inr memSize \<Rightarrow> (case charge cx e memSize f of
          (Inl x, f1) \<Rightarrow> (Some ([], Some x), f1)
        | (Inr _, f1) \<Rightarrow> step_end e (execute e (grow memSize f1))))"
    using assms unfolding run_step_def Let_def op_def e_def by (rule sym)
  show ?thesis
  proof (cases "valid e")
    case False
    with step invalid show ?thesis by simp
  next
    case True
    then have "e \<noteq> nil_operation" by (auto simp: nil_operation_def)
    then have mem: "(op, e) \<in> set (NewByzantiumInstructionSet cx K)"
      using table_lookup_cases [of "JumpTable cx K" op] JumpTable_byzantium unfolding e_def by blast
    show ?thesis
    proof (cases "bindE (validateStack e (stk f)) (\<lambda>_. bindE (enforceRestrictions cx op e f) (\<lambda>_. memory_need e (stk f)))")
      case (Inl x)
      with step True refused [OF op_def mem] show ?thesis by simp
    next
      case (Inr memSize)
      then have checks: "validateStack e (stk f) = Inr ()" "enforceRestrictions cx op e f = Inr ()" "memory_need e (stk f) = Inr memSize"
        by auto
      obtain c f1 where c: "charge cx e memSize f = (c, f1)" by (metis surj_pair)
      with step True Inr unpaid [OF op_def mem _ checks] ran [OF op_def mem checks] show ?thesis by (cases c) auto
    qed
  qed
qed

locale frame_relation =
  fixes R :: "'db frame \<Rightarrow> 'db frame \<Rightarrow> bool"
  assumes refl: "R f f"
    and trans: "R f g \<Longrightarrow> R g h \<Longrightarrow> R f h"
    and stk_change: "R f (f\<lparr>stk := st\<rparr>)"
    and memory_change: "R f (f\<lparr>memory := m\<rparr>)"
    and pc_change: "R f (f\<lparr>pc := p\<rparr>)"
    and dests_change: "R f (f\<lparr>evm := (evm f)\<lparr>jumpdests := d\<rparr>\<rparr>)"
    and callgas_change: "R f (f\<lparr>evm := (evm f)\<lparr>callGasTemp := x\<rparr>\<rparr>)"
begin

lemma sound_returnS: "sound R (returnS x)"
  by (simp add: sound_def returnS_def refl)

lemma sound_failS: "e \<noteq> VmUnresolved \<Longrightarrow> sound R (failS e)"
  by (simp add: sound_def failS_def refl)

lemma sound_bindS: "sound R m \<Longrightarrow> (\<And>x. sound R (k x)) \<Longrightarrow> sound R (bindS m k)"
  unfolding sound_def bindS_def by (auto split: prod.splits sum.splits) (metis trans fst_conv snd_conv)+

lemma sound_pop1: "(\<And>x. sound R (k x)) \<Longrightarrow> sound R (pop1 k)"
  unfolding sound_def pop1_def by (auto simp: refl split: list.split intro: trans [OF stk_change])

lemma sound_pop2: "(\<And>x y. sound R (k x y)) \<Longrightarrow> sound R (pop2 k)"
  by (simp add: pop2_def sound_pop1)

lemma sound_pop3: "(\<And>x y z. sound R (k x y z)) \<Longrightarrow> sound R (pop3 k)"
  by (simp add: pop3_def sound_pop1 sound_pop2)

lemma sound_push: "sound R (push v)"
  by (simp add: sound_def push_def stk_change)

lemma sound_if: "sound R m \<Longrightarrow> sound R m' \<Longrightarrow> sound R (if b then m else m')"
  by simp

lemma sound_push_read: "sound R (\<lambda>f. push (g f) f)"
  by (simp add: sound_def push_def stk_change)

lemma sound_mem_get: "(\<And>d. sound R (k d)) \<Longrightarrow> sound R (mem_get off sz k)"
  unfolding sound_def mem_get_def by (auto simp: refl Memory_Get_def split: sum.split if_splits)

lemma sound_mem_set: "sound R (mem_set off sz v)"
  unfolding sound_def mem_set_def by (auto simp: refl memory_change Memory_Set_def split: sum.split if_splits)

lemma sound_mem_set_read: "sound R (\<lambda>f. mem_set (a f) (b f) (c f) f)"
  using sound_mem_set unfolding sound_def by blast

lemma sound_mem_ptr: "sound R (mem_ptr off sz)"
  unfolding sound_def mem_ptr_def by (auto simp: refl Memory_GetPtr_def)

lemma sound_jump_to: "sound R (jump_to pos)"
  unfolding sound_def jump_to_def returnS_def failS_def
  by (auto simp: refl Let_def dests_change dest: destinations_has_panic intro: trans [OF dests_change pc_change] split: sum.split)

lemmas sound_rules = sound_returnS sound_failS sound_pop1 sound_pop2 sound_pop3 sound_push sound_if sound_mem_get
  sound_mem_set sound_mem_ptr sound_jump_to

lemma sound_arithmetic:
  "sound R opAdd" "sound R opSub" "sound R opMul" "sound R opDiv" "sound R opSdiv" "sound R opMod" "sound R opSmod"
  "sound R opExp" "sound R opSignExtend" "sound R opNot" "sound R opLt" "sound R opGt" "sound R opSlt" "sound R opSgt"
  "sound R opEq" "sound R opIszero" "sound R opAnd" "sound R opOr" "sound R opXor" "sound R opByte" "sound R opAddmod"
  "sound R opMulmod"
  unfolding opAdd_def opSub_def opMul_def opDiv_def opSdiv_def opMod_def opSmod_def opExp_def opSignExtend_def opNot_def
    opLt_def opGt_def opSlt_def opSgt_def opEq_def opIszero_def opAnd_def opOr_def opXor_def opByte_def opAddmod_def
    opMulmod_def Let_def
  by (intro sound_rules; simp)+

lemma sound_environment:
  "sound R opAddress" "sound R (opBalance cx)" "sound R (opOrigin cx)" "sound R opCaller" "sound R opCallValue"
  "sound R opCallDataLoad" "sound R opCallDataSize" "sound R opCallDataCopy" "sound R opReturnDataSize"
  "sound R opReturnDataCopy" "sound R (opExtCodeSize cx)" "sound R opCodeSize" "sound R opCodeCopy"
  "sound R (opExtCodeCopy cx)" "sound R (opGasprice cx)" "sound R (opBlockhash cx)" "sound R (opCoinbase cx)"
  "sound R (opTimestamp cx)" "sound R (opNumber cx)" "sound R (opDifficulty cx)" "sound R (opGasLimit cx)"
  unfolding opAddress_def [abs_def] opBalance_def opOrigin_def opCaller_def [abs_def] opCallValue_def [abs_def]
    opCallDataLoad_def opCallDataSize_def [abs_def] opCallDataCopy_def opReturnDataSize_def [abs_def] opReturnDataCopy_def
    opExtCodeSize_def opCodeSize_def [abs_def] opCodeCopy_def opExtCodeCopy_def opGasprice_def opBlockhash_def
    opCoinbase_def opTimestamp_def opNumber_def opDifficulty_def opGasLimit_def Let_def
  by (intro sound_rules sound_push_read sound_mem_set_read | simp add: sound_def failS_def refl sound_mem_set [unfolded sound_def])+

lemma sound_flow:
  "sound R opPop" "sound R opMload" "sound R opMstore" "sound R opMstore8" "sound R (opSload cx)" "sound R opJump"
  "sound R opJumpi" "sound R opJumpdest" "sound R opPc" "sound R opMsize" "sound R opGas" "sound R opReturn"
  "sound R opRevert" "sound R opStop"
  unfolding opPop_def opMload_def opMstore_def opMstore8_def opSload_def opJump_def opJumpi_def opJumpdest_def
    opPc_def [abs_def] opMsize_def [abs_def] opGas_def [abs_def] opReturn_def opRevert_def opStop_def Let_def
  by (intro sound_rules sound_push_read
    | simp add: sound_def returnS_def failS_def refl memory_change pc_change sound_jump_to [unfolded sound_def])+

lemma sound_families: "sound R (makePush p m)" "sound R (makeDup n)" "sound R (makeSwap n)"
proof -
  have "R f (f\<lparr>stk := st, pc := q\<rparr>)" for f st q using trans [OF stk_change pc_change] by simp
  then show "sound R (makePush p m)" by (simp add: sound_def makePush_def Let_def failS_def refl)
  show "sound R (makeDup n)" by (auto simp: sound_def makeDup_def stack_dup_def refl stk_change)
  show "sound R (makeSwap n)" by (auto simp: sound_def makeSwap_def stack_swap_def refl stk_change)
qed

lemma sound_safe_add: "(\<And>x. sound R (k x)) \<Longrightarrow> sound R (safe_add a b k)"
  by (auto simp: safe_add_def sound_failS split: prod.split)

lemma sound_safe_mul: "(\<And>x. sound R (k x)) \<Longrightarrow> sound R (safe_mul a b k)"
  by (auto simp: safe_mul_def sound_failS split: prod.split)

lemma sound_big_u64: "(\<And>x. sound R (k x)) \<Longrightarrow> sound R (big_u64 a k)"
  by (auto simp: big_u64_def sound_failS split: prod.split)

lemma sound_backS: "(\<And>x. sound R (k x)) \<Longrightarrow> sound R (backS n k)"
  unfolding sound_def backS_def by (auto simp: refl stack_Back_def)

lemma sound_memGas: "sound R (memGas sz)" "sound R (memGas' sz)"
  by (auto simp: sound_def memGas_def memGas'_def memoryGasCost_def Let_def refl memory_change)

lemma sound_call_gas: "sound R (call_gas gt gas)"
  unfolding call_gas_def
proof (rule sound_backS)
  fix cost
  have "callGas gt a b c \<noteq> Inl VmUnresolved" for a b c by (simp add: callGas_def Let_def)
  then show "sound R (\<lambda>f. case callGas gt (Gas (contract f)) gas cost of
      Inl e \<Rightarrow> failS e (f\<lparr>evm := (evm f)\<lparr>callGasTemp := 0\<rparr>\<rparr>)
    | Inr g \<Rightarrow> safe_add gas g returnS (f\<lparr>evm := (evm f)\<lparr>callGasTemp := g\<rparr>\<rparr>))"
    by (auto simp: sound_def failS_def returnS_def safe_add_def callgas_change split: sum.split prod.split)
qed

lemmas sound_gas_rules = sound_returnS sound_bindS sound_safe_add sound_safe_mul sound_big_u64 sound_backS sound_memGas
  sound_call_gas

lemma sound_gas:
  "sound R (constGasFunc g gt m)" "sound R (gasCallDataCopy gt m)" "sound R (gasReturnDataCopy gt m)"
  "sound R (makeGasLog n gt m)" "sound R (gasSha3 gt m)" "sound R (gasCodeCopy gt m)" "sound R (gasExtCodeCopy gt m)"
  "sound R (gasMLoad gt m)" "sound R (gasMStore8 gt m)" "sound R (gasMStore gt m)" "sound R (gasCreate gt m)"
  "sound R (gasBalance gt m)" "sound R (gasExtCodeSize gt m)" "sound R (gasSLoad gt m)" "sound R (gasExp gt m)"
  "sound R (gasCallCode gt m)" "sound R (gasReturn gt m)" "sound R (gasRevert gt m)"
  "sound R (gasDelegateCall gt m)" "sound R (gasStaticCall gt m)" "sound R (gasPush gt m)" "sound R (gasSwap gt m)"
  "sound R (gasDup gt m)"
  unfolding constGasFunc_def gasCallDataCopy_def gasReturnDataCopy_def makeGasLog_def gasSha3_def gasCodeCopy_def
    gasExtCodeCopy_def gasMLoad_def gasMStore8_def gasMStore_def gasCreate_def gasBalance_def gasExtCodeSize_def
    gasSLoad_def gasExp_def gasCallCode_def gasReturn_def gasRevert_def gasDelegateCall_def gasStaticCall_def
    gasPush_def gasSwap_def gasDup_def Let_def
  by (intro sound_gas_rules)+

lemma sound_gasCall: "sound R (gasCall cx gt m)"
  unfolding gasCall_def
proof (intro sound_backS)
  fix v a
  have "sound R (bindS (memGas m) (\<lambda>memoryGas. safe_add g memoryGas (call_gas gt)))" for g
    by (intro sound_gas_rules)
  then show "sound R (\<lambda>f. let transfersValue = v \<noteq> 0; addr = BigToAddress a;
         eip158 = IsEIP158 (chainConfig cx) (Some (BlockNumber cx));
         gas0 = gt_Calls gt;
         gas1 = (if eip158
                 then if transfersValue \<and> db_Empty (sdb cx) (StateDB (evm f)) addr then gas0 + CallNewAccountGas else gas0
                 else if \<not> db_Exist (sdb cx) (StateDB (evm f)) addr then gas0 + CallNewAccountGas else gas0);
         gas2 = (if transfersValue then gas1 + CallValueTransferGas else gas1)
     in bindS (memGas m) (\<lambda>memoryGas. safe_add gas2 memoryGas (call_gas gt)) f)"
    unfolding sound_def Let_def by blast
qed

end

locale state_relation = frame_relation R for R :: "'db frame \<Rightarrow> 'db frame \<Rightarrow> bool" +
  fixes cx :: "'db vm_context"
  assumes preimage_change: "R f (upd_db (db_AddPreimage (sdb cx) h d) f)"
    and state_change: "R f (upd_db (db_SetState (sdb cx) a k v) f)"
    and log_change: "R f (upd_db (db_AddLog (sdb cx) l) f)"
    and balance_change: "R f (upd_db (db_AddBalance (sdb cx) a x) f)"
    and suicide_change: "R f (upd_db (db_Suicide (sdb cx) a) f)"
    and refund_change: "R f (upd_db (db_AddRefund (sdb cx) g) f)"
begin

lemma sound_pop_topics: "(\<And>ts. sound R (k ts)) \<Longrightarrow> sound R (pop_topics n k)"
proof (induction n arbitrary: k)
  case (Suc n)
  then show ?case by (simp add: sound_pop1)
qed simp

lemma sound_state:
  "sound R (opSha3 cx)" "sound R (opSstore cx)" "sound R (opSuicide cx)" "sound R (makeLog cx n)"
proof -
  show "sound R (opSha3 cx)"
    unfolding opSha3_def
    by (intro sound_rules)
       (auto simp: sound_def push_def Let_def stk_change intro: trans [OF preimage_change stk_change])
  show "sound R (opSstore cx)"
    unfolding opSstore_def by (intro sound_rules) (simp add: sound_def returnS_def state_change)
  show "sound R (opSuicide cx)"
    using trans [OF stk_change trans [OF balance_change suicide_change]]
    by (auto simp: sound_def opSuicide_def pop1_def returnS_def refl Let_def split: list.split)
  show "sound R (makeLog cx n)"
    unfolding makeLog_def
    by (intro sound_rules sound_pop_topics) (simp add: sound_def returnS_def log_change)
qed

lemma sound_state_gas: "sound R (gasSStore cx gt m)" "sound R (gasSuicide cx gt m)"
proof -
  show "sound R (gasSStore cx gt m)"
    unfolding gasSStore_def
    by (intro sound_backS) (simp add: sound_def returnS_def Let_def refl refund_change)
  show "sound R (gasSuicide cx gt m)"
    by (auto simp: sound_def gasSuicide_def backS_def stack_Back_def returnS_def Let_def refl refund_change)
qed

text \<open>Every entry of the tables but the five that call other contracts.\<close>

lemma table_sound:
  assumes "(op, e) \<in> set (NewByzantiumInstructionSet cx K)"
  shows "(\<forall>gt m. sound R (gasCost e gt m)) \<and> (sound R (execute e) \<or> e \<in> set (call_entries cx K))"
proof -
  have arith: "\<forall>(op, e) \<in> set frontier_arithmetic. (\<forall>gt m. sound R (gasCost e gt m)) \<and> sound R (execute e)"
    by (simp add: frontier_arithmetic_def sound_arithmetic sound_flow sound_gas)
  have comp: "\<forall>(op, e) \<in> set frontier_comparison. (\<forall>gt m. sound R (gasCost e gt m)) \<and> sound R (execute e)"
    by (simp add: frontier_comparison_def sound_arithmetic sound_gas)
  have env: "\<forall>(op, e) \<in> set (frontier_environment cx @ frontier_block cx). (\<forall>gt m. sound R (gasCost e gt m)) \<and> sound R (execute e)"
    by (simp add: frontier_environment_def frontier_block_def sound_environment sound_state sound_gas)
  have flow: "\<forall>(op, e) \<in> set (frontier_flow cx). (\<forall>gt m. sound R (gasCost e gt m)) \<and> sound R (execute e)"
    by (simp add: frontier_flow_def sound_flow sound_state sound_state_gas sound_gas)
  have fam: "\<forall>(op, e) \<in> set (frontier_push @ frontier_dup @ frontier_swap). (\<forall>gt m. sound R (gasCost e gt m)) \<and> sound R (execute e)"
    by (auto simp: frontier_push_def frontier_dup_def frontier_swap_def sound_families sound_gas)
  have log: "\<forall>(op, e) \<in> set (frontier_log cx). (\<forall>gt m. sound R (gasCost e gt m)) \<and> sound R (execute e)"
    by (simp add: frontier_log_def sound_state sound_gas)
  have rest: "(\<forall>gt m. sound R (gasCost e gt m)) \<and> (sound R (execute e) \<or> e \<in> set (call_entries cx K))"
    if "(op, e) \<in> set (frontier_call cx K @ drop (length (NewFrontierInstructionSet cx K)) (NewByzantiumInstructionSet cx K))"
    using that
    by (auto simp: NewByzantiumInstructionSet_def NewHomesteadInstructionSet_def frontier_call_def call_entries_def
        sound_gas sound_gasCall sound_flow sound_environment sound_state sound_state_gas)
  show ?thesis using assms arith comp env flow fam log rest unfolding table_union by blast
qed

end

end
