(* ===== verification/Evm_Sample.thy ===== *)
theory Evm_Sample
  imports Evm_Run
begin

text \<open>
  A context for examples: a state without storage, in which every account has the code \<open>JUMPDEST PUSH1 0 JUMP\<close>,
  a loop that never ends by itself, and a chain configuration with all forks active from block 0.
\<close>

definition loop_code :: bytes where
  "loop_code = [0x5B, 0x60, 0x00, 0x56]"

definition sample_db :: "unit vm_db" where
  "sample_db =
     \<lparr>db_CreateAccount = (\<lambda>_ s. s), db_SubBalance = (\<lambda>_ _ s. s), db_AddBalance = (\<lambda>_ _ s. s), db_GetBalance = (\<lambda>_ _. 100),
      db_GetNonce = (\<lambda>_ _. 0), db_SetNonce = (\<lambda>_ _ s. s), db_GetCodeHash = (\<lambda>_ _. 7), db_GetCode = (\<lambda>_ _. loop_code),
      db_SetCode = (\<lambda>_ _ s. s), db_GetCodeSize = (\<lambda>_ _. 4), db_AddRefund = (\<lambda>_ s. s), db_GetRefund = (\<lambda>_. 0),
      db_GetState = (\<lambda>_ _ _. 0), db_SetState = (\<lambda>_ _ _ s. s), db_Suicide = (\<lambda>_ s. s), db_HasSuicided = (\<lambda>_ _. False),
      db_Exist = (\<lambda>_ _. True), db_Empty = (\<lambda>_ _. False), db_RevertToSnapshot = (\<lambda>_ s. Some s), db_Snapshot = (\<lambda>s. (0, s)),
      db_AddLog = (\<lambda>_ s. s), db_AddPreimage = (\<lambda>_ _ s. s)\<rparr>"

definition sample_crypto :: vm_crypto where
  "sample_crypto =
     \<lparr>Keccak256 = (\<lambda>_. 7), x_sha256 = (\<lambda>_. []), x_ripemd160 = (\<lambda>_. []), x_Ecrecover = (\<lambda>_ _. None), bn_G1 = (\<lambda>_. None),
      bn_G2 = (\<lambda>_. None), bn_Add = (\<lambda>a _. a), bn_ScalarMult = (\<lambda>a _. a), bn_PairingCheck = (\<lambda>_ _. False)\<rparr>"

definition sample_config :: ChainConfig where
  "sample_config =
     \<lparr>ChainId = Some 1, HomesteadBlock = Some 0, EIP150Block = Some 0, EIP150Hash = 0, EIP155Block = Some 0, EIP158Block = Some 0,
      ByzantiumBlock = Some 0\<rparr>"

definition sample_context :: "unit vm_context" where
  "sample_context =
     \<lparr>sdb = sample_db, crypt = sample_crypto, CanTransfer = core_CanTransfer sample_db, Transfer = core_Transfer sample_db,
      GetHash = (\<lambda>_. 0), Origin = 1, GasPrice = 1, x_Coinbase = 2, x_GasLimit = 1000000, BlockNumber = 5, x_Time = 100,
      x_Difficulty = 3, chainConfig = sample_config, NoRecursion = False, DisableGasMetering = False,
      EnablePreimageRecording = False\<rparr>"

end
