(* ===== verification/Evm_Terminates.thy ===== *)
theory Evm_Terminates
  imports Evm_Frames Evm_Sample
begin

text \<open>
  Gas and termination.  Every instruction that does not end the run costs gas, a call hands out less gas than
  it charges, and a callee gives back no more than it was given: so the gas of a frame falls with every turn
  of the interpreter's loop, and the run ends before its fuel is used up.  The depth check of the calls bounds
  the recursion.
\<close>

section \<open>What the instructions keep\<close>

interpretation steady: state_relation "\<lambda>f f'. contract f' = contract f \<and> depth (evm f') = depth (evm f)" cx
  for cx :: "'db vm_context"
  by unfold_locales (simp_all add: upd_db_def)

section \<open>Prices\<close>

definition priced :: "nat \<Rightarrow> ('s, vm_error, u64) stm \<Rightarrow> bool" where
  "priced c m \<longleftrightarrow> (\<forall>s r s'. m s = (Inr r, s') \<longrightarrow> c \<le> unat r)"

lemma unat_add_no_overflow: "unat (a :: u64) + unat b < 2 ^ 64 \<Longrightarrow> unat (a + b) = unat a + unat b"
  by (simp add: unat_plus_if_size word_size)

lemma priced_returnS: "c \<le> unat r \<Longrightarrow> priced c (returnS r)"
  by (simp add: priced_def returnS_def)

lemma priced_safe_add:
  assumes "\<And>x. unat x = unat a + unat b \<Longrightarrow> priced c (k x)"
  shows "priced c (safe_add a b k)"
proof (cases "unat a + unat b \<ge> 2 ^ 64")
  case True
  then show ?thesis by (simp add: safe_add_def SafeAdd_correct priced_def failS_def)
next
  case False
  then show ?thesis using assms unat_add_no_overflow by (simp add: safe_add_def SafeAdd_correct)
qed

lemma priced_safe_mul: "(\<And>x. priced c (k x)) \<Longrightarrow> priced c (safe_mul a b k)"
  by (auto simp: safe_mul_def priced_def failS_def split: prod.splits if_splits)

lemma priced_big_u64: "(\<And>x. priced c (k x)) \<Longrightarrow> priced c (big_u64 a k)"
  by (auto simp: big_u64_def priced_def failS_def split: prod.splits if_splits)

lemma priced_backS: "(\<And>x. priced c (k x)) \<Longrightarrow> priced c (backS n k)"
  by (auto simp: backS_def priced_def split: sum.splits)

lemma priced_bindS: "(\<And>x. priced c (k x)) \<Longrightarrow> priced c (bindS m k)"
  by (auto simp: bindS_def priced_def split: sum.splits prod.splits)

lemmas priced_rules = priced_safe_add priced_safe_mul priced_big_u64 priced_backS priced_bindS priced_returnS

definition prices_positive :: "GasTable \<Rightarrow> bool" where
  "prices_positive gt \<longleftrightarrow> gt_ExtcodeSize gt \<in> {20, 700} \<and> gt_ExtcodeCopy gt \<in> {20, 700} \<and> gt_Balance gt \<in> {20, 400}
     \<and> gt_SLoad gt \<in> {50, 200} \<and> gt_Calls gt \<in> {40, 700}"

lemma chain_prices: "prices_positive (chain_GasTable c n)"
  by (simp add: prices_positive_def chain_GasTable_def GasTableHomestead_def GasTableEIP150_def GasTableEIP158_def)

lemma priced_gas:
  assumes "prices_positive gt"
  shows "g \<noteq> 0 \<Longrightarrow> priced 1 (constGasFunc g gt m)" "priced 1 (gasCallDataCopy gt m)" "priced 1 (gasReturnDataCopy gt m)"
    "priced 1 (makeGasLog n gt m)" "priced 1 (gasSha3 gt m)" "priced 1 (gasCodeCopy gt m)" "priced 1 (gasExtCodeCopy gt m)"
    "priced 1 (gasMLoad gt m)" "priced 1 (gasMStore8 gt m)" "priced 1 (gasMStore gt m)" "priced 1 (gasCreate gt m)"
    "priced 1 (gasBalance gt m)" "priced 1 (gasExtCodeSize gt m)" "priced 1 (gasSLoad gt m)" "priced 1 (gasExp gt m)"
    "priced 1 (gasPush gt m)" "priced 1 (gasSwap gt m)" "priced 1 (gasDup gt m)" "priced 1 (gasSStore cx gt m)"
proof -
  have pos: "Suc 0 \<le> unat g" if "g \<noteq> 0" for g :: u64 using that by (simp add: Suc_le_eq unat_gt_0)
  note simps = constGasFunc_def gasCallDataCopy_def gasReturnDataCopy_def makeGasLog_def gasSha3_def gasCodeCopy_def
    gasExtCodeCopy_def gasMLoad_def gasMStore8_def gasMStore_def gasCreate_def gasBalance_def gasExtCodeSize_def
    gasSLoad_def gasExp_def gasPush_def gasSwap_def gasDup_def Let_def
  show "g \<noteq> 0 \<Longrightarrow> priced 1 (constGasFunc g gt m)"
    unfolding simps by (intro priced_rules) (simp add: pos)
  show "priced 1 (gasCallDataCopy gt m)" "priced 1 (gasReturnDataCopy gt m)" "priced 1 (makeGasLog n gt m)"
    "priced 1 (gasSha3 gt m)" "priced 1 (gasCodeCopy gt m)" "priced 1 (gasExtCodeCopy gt m)"
    "priced 1 (gasMLoad gt m)" "priced 1 (gasMStore8 gt m)" "priced 1 (gasMStore gt m)" "priced 1 (gasCreate gt m)"
    "priced 1 (gasBalance gt m)" "priced 1 (gasExtCodeSize gt m)" "priced 1 (gasSLoad gt m)" "priced 1 (gasExp gt m)"
    "priced 1 (gasPush gt m)" "priced 1 (gasSwap gt m)" "priced 1 (gasDup gt m)"
    unfolding simps
    using assms by (intro priced_rules; force simp: gas_prices prices_positive_def)+
  show "priced 1 (gasSStore cx gt m)"
    unfolding gasSStore_def
    by (intro priced_backS) (simp add: priced_def returnS_def Let_def gas_prices)
qed

lemma table_priced:
  assumes "(op, e) \<in> set (NewByzantiumInstructionSet cx K)" "prices_positive gt"
  shows "halts e \<or> reverts e \<or> e \<in> set (call_entries cx K) \<or> priced 1 (gasCost e gt m)"
proof -
  have nz: "GasQuickStep \<noteq> 0" "GasFastestStep \<noteq> 0" "GasFastStep \<noteq> 0" "GasMidStep \<noteq> 0" "GasSlowStep \<noteq> 0"
    "GasExtStep \<noteq> 0" "JumpdestGas \<noteq> 0"
    by (simp_all add: gas_prices)
  note priced = nz priced_gas [OF assms(2), where m = m]
  have arith: "\<forall>(op, e) \<in> set frontier_arithmetic. halts e \<or> priced 1 (gasCost e gt m)"
    by (simp add: frontier_arithmetic_def priced [simplified])
  have comp: "\<forall>(op, e) \<in> set frontier_comparison. priced 1 (gasCost e gt m)"
    by (simp add: frontier_comparison_def priced [simplified])
  have env: "\<forall>(op, e) \<in> set (frontier_environment cx @ frontier_block cx). priced 1 (gasCost e gt m)"
    by (simp add: frontier_environment_def frontier_block_def priced [simplified])
  have flow: "\<forall>(op, e) \<in> set (frontier_flow cx). priced 1 (gasCost e gt m)"
    by (simp add: frontier_flow_def priced [simplified])
  have fam: "\<forall>(op, e) \<in> set (frontier_push @ frontier_dup @ frontier_swap). priced 1 (gasCost e gt m)"
    by (auto simp: frontier_push_def frontier_dup_def frontier_swap_def priced [simplified])
  have log: "\<forall>(op, e) \<in> set (frontier_log cx). priced 1 (gasCost e gt m)"
    by (simp add: frontier_log_def priced [simplified])
  have rest: "halts e \<or> reverts e \<or> e \<in> set (call_entries cx K) \<or> priced 1 (gasCost e gt m)"
    if "(op, e) \<in> set (frontier_call cx K @ drop (length (NewFrontierInstructionSet cx K)) (NewByzantiumInstructionSet cx K))"
    using that
    by (auto simp: NewByzantiumInstructionSet_def NewHomesteadInstructionSet_def frontier_call_def call_entries_def priced [simplified])
  show ?thesis using assms(1) arith comp env flow fam log rest unfolding table_union by blast
qed

section \<open>Gas of calls\<close>

text \<open>What a call function promises: it gives back at most the gas it got, leaves the depth as it was, and ends.\<close>

definition frugal_result :: "nat \<Rightarrow> u64 \<Rightarrow> call_result \<times> 'db EVM \<Rightarrow> bool" where
  "frugal_result D gas r \<longleftrightarrow> (case r of ((ret, left, err), e) \<Rightarrow> left \<le> gas \<and> err \<noteq> Some VmUnresolved \<and> depth e = D)"

definition frugal_create :: "nat \<Rightarrow> u64 \<Rightarrow> (bytes \<times> address \<times> u64 \<times> vm_error option) \<times> 'db EVM \<Rightarrow> bool" where
  "frugal_create D gas r \<longleftrightarrow>
     (case r of ((ret, addr, left, err), e) \<Rightarrow> left \<le> gas \<and> err \<noteq> Some VmUnresolved \<and> depth e = D)"

definition frugal_calls :: "nat \<Rightarrow> nat \<Rightarrow> 'db vm_calls \<Rightarrow> bool" where
  "frugal_calls n D K \<longleftrightarrow>
     (\<forall>caller addr input gas value e. depth e = D \<longrightarrow> unat gas < n \<longrightarrow>
        frugal_result D gas (do_Call K caller addr input gas value e)
      \<and> frugal_result D gas (do_CallCode K caller addr input gas value e)
      \<and> frugal_result D gas (do_DelegateCall K caller addr input gas e)
      \<and> frugal_result D gas (do_StaticCall K caller addr input gas e)
      \<and> frugal_create D gas (do_Create K caller input gas value e))"

text \<open>The gas function of a call charges, on top of what the callee gets, more than the stipend.\<close>

definition charges_call :: "('db frame, vm_error, u64) stm \<Rightarrow> (int list \<Rightarrow> bool) \<Rightarrow> bool" where
  "charges_call m paid \<longleftrightarrow> (\<forall>f r f'. m f = (Inr r, f') \<longrightarrow>
     (if paid (stk f) then 9000 else 0) + 40 + unat (callGasTemp (evm f')) \<le> unat r \<and> stk f' = stk f)"

lemma call_gas_charges:
  assumes "call_gas gt gas f = (Inr r, f')"
  shows "unat r = unat gas + unat (callGasTemp (evm f')) \<and> stk f' = stk f"
  using assms
  by (auto simp: call_gas_def backS_def safe_add_def SafeAdd_correct failS_def returnS_def unat_add_no_overflow
      split: sum.splits if_splits)

lemma memGas_stk: "memGas m f = (r, f') \<Longrightarrow> stk f' = stk f"
  by (auto simp: memGas_def split: prod.splits)

lemma add_memory_charges:
  assumes "bindS (memGas m) (\<lambda>memoryGas. safe_add gas memoryGas (call_gas gt)) f = (Inr r, f')"
  shows "unat gas + unat (callGasTemp (evm f')) \<le> unat r \<and> stk f' = stk f"
proof -
  obtain g f1 where g: "memGas m f = (Inr g, f1)" "safe_add gas g (call_gas gt) f1 = (Inr r, f')"
    using assms by (auto simp: bindS_Inr)
  then have nov: "unat gas + unat g < 2 ^ 64"
    by (simp add: safe_add_def SafeAdd_correct failS_def split: if_splits)
  with g(2) have "call_gas gt (gas + g) f1 = (Inr r, f')"
    by (simp add: safe_add_def SafeAdd_correct)
  with call_gas_charges [OF this] memGas_stk [OF g(1)] unat_add_no_overflow [OF nov] show ?thesis by simp
qed

lemma gasCall_charges:
  assumes "prices_positive gt"
  shows "charges_call (gasCall cx gt m) (\<lambda>st. st ! 2 \<noteq> 0)"
  unfolding charges_call_def
proof (intro allI impI)
  fix f r f'
  assume r: "gasCall cx gt m f = (Inr r, f')"
  then obtain gas2 where gas2: "bindS (memGas m) (\<lambda>memoryGas. safe_add gas2 memoryGas (call_gas gt)) f = (Inr r, f')"
    and g: "gas2 \<in> (if stk f ! 2 \<noteq> 0 then {gt_Calls gt + CallNewAccountGas + CallValueTransferGas, gt_Calls gt + CallValueTransferGas}
                    else {gt_Calls gt, gt_Calls gt + CallNewAccountGas})"
    by (auto simp: gasCall_def backS_def stack_Back_def Let_def split: if_splits)
  from g assms have "(if stk f ! 2 \<noteq> 0 then 9000 else 0) + 40 \<le> unat gas2"
    by (auto simp: prices_positive_def gas_prices split: if_splits)
  with add_memory_charges [OF gas2]
  show "(if stk f ! 2 \<noteq> 0 then 9000 else 0) + 40 + unat (callGasTemp (evm f')) \<le> unat r \<and> stk f' = stk f"
    by linarith
qed

lemma gasCallCode_charges:
  assumes "prices_positive gt"
  shows "charges_call (gasCallCode gt m) (\<lambda>st. st ! 2 \<noteq> 0)"
  unfolding charges_call_def
proof (intro allI impI)
  fix f r f'
  assume r: "gasCallCode gt m f = (Inr r, f')"
  define gas where "gas = (if stk f ! 2 \<noteq> 0 then gt_Calls gt + CallValueTransferGas else gt_Calls gt)"
  have "bindS (memGas m) (\<lambda>memoryGas. safe_add gas memoryGas (call_gas gt)) f = (Inr r, f')"
    using r by (simp add: gasCallCode_def backS_def stack_Back_def gas_def Let_def split: if_splits)
  from add_memory_charges [OF this]
  have "unat gas + unat (callGasTemp (evm f')) \<le> unat r" "stk f' = stk f" by auto
  moreover have "(if stk f ! 2 \<noteq> 0 then 9000 else 0) + 40 \<le> unat gas"
    using assms unfolding gas_def by (auto simp: prices_positive_def gas_prices)
  ultimately show "(if stk f ! 2 \<noteq> 0 then 9000 else 0) + 40 + unat (callGasTemp (evm f')) \<le> unat r \<and> stk f' = stk f"
    by linarith
qed

lemma gasDelegateCall_charges:
  assumes "prices_positive gt"
  shows "charges_call (gasDelegateCall gt m) (\<lambda>_. False)" "charges_call (gasStaticCall gt m) (\<lambda>_. False)"
proof -
  have "charges_call (bindS (memGas m) (\<lambda>gas. safe_add gas (gt_Calls gt) (call_gas gt))) (\<lambda>_. False)"
    unfolding charges_call_def
  proof (intro allI impI)
    fix f r f'
    assume "bindS (memGas m) (\<lambda>gas. safe_add gas (gt_Calls gt) (call_gas gt)) f = (Inr r, f')"
    then obtain g f1 where g: "memGas m f = (Inr g, f1)" "safe_add g (gt_Calls gt) (call_gas gt) f1 = (Inr r, f')"
      by (auto simp: bindS_Inr)
    then have nov: "unat g + unat (gt_Calls gt) < 2 ^ 64"
      by (simp add: safe_add_def SafeAdd_correct failS_def split: if_splits)
    with g(2) have "call_gas gt (g + gt_Calls gt) f1 = (Inr r, f')"
      by (simp add: safe_add_def SafeAdd_correct)
    from call_gas_charges [OF this] memGas_stk [OF g(1)] unat_add_no_overflow [OF nov]
    have "unat r = unat g + unat (gt_Calls gt) + unat (callGasTemp (evm f'))" "stk f' = stk f" by auto
    moreover have "40 \<le> unat (gt_Calls gt)" using assms by (auto simp: prices_positive_def)
    ultimately show "(if False then 9000 else 0) + 40 + unat (callGasTemp (evm f')) \<le> unat r \<and> stk f' = stk f"
      by simp
  qed
  then show "charges_call (gasDelegateCall gt m) (\<lambda>_. False)" "charges_call (gasStaticCall gt m) (\<lambda>_. False)"
    by (simp_all add: gasDelegateCall_def gasStaticCall_def)
qed

section \<open>Call instructions\<close>

text \<open>The frame after a call instruction: the contract is what it was, up to gas that came back.\<close>

definition call_outcome :: "nat \<Rightarrow> nat \<Rightarrow> 'db frame \<Rightarrow> (vm_error + bytes) \<times> 'db frame \<Rightarrow> bool" where
  "call_outcome D g f r \<longleftrightarrow> depth (evm (snd r)) = D \<and> fst r \<noteq> Inl VmUnresolved
     \<and> (\<exists>left. unat left \<le> g \<and> contract (snd r) = (contract f)\<lparr>Gas := Gas (contract f) + left\<rparr>)"

lemma call_outcome_panic: "depth (evm f') = D \<Longrightarrow> contract f' = contract f \<Longrightarrow> e \<noteq> VmUnresolved \<Longrightarrow> call_outcome D g f (Inl e, f')"
  unfolding call_outcome_def by (auto intro!: exI [of _ 0])

lemma call_outcome_cong: "contract f' = contract f \<Longrightarrow> call_outcome D g f' r \<Longrightarrow> call_outcome D g f r"
  by (simp add: call_outcome_def)

lemma call_outcome_mono: "call_outcome D g f r \<Longrightarrow> g \<le> g' \<Longrightarrow> call_outcome D g' f r"
  unfolding call_outcome_def by (meson le_trans)

lemma mem_set_cases: "\<exists>m. mem_set off sz v f = (Inl VmPanic, f) \<or> mem_set off sz v f = (Inr [], f\<lparr>memory := m\<rparr>)"
proof (cases "Memory_Set (big_Uint64 off) (big_Uint64 sz) v (memory f)")
  case (Inl e)
  then show ?thesis by (simp add: mem_set_def) (simp add: Memory_Set_def split: if_splits)
next
  case (Inr m)
  then show ?thesis by (auto simp: mem_set_def)
qed

lemma add_gas_contract [simp]: "contract (add_gas g f) = (contract f)\<lparr>Gas := Gas (contract f) + g\<rparr>" "evm (add_gas g f) = evm f"
  by (simp_all add: add_gas_def)

lemma call_end_frugal:
  assumes "frugal_result D gas r"
  shows "call_outcome D (unat gas) f (call_end ro rs r f)"
proof -
  obtain ret left err e where r: "r = ((ret, left, err), e)" by (metis prod_cases3 surj_pair)
  have f: "unat left \<le> unat gas" "err \<noteq> Some VmUnresolved" "depth e = D"
    using assms by (auto simp: r frugal_result_def word_le_nat_alt)
  define f1 where "f1 = f\<lparr>evm := e, stk := (if err \<noteq> None then 0 else 1) # stk f\<rparr>"
  have f1: "contract f1 = contract f" "depth (evm f1) = D" by (simp_all add: f1_def f)
  have ce: "call_end ro rs r f = (case err of
           None \<Rightarrow> bindS (mem_set ro rs ret) (\<lambda>_ f2. returnS ret (add_gas left f2)) f1
         | Some e \<Rightarrow>
             if fatal e then failS e f1
             else if e = errExecutionReverted
             then bindS (mem_set ro rs ret) (\<lambda>_ f2. returnS ret (add_gas left f2)) f1
             else returnS ret (add_gas left f1))"
    by (simp only: call_end_def r f1_def Let_def prod.case)
  have ok: "call_outcome D (unat gas) f (returnS ret (add_gas left g))" if "contract g = contract f" "depth (evm g) = D" for g
    using that f by (auto simp: call_outcome_def returnS_def)
  have bad: "call_outcome D (unat gas) f (failS x f1)" if "x \<noteq> VmUnresolved" for x
    using call_outcome_panic [OF f1(2) f1(1) that] by (simp add: failS_def)
  have "call_outcome D (unat gas) f (bindS (mem_set ro rs ret) (\<lambda>_ f2. returnS ret (add_gas left f2)) f1)"
    using mem_set_cases [of ro rs ret f1] ok bad [of VmPanic] f1 by (auto simp: bindS_def failS_def)
  with ok bad f1 f(2) show ?thesis unfolding ce by (auto split: option.split)
qed

lemma pop1_call:
  assumes "\<And>x st. stk f' = x # st \<Longrightarrow> call_outcome D g f (k x (f'\<lparr>stk := st\<rparr>))"
    and "contract f' = contract f" "depth (evm f') = D"
  shows "call_outcome D g f (pop1 k f')"
  using assms by (auto simp: pop1_def intro: call_outcome_panic split: list.split)

lemma mem_get_call:
  assumes "\<And>d. call_outcome D g f (k d f')" "contract f' = contract f" "depth (evm f') = D"
  shows "call_outcome D g f (mem_get off sz k f')"
  using assms by (auto simp: mem_get_def Memory_Get_def intro: call_outcome_panic split: sum.split)

lemma U256_0: "U256 v \<noteq> 0 \<Longrightarrow> v \<noteq> 0"
  by (auto simp: U256_mod)

definition stipend :: "int list \<Rightarrow> nat" where
  "stipend st = (if st ! 2 \<noteq> 0 then 2300 else 0)"

lemma call_with_value:
  assumes K: "\<And>g v c a d e. depth e = D \<Longrightarrow> unat g < n \<Longrightarrow> frugal_result D g (docall c a d g v e)"
    and D: "depth (evm f) = D" and n: "unat (callGasTemp (evm f)) + stipend (stk f) < n" "n \<le> 2 ^ 64"
  shows "call_outcome D (unat (callGasTemp (evm f)) + stipend (stk f)) f
    (pop1 (\<lambda>_. pop3 (\<lambda>addr value inOffset. pop3 (\<lambda>inSize retOffset retSize.
     mem_get inOffset inSize (\<lambda>args f.
       let gas0 = callGasTemp (evm f); toAddr = BigToAddress addr; value' = U256 value;
           gas = (if value' \<noteq> 0 then gas0 + CallStipend else gas0)
       in call_end retOffset retSize (docall (ContractCaller (contract f)) toAddr args gas value' (evm f)) f)))) f)"
proof -
  define g where "g = unat (callGasTemp (evm f)) + stipend (stk f)"
  have fin: "call_outcome D g f (call_end ro rs (docall c a d
       (if U256 v \<noteq> 0 then callGasTemp (evm f') + CallStipend else callGasTemp (evm f')) w (evm f')) f')"
    if "contract f' = contract f" "evm f' = evm f" "v = stk f ! 2" for f' v c a d w ro rs
  proof -
    define gas where "gas = (if U256 v \<noteq> 0 then callGasTemp (evm f) + CallStipend else callGasTemp (evm f))"
    have "unat gas \<le> g"
    proof (cases "U256 v = 0")
      case False
      with that(3) have "g = unat (callGasTemp (evm f)) + unat CallStipend"
        using U256_0 by (auto simp: g_def stipend_def CallStipend_def)
      moreover have "unat (callGasTemp (evm f) + CallStipend) \<le> unat (callGasTemp (evm f)) + unat CallStipend"
        by (simp add: unat_word_ariths mod_less_eq_dividend)
      ultimately show ?thesis using False by (simp add: gas_def)
    qed (simp add: gas_def g_def)
    moreover have "call_outcome D (unat gas) f' (call_end ro rs (docall c a d gas w (evm f')) f')"
      by (rule call_end_frugal, rule K) (use that D n(1) \<open>unat gas \<le> g\<close> in \<open>auto simp: g_def\<close>)
    ultimately show ?thesis
      using call_outcome_mono call_outcome_cong [OF that(1)] unfolding gas_def that(2) by blast
  qed
  show ?thesis
    unfolding pop3_def pop2_def g_def [symmetric] Let_def
    by (rule pop1_call mem_get_call fin | simp add: D; fail)+
qed

lemma call_without_value:
  assumes K: "\<And>g c a d e. depth e = D \<Longrightarrow> unat g < n \<Longrightarrow> frugal_result D g (docall c a d g e)"
    and D: "depth (evm f) = D" and n: "unat (callGasTemp (evm f)) < n"
  shows "call_outcome D (unat (callGasTemp (evm f))) f
    (pop1 (\<lambda>_. pop3 (\<lambda>addr inOffset inSize. pop2 (\<lambda>retOffset retSize.
     mem_get inOffset inSize (\<lambda>args f.
       call_end retOffset retSize
         (docall (ContractCaller (contract f)) (BigToAddress addr) args (callGasTemp (evm f)) (evm f)) f)))) f)"
proof -
  define g where "g = unat (callGasTemp (evm f))"
  have fin: "call_outcome D g f (call_end ro rs (docall c a d (callGasTemp (evm f')) (evm f')) f')"
    if "contract f' = contract f" "evm f' = evm f" for f' c a d ro rs
    using call_end_frugal [OF K, of "evm f'" "callGasTemp (evm f)"] call_outcome_cong [OF that(1)] that D n
    by (simp add: g_def)
  show ?thesis
    unfolding pop3_def pop2_def g_def [symmetric]
    by (rule pop1_call mem_get_call fin | simp add: D; fail)+
qed

text \<open>\<open>opCreate\<close> hands out gas of the contract itself.\<close>

definition create_outcome :: "nat \<Rightarrow> 'db frame \<Rightarrow> (vm_error + bytes) \<times> 'db frame \<Rightarrow> bool" where
  "create_outcome D f r \<longleftrightarrow> depth (evm (snd r)) = D \<and> fst r \<noteq> Inl VmUnresolved
     \<and> unat (Gas (contract (snd r))) \<le> unat (Gas (contract f))"

lemma create_frugal:
  assumes K: "\<And>c i g v e. depth e = D \<Longrightarrow> unat g < n \<Longrightarrow> frugal_create D g (do_Create K c i g v e)"
    and D: "depth (evm f) = D" and n: "unat (Gas (contract f)) < n"
  shows "create_outcome D f (opCreate cx K f)"
proof -
  have pop: "create_outcome D f (pop1 k f')"
    if "\<And>x st. stk f' = x # st \<Longrightarrow> create_outcome D f (k x (f'\<lparr>stk := st\<rparr>))" "contract f' = contract f" "depth (evm f') = D"
    for k f'
    using that by (auto simp: pop1_def create_outcome_def split: list.split)
  have get: "create_outcome D f (mem_get off sz k f')"
    if "\<And>d. create_outcome D f (k d f')" "contract f' = contract f" "depth (evm f') = D" for off sz k f'
    using that by (auto simp: mem_get_def Memory_Get_def create_outcome_def split: sum.split)
  define gas where "gas = (if IsEIP150 (chainConfig cx) (Some (BlockNumber cx))
      then Gas (contract f) - Gas (contract f) div 64 else Gas (contract f))"
  have gas: "gas \<le> Gas (contract f)"
    unfolding gas_def by (simp add: word_le_nat_alt word_sub_le_iff unat_div unat_sub)
  define c where "c = (contract f)\<lparr>Gas := Gas (contract f) - gas\<rparr>"
  have used: "snd (UseGas gas (contract f)) = c" using gas by (simp add: UseGas_def c_def)
  have fin: "create_outcome D f (let gas0 = Gas (contract f');
         gas = (if IsEIP150 (chainConfig cx) (Some (BlockNumber cx)) then gas0 - gas0 div 64 else gas0);
         c = snd (UseGas gas (contract f'));
         ((res, addr, returnGas, suberr), evm') = do_Create K (ContractCaller c) d gas w (evm f');
         f1 = f'\<lparr>contract := c, evm := evm'\<rparr>;
         v = (if IsHomestead (chainConfig cx) (Some (BlockNumber cx)) \<and> suberr = Some ErrCodeStoreOutOfGas then 0
              else if suberr \<noteq> None \<and> suberr \<noteq> Some ErrCodeStoreOutOfGas then 0
              else word_Big addr);
         f2 = add_gas returnGas (f1\<lparr>stk := v # stk f1\<rparr>)
     in case suberr of
          Some e \<Rightarrow> if fatal e then failS e f2
                    else if e = errExecutionReverted then returnS res f2 else returnS [] f2
        | None \<Rightarrow> returnS [] f2)"
    if f': "contract f' = contract f" "evm f' = evm f" for f' w d
  proof -
    obtain res addr rg err e where r: "do_Create K (ContractCaller c) d gas w (evm f) = ((res, addr, rg, err), e)"
      by (metis prod_cases4 surj_pair)
    have "unat gas < n" using gas n by (simp add: word_le_nat_alt)
    from K [OF D this, of "ContractCaller c" d w]
    have rg: "rg \<le> gas" "err \<noteq> Some VmUnresolved" "depth e = D" by (simp_all add: r frugal_create_def)
    have "unat (Gas (contract f) - gas + rg) \<le> unat (Gas (contract f))"
    proof -
      have "unat (Gas (contract f) - gas) = unat (Gas (contract f)) - unat gas"
        using gas by (simp add: unat_sub)
      moreover have "unat (Gas (contract f) - gas + rg) \<le> unat (Gas (contract f) - gas) + unat rg"
        by (simp add: unat_word_ariths mod_less_eq_dividend)
      moreover have "unat rg \<le> unat gas" "unat gas \<le> unat (Gas (contract f))"
        using rg(1) gas by (simp_all add: word_le_nat_alt)
      ultimately show ?thesis by linarith
    qed
    then show ?thesis
      using rg unfolding f' gas_def [symmetric] Let_def used r
      by (auto simp: create_outcome_def c_def failS_def returnS_def split: option.split)
  qed
  show ?thesis
    unfolding opCreate_def pop3_def pop2_def
    by (rule pop get fin | simp add: D; fail)+
qed

section \<open>One turn of the loop\<close>

text \<open>An instruction that was charged \<open>cost\<close> and then ran: what happened to the gas.\<close>

definition frugal_entry :: "nat \<Rightarrow> nat \<Rightarrow> GasTable \<Rightarrow> 'db operation \<Rightarrow> bool" where
  "frugal_entry n D gt e \<longleftrightarrow> (\<forall>f m cost f1 mm r f3.
     depth (evm f) = D \<longrightarrow> unat (Gas (contract f)) < n \<longrightarrow> gasCost e gt m f = (Inr cost, f1) \<longrightarrow> cost \<le> Gas (contract f1) \<longrightarrow>
     execute e (f1\<lparr>contract := (contract f1)\<lparr>Gas := Gas (contract f1) - cost\<rparr>, memory := mm\<rparr>) = (r, f3) \<longrightarrow>
     depth (evm f3) = D \<and> r \<noteq> Inl VmUnresolved \<and> unat (Gas (contract f3)) \<le> unat (Gas (contract f))
     \<and> (halts e \<or> reverts e \<or> isl r \<or> unat (Gas (contract f3)) < unat (Gas (contract f))))"

lemma steady_gas:
  assumes "(op, e) \<in> set (NewByzantiumInstructionSet cx K)" "gasCost e gt m f = (r, f')"
  shows "contract f' = contract f" "depth (evm f') = depth (evm f)" "r \<noteq> Inl VmUnresolved"
proof -
  have "sound (\<lambda>f f'. contract f' = contract f \<and> depth (evm f') = depth (evm f)) (gasCost e gt m)"
    using steady.table_sound [OF assms(1)] by blast
  from soundD [OF this assms(2)]
  show "contract f' = contract f" "depth (evm f') = depth (evm f)" "r \<noteq> Inl VmUnresolved" by blast+
qed

lemma unat_sub_gas: "(cost :: u64) \<le> g \<Longrightarrow> unat (g - cost) = unat g - unat cost"
  by (simp add: unat_sub)

lemma local_entry_frugal:
  assumes e: "(op, e) \<in> set (NewByzantiumInstructionSet cx K)" "e \<notin> set (call_entries cx K)" "prices_positive gt"
  shows "frugal_entry n D gt e"
  unfolding frugal_entry_def
proof (intro allI impI)
  fix f m cost f1 mm r f3
  assume D: "depth (evm f) = D" and c: "gasCost e gt m f = (Inr cost, f1)" "cost \<le> Gas (contract f1)"
    and x: "execute e (f1\<lparr>contract := (contract f1)\<lparr>Gas := Gas (contract f1) - cost\<rparr>, memory := mm\<rparr>) = (r, f3)"
  have "sound (\<lambda>f f'. contract f' = contract f \<and> depth (evm f') = depth (evm f)) (execute e)"
    using steady.table_sound [OF e(1)] e(2) by blast
  from soundD [OF this x] steady_gas [OF e(1) c(1)] D
  have k: "contract f3 = (contract f)\<lparr>Gas := Gas (contract f) - cost\<rparr>" "depth (evm f3) = D" "r \<noteq> Inl VmUnresolved" by auto
  have u: "unat (Gas (contract f3)) = unat (Gas (contract f)) - unat cost" "unat cost \<le> unat (Gas (contract f))"
    using c(2) steady_gas(1) [OF e(1) c(1)] k(1) by (simp_all add: unat_sub_gas word_le_nat_alt)
  moreover have "halts e \<or> reverts e \<or> 1 \<le> unat cost"
    using table_priced [OF e(1) e(3), of m] e(2) c(1) unfolding priced_def by blast
  ultimately show "depth (evm f3) = D \<and> r \<noteq> Inl VmUnresolved \<and> unat (Gas (contract f3)) \<le> unat (Gas (contract f))
     \<and> (halts e \<or> reverts e \<or> isl r \<or> unat (Gas (contract f3)) < unat (Gas (contract f)))"
    using k by auto
qed

lemma charged_call_frugal:
  assumes charge: "\<And>m. charges_call (gasCost e gt m) paid" and mem: "(op, e) \<in> set (NewByzantiumInstructionSet cx K)"
    and run: "\<And>f. depth (evm f) = D \<Longrightarrow> unat (callGasTemp (evm f)) + (if paid (stk f) then 2300 else 0) < n
       \<Longrightarrow> call_outcome D (unat (callGasTemp (evm f)) + (if paid (stk f) then 2300 else 0)) f (execute e f)"
  shows "frugal_entry n D gt e"
  unfolding frugal_entry_def
proof (intro allI impI)
  fix f m cost f1 mm r f3
  assume D: "depth (evm f) = D" and n: "unat (Gas (contract f)) < n"
    and c: "gasCost e gt m f = (Inr cost, f1)" "cost \<le> Gas (contract f1)"
    and x: "execute e (f1\<lparr>contract := (contract f1)\<lparr>Gas := Gas (contract f1) - cost\<rparr>, memory := mm\<rparr>) = (r, f3)"
  note k = steady_gas [OF mem c(1)]
  define s where "s = (if paid (stk f) then 2300 else 0 :: nat)"
  have ch: "(if paid (stk f) then 9000 else 0) + 40 + unat (callGasTemp (evm f1)) \<le> unat cost" "stk f1 = stk f"
    using charge [of m] c(1) unfolding charges_call_def by blast+
  have cost: "unat cost \<le> unat (Gas (contract f))" using c(2) k(1) by (simp add: word_le_nat_alt)
  let ?f2 = "f1\<lparr>contract := (contract f1)\<lparr>Gas := Gas (contract f1) - cost\<rparr>, memory := mm\<rparr>"
  have s: "unat (callGasTemp (evm f1)) + s + 40 \<le> unat cost" using ch(1) by (simp add: s_def split: if_splits)
  have "call_outcome D (unat (callGasTemp (evm f1)) + s) ?f2 (r, f3)"
    using run [of ?f2] ch(2) D k(2) s cost n by (simp add: x s_def)
  then obtain left where o: "depth (evm f3) = D" "r \<noteq> Inl VmUnresolved" "unat left \<le> unat (callGasTemp (evm f1)) + s"
    "Gas (contract f3) = Gas (contract f) - cost + left"
    using k(1) by (auto simp: call_outcome_def)
  have "unat (Gas (contract f3)) \<le> unat (Gas (contract f) - cost) + unat left"
    unfolding o(4) by (simp add: unat_word_ariths mod_less_eq_dividend)
  also have "unat (Gas (contract f) - cost) = unat (Gas (contract f)) - unat cost"
    using cost by (simp add: unat_sub_gas word_le_nat_alt)
  finally have "unat (Gas (contract f3)) < unat (Gas (contract f))" using o(3) s cost by linarith
  with o show "depth (evm f3) = D \<and> r \<noteq> Inl VmUnresolved \<and> unat (Gas (contract f3)) \<le> unat (Gas (contract f))
     \<and> (halts e \<or> reverts e \<or> isl r \<or> unat (Gas (contract f3)) < unat (Gas (contract f)))"
    by simp
qed

lemma create_entry_frugal:
  assumes K: "frugal_calls n D K" and gt: "prices_positive gt" and e: "execute e = opCreate cx K" "gasCost e = gasCreate"
    and mem: "(op, e) \<in> set (NewByzantiumInstructionSet cx K)"
  shows "frugal_entry n D gt e"
  unfolding frugal_entry_def
proof (intro allI impI)
  fix f m cost f1 mm r f3
  assume D: "depth (evm f) = D" and n: "unat (Gas (contract f)) < n"
    and c: "gasCost e gt m f = (Inr cost, f1)" "cost \<le> Gas (contract f1)"
    and x: "execute e (f1\<lparr>contract := (contract f1)\<lparr>Gas := Gas (contract f1) - cost\<rparr>, memory := mm\<rparr>) = (r, f3)"
  note k = steady_gas [OF mem c(1)]
  let ?f2 = "f1\<lparr>contract := (contract f1)\<lparr>Gas := Gas (contract f1) - cost\<rparr>, memory := mm\<rparr>"
  have u: "unat (Gas (contract ?f2)) = unat (Gas (contract f)) - unat cost" "unat cost \<le> unat (Gas (contract f))"
    using c(2) k(1) by (simp_all add: unat_sub_gas word_le_nat_alt)
  have "1 \<le> unat cost" using priced_gas(11) [OF gt, of m] c(1) unfolding e(2) priced_def by blast
  moreover have "create_outcome D ?f2 (opCreate cx K ?f2)"
    by (rule create_frugal [where n = n]) (use K D n k u in \<open>auto simp: frugal_calls_def\<close>)
  ultimately show "depth (evm f3) = D \<and> r \<noteq> Inl VmUnresolved \<and> unat (Gas (contract f3)) \<le> unat (Gas (contract f))
     \<and> (halts e \<or> reverts e \<or> isl r \<or> unat (Gas (contract f3)) < unat (Gas (contract f)))"
    using x u unfolding e(1) by (auto simp: create_outcome_def)
qed

lemma entry_frugal:
  assumes K: "frugal_calls n D K" "n \<le> 2 ^ 64" and gt: "prices_positive gt"
    and mem: "(op, e) \<in> set (NewByzantiumInstructionSet cx K)"
  shows "frugal_entry n D gt e"
proof (cases "e \<in> set (call_entries cx K)")
  case False
  with local_entry_frugal mem gt show ?thesis by blast
next
  case True
  note frugal = K(1) [unfolded frugal_calls_def, rule_format]
  consider (Create) "execute e = opCreate cx K" "gasCost e = gasCreate"
    | (Call) "execute e = opCall K" "gasCost e = gasCall cx"
    | (CallCode) "execute e = opCallCode K" "gasCost e = gasCallCode"
    | (Delegate) "execute e = opDelegateCall K" "gasCost e = gasDelegateCall"
    | (Static) "execute e = opStaticCall K" "gasCost e = gasStaticCall"
    using True unfolding call_entries_def by fastforce
  then show ?thesis
  proof cases
    case Create
    show ?thesis by (rule create_entry_frugal [OF K(1) gt Create mem])
  next
    case Call
    show ?thesis
      by (rule charged_call_frugal [OF _ mem, where paid = "\<lambda>st. st ! 2 \<noteq> 0"], unfold Call, rule gasCall_charges [OF gt],
          unfold opCall_def, rule call_with_value [unfolded stipend_def, OF _ _ _ K(2)]) (use frugal in auto)
  next
    case CallCode
    show ?thesis
      by (rule charged_call_frugal [OF _ mem, where paid = "\<lambda>st. st ! 2 \<noteq> 0"], unfold CallCode, rule gasCallCode_charges [OF gt],
          unfold opCallCode_def, rule call_with_value [unfolded stipend_def, OF _ _ _ K(2)]) (use frugal in auto)
  next
    case Delegate
    show ?thesis
      by (rule charged_call_frugal [OF _ mem, where paid = "\<lambda>_. False"], unfold Delegate, rule gasDelegateCall_charges(1) [OF gt],
          unfold opDelegateCall_def if_False add_0_right, rule call_without_value) (use frugal in auto)
  next
    case Static
    show ?thesis
      by (rule charged_call_frugal [OF _ mem, where paid = "\<lambda>_. False"], unfold Static, rule gasDelegateCall_charges(2) [OF gt],
          unfold opStaticCall_def if_False add_0_right, rule call_without_value) (use frugal in auto)
  qed
qed

text \<open>The checks before an instruction do not run out of fuel either.\<close>

definition checks_end :: "'db operation \<Rightarrow> bool" where
  "checks_end e \<longleftrightarrow> (\<forall>st. validateStack e st \<noteq> Inl VmUnresolved \<and> (\<forall>g. memorySize e = Some g \<longrightarrow> g st \<noteq> Inl VmUnresolved))"

lemma makeStackFunc_end: "makeStackFunc a b st \<noteq> Inl VmUnresolved" "makeDupStackFunc n st \<noteq> Inl VmUnresolved"
  "makeSwapStackFunc n st \<noteq> Inl VmUnresolved"
  by (simp_all add: makeStackFunc_def makeDupStackFunc_def makeSwapStackFunc_def stack_require_def)

lemma back_size_end: "back_size i j st \<noteq> Inl VmUnresolved"
  by (simp add: back_size_def stack_Back_def)

lemma back_size_pair_end:
  "bindE (back_size i j st) (\<lambda>x. bindE (back_size i' j' st) (\<lambda>y. Inr (h x y))) \<noteq> Inl VmUnresolved"
  using back_size_end [of i j st] back_size_end [of i' j' st]
  by (cases "back_size i j st"; cases "back_size i' j' st") simp_all

lemma memory_funcs_end:
  "memorySha3 st \<noteq> Inl VmUnresolved" "memoryCallDataCopy st \<noteq> Inl VmUnresolved" "memoryReturnDataCopy st \<noteq> Inl VmUnresolved"
  "memoryCodeCopy st \<noteq> Inl VmUnresolved" "memoryExtCodeCopy st \<noteq> Inl VmUnresolved" "memoryMLoad st \<noteq> Inl VmUnresolved"
  "memoryMStore8 st \<noteq> Inl VmUnresolved" "memoryMStore st \<noteq> Inl VmUnresolved" "memoryCreate st \<noteq> Inl VmUnresolved"
  "memoryCall st \<noteq> Inl VmUnresolved" "memoryDelegateCall st \<noteq> Inl VmUnresolved" "memoryStaticCall st \<noteq> Inl VmUnresolved"
  "memoryReturn st \<noteq> Inl VmUnresolved" "memoryRevert st \<noteq> Inl VmUnresolved" "memoryLog st \<noteq> Inl VmUnresolved"
  by (simp_all add: memorySha3_def memoryCallDataCopy_def memoryReturnDataCopy_def memoryCodeCopy_def memoryExtCodeCopy_def
      memoryMLoad_def memoryMStore8_def memoryMStore_def memoryCreate_def memoryCall_def memoryDelegateCall_def
      memoryStaticCall_def memoryReturn_def memoryRevert_def memoryLog_def back_size_end back_size_pair_end stack_Back_def)

lemma table_checks_end:
  assumes "(op, e) \<in> set (NewByzantiumInstructionSet cx K)"
  shows "checks_end e"
proof -
  note ends = makeStackFunc_end memory_funcs_end checks_end_def
  have arith: "\<forall>(op, e) \<in> set frontier_arithmetic. checks_end e"
    by (simp add: frontier_arithmetic_def ends)
  have comp: "\<forall>(op, e) \<in> set frontier_comparison. checks_end e"
    by (simp add: frontier_comparison_def ends)
  have env: "\<forall>(op, e) \<in> set (frontier_environment cx @ frontier_block cx). checks_end e"
    by (simp add: frontier_environment_def frontier_block_def ends)
  have flow: "\<forall>(op, e) \<in> set (frontier_flow cx). checks_end e"
    by (simp add: frontier_flow_def ends)
  have fam: "\<forall>(op, e) \<in> set (frontier_push @ frontier_dup @ frontier_swap). checks_end e"
    by (auto simp: frontier_push_def frontier_dup_def frontier_swap_def ends)
  have log: "\<forall>(op, e) \<in> set (frontier_log cx). checks_end e"
    by (simp add: frontier_log_def ends)
  have rest: "checks_end e"
    if "(op, e) \<in> set (frontier_call cx K @ drop (length (NewFrontierInstructionSet cx K)) (NewByzantiumInstructionSet cx K))"
    using that
    by (auto simp: NewByzantiumInstructionSet_def NewHomesteadInstructionSet_def frontier_call_def ends)
  show ?thesis using assms arith comp env flow fam log rest unfolding table_union by blast
qed

lemma prechecks_end:
  assumes "checks_end e"
  shows "bindE (validateStack e st) (\<lambda>_. bindE (enforceRestrictions cx op e f) (\<lambda>_. memory_need e st)) \<noteq> Inl VmUnresolved"
proof -
  have "enforceRestrictions cx op e f \<noteq> Inl VmUnresolved"
    by (auto simp: enforceRestrictions_def stack_Back_def)
  moreover have "memory_need e st \<noteq> Inl VmUnresolved"
    using assms by (auto simp: memory_need_def checks_end_def bindE_def split: option.split sum.splits prod.splits)
  ultimately show ?thesis
    using assms by (auto simp: checks_end_def bindE_def split: sum.splits)
qed

lemma charge_steady:
  assumes mem: "(op, e) \<in> set (NewByzantiumInstructionSet cx K)" and "charge cx e memSize f = (Inl x, f')"
  shows "depth (evm f') = depth (evm f)" "contract f' = contract f" "x \<noteq> VmUnresolved"
proof -
  obtain g f1 where g: "gasCost e (chain_GasTable (chainConfig cx) (Some (BlockNumber cx))) memSize f = (g, f1)" by (metis surj_pair)
  from steady_gas [OF mem g] assms(2)
  show "depth (evm f') = depth (evm f)" "contract f' = contract f" "x \<noteq> VmUnresolved"
    by (auto simp: charge_def g UseGas_def split: if_splits sum.splits)
qed

lemma charge_paid:
  assumes "\<not> DisableGasMetering cx" "charge cx e memSize f = (Inr (), f')"
  shows "\<exists>cost g. gasCost e (chain_GasTable (chainConfig cx) (Some (BlockNumber cx))) memSize f = (Inr cost, g)
    \<and> cost \<le> Gas (contract g) \<and> f' = g\<lparr>contract := (contract g)\<lparr>Gas := Gas (contract g) - cost\<rparr>\<rparr>"
  using assms by (auto simp: charge_def UseGas_def split: if_splits sum.splits prod.splits)

lemma run_step_frugal:
  assumes K: "frugal_calls n D K" "n \<le> 2 ^ 64" and on: "\<not> DisableGasMetering cx"
    and f: "depth (evm f) = D" "unat (Gas (contract f)) < n" and step: "run_step cx K f = (r, f')"
  shows "depth (evm f') = D \<and> (case r of
      None \<Rightarrow> unat (Gas (contract f')) < unat (Gas (contract f))
    | Some (ret, err) \<Rightarrow> unat (Gas (contract f')) \<le> unat (Gas (contract f)) \<and> err \<noteq> Some VmUnresolved)"
  using step
proof (cases rule: run_step_cases)
  case invalid
  then show ?thesis using f by simp
next
  case (refused op e x)
  then have "x \<noteq> VmUnresolved" using prechecks_end [OF table_checks_end] by metis
  then show ?thesis using refused f by simp
next
  case (unpaid op e memSize x)
  from charge_steady [OF unpaid(2) this(7)] unpaid(3) f show ?thesis by auto
next
  case (ran op e memSize f1)
  from charge_paid [OF on ran(6)] obtain cost g where
    g: "gasCost e (chain_GasTable (chainConfig cx) (Some (BlockNumber cx))) memSize f = (Inr cost, g)"
      "cost \<le> Gas (contract g)" "f1 = g\<lparr>contract := (contract g)\<lparr>Gas := Gas (contract g) - cost\<rparr>\<rparr>" by blast
  obtain x f3 where x: "execute e (grow memSize f1) = (x, f3)" by (metis surj_pair)
  have "grow memSize f1 = g\<lparr>contract := (contract g)\<lparr>Gas := Gas (contract g) - cost\<rparr>, memory := memory (grow memSize f1)\<rparr>"
    by (simp add: grow_def g(3))
  with x have "execute e (g\<lparr>contract := (contract g)\<lparr>Gas := Gas (contract g) - cost\<rparr>, memory := memory (grow memSize f1)\<rparr>) = (x, f3)"
    by simp
  from entry_frugal [OF K chain_prices ran(2), unfolded frugal_entry_def, rule_format, OF f g(1,2) this]
  show ?thesis using ran(7) unfolding x step_end_def
    by (cases x) (auto simp: Let_def split: if_splits)
qed

lemma run_loop_frugal:
  assumes K: "frugal_calls n D K" "n \<le> 2 ^ 64" and on: "\<not> DisableGasMetering cx"
  shows "depth (evm f) = D \<Longrightarrow> unat (Gas (contract f)) < n \<Longrightarrow> unat (Gas (contract f)) < k \<Longrightarrow> run_loop k cx K f = ((ret, err), f')
    \<Longrightarrow> depth (evm f') = D \<and> unat (Gas (contract f')) \<le> unat (Gas (contract f)) \<and> err \<noteq> Some VmUnresolved"
proof (induction k arbitrary: f)
  case (Suc k)
  obtain r f1 where s: "run_step cx K f = (r, f1)" by (metis surj_pair)
  note fr = run_step_frugal [OF K on Suc.prems(1,2) s]
  show ?case
  proof (cases r)
    case None
    with fr s Suc.IH [of f1] Suc.prems show ?thesis by auto
  next
    case (Some x)
    with fr s Suc.prems show ?thesis by auto
  qed
qed simp

section \<open>Message calls\<close>

lemma UseGas_le: "UseGas g c = (b, c') \<Longrightarrow> Gas c' \<le> Gas c"
  by (auto simp: UseGas_def not_less intro: word_sub_le split: if_splits)

definition ends :: "vm_error + 'a \<Rightarrow> bool" where
  "ends m \<longleftrightarrow> m \<noteq> Inl VmUnresolved"

lemma ends_simps [simp]: "ends (Inr y)" "ends (Inl x) \<longleftrightarrow> x \<noteq> VmUnresolved"
  by (simp_all add: ends_def)

lemma ends_bindE: "ends m \<Longrightarrow> (\<And>x. ends (k x)) \<Longrightarrow> ends (bindE m k)"
  by (cases m) auto

lemma ends_getData: "ends (getData d a b)"
  by (simp add: getData_def Let_def)

lemma ends_points: "ends (newCurvePoint x b)" "ends (newTwistPoint x b)"
  by (simp_all add: newCurvePoint_def newTwistPoint_def split: option.split)

lemma ends_pairing_points: "ends (pairing_points x input)"
proof (induction x input rule: pairing_points.induct)
  case (1 x input)
  then show ?case
    by (subst pairing_points.simps) (auto intro!: ends_bindE ends_points)
qed

lemma ends_modexp_header: "ends (modexp_header input)"
  unfolding modexp_header_def by (intro ends_bindE ends_getData) simp

lemma precompiled_ends:
  shows "ends (RequiredGas p input)" "ends (precompiled_Run x p input)"
proof -
  have "ends (bigModExp_RequiredGas input)"
    unfolding bigModExp_RequiredGas_def
    by (intro ends_bindE ends_modexp_header) (auto intro!: ends_bindE ends_getData simp: Let_def)
  then show "ends (RequiredGas p input)" by (cases p) simp_all
  have "ends (bigModExp_Run input)"
    unfolding bigModExp_Run_def
    by (intro ends_bindE ends_modexp_header) (auto intro!: ends_bindE ends_getData simp: Let_def)
  moreover have "ends (ecrecover_Run x input)"
    by (simp add: ecrecover_Run_def Let_def split: option.split)
  moreover have "ends (bn256Add_Run x input)" "ends (bn256ScalarMul_Run x input)"
    unfolding bn256Add_Run_def bn256ScalarMul_Run_def by (intro ends_bindE ends_getData ends_points; simp)+
  moreover have "ends (bn256Pairing_Run x input)"
    unfolding bn256Pairing_Run_def by (auto intro!: ends_bindE ends_pairing_points)
  ultimately show "ends (precompiled_Run x p input)" by (cases p) simp_all
qed

lemma RunPrecompiled_frugal:
  assumes "RunPrecompiledContract x p input c = (r, c')"
  shows "Gas c' \<le> Gas c \<and> ends r"
  using assms precompiled_ends(1) [of p input] precompiled_ends(2) [of x p input]
  by (auto simp: RunPrecompiledContract_def dest: UseGas_le split: sum.splits prod.splits bool.splits)

definition frugal_run :: "nat \<Rightarrow> u64 \<Rightarrow> (bytes \<times> vm_error option) \<times> contract \<times> 'db EVM \<Rightarrow> bool" where
  "frugal_run D gas r \<longleftrightarrow> (case r of ((ret, err), c, e) \<Rightarrow> Gas c \<le> gas \<and> err \<noteq> Some VmUnresolved \<and> depth e = D)"

lemma vm_run_frugal:
  assumes K: "frugal_calls n (Suc D) K" "n \<le> 2 ^ 64" and on: "\<not> DisableGasMetering cx" and n: "unat (Gas c) < n" "depth e = D"
  shows "frugal_run D (Gas c) (vm_run n cx K c input e)"
proof (cases "case CodeAddr c of None \<Rightarrow> None | Some a \<Rightarrow> map_of (precompiles cx) a")
  case (Some p)
  obtain r c' where r: "RunPrecompiledContract (crypt cx) p input c = (r, c')" by (metis surj_pair)
  from RunPrecompiled_frugal [OF r] n Some r show ?thesis
    by (cases r) (auto simp: vm_run_def frugal_run_def)
next
  case None
  define f where "f = \<lparr>pc = 0, stk = [], memory = NewMemory, contract = c\<lparr>c_Input := input\<rparr>, evm = e\<lparr>depth := depth e + 1, returnData := []\<rparr>\<rparr>"
  obtain ret err f' where l: "run_loop n cx K f = ((ret, err), f')" by (metis surj_pair)
  have "depth (evm f') = Suc D \<and> unat (Gas (contract f')) \<le> unat (Gas (contract f)) \<and> err \<noteq> Some VmUnresolved"
    by (rule run_loop_frugal [OF K on _ _ _ l]) (simp_all add: f_def n)
  then show ?thesis
    using None l n
    by (auto simp: vm_run_def Interpreter_Run_def Let_def frugal_run_def f_def word_le_nat_alt)
qed

lemma finish_call_frugal:
  assumes "frugal_run D gas r"
  shows "frugal_result D gas (finish_call cx snap r)"
proof -
  obtain ret err c e where r: "r = ((ret, err), c, e)" by (metis prod_cases3 surj_pair)
  have "Gas (snd (UseGas (Gas c) c)) = 0" by (simp add: UseGas_def)
  with assms show ?thesis
    by (auto simp: r frugal_run_def finish_call_def frugal_result_def fatal_def split: option.splits)
qed

lemma dests_depth [simp]: "depth (enter_dests caller e) = depth e"
  by (simp add: enter_dests_def split: ContractRef.split)

lemma contract_gas [simp]: "Gas (SetCallCode a h code c) = Gas c" "Gas (NewContract caller a v g) = g"
  by (simp_all add: SetCallCode_def NewContract_def)

lemma AsDelegate_end: "AsDelegate caller c = Inl x \<Longrightarrow> x \<noteq> VmUnresolved" "AsDelegate caller c = Inr c' \<Longrightarrow> Gas c' = Gas c"
  by (auto simp: AsDelegate_def split: ContractRef.splits)

lemma calls_frugal:
  assumes K: "frugal_calls n (Suc D) K" "n \<le> 2 ^ 64" and on: "\<not> DisableGasMetering cx" and n: "unat gas < n" "depth e = D"
  shows "frugal_result D gas (EVM_Call n cx K caller addr input gas v e)"
    "frugal_result D gas (EVM_CallCode n cx K caller addr input gas v e)"
    "frugal_result D gas (EVM_DelegateCall n cx K caller addr input gas e)"
    "frugal_result D gas (EVM_StaticCall n cx K caller addr input gas e)"
proof -
  have run: "frugal_result D gas (finish_call cx snap (vm_run n cx K c input e'))"
    if "Gas c = gas" "depth e' = D" for snap c e'
    using finish_call_frugal [OF vm_run_frugal [OF K on, where c = c and e = e']] that n by simp
  have stop: "frugal_result D gas ((ret, gas, err), e')" if "err \<noteq> Some VmUnresolved" "depth e' = D" for ret err e'
    using that by (simp add: frugal_result_def)
  show "frugal_result D gas (EVM_Call n cx K caller addr input gas v e)"
    by (auto simp: EVM_Call_def Let_def n(2) intro!: run stop split: prod.split)
  show "frugal_result D gas (EVM_CallCode n cx K caller addr input gas v e)"
    by (auto simp: EVM_CallCode_def Let_def n(2) intro!: run stop split: prod.split)
  show "frugal_result D gas (EVM_DelegateCall n cx K caller addr input gas e)"
    by (auto simp: EVM_DelegateCall_def Let_def n(2) AsDelegate_end(2) dest: AsDelegate_end(1) intro!: run stop split: prod.split sum.split)
  obtain snap db where db: "db_Snapshot (sdb cx) (StateDB e) = (snap, db)" by (metis surj_pair)
  let ?c = "SetCallCode addr (db_GetCodeHash (sdb cx) db addr) (db_GetCode (sdb cx) db addr) (NewContract caller addr 0 gas)"
  obtain r e' where r: "finish_call cx snap (vm_run n cx K ?c input (enter_dests caller (e\<lparr>StateDB := db, readOnly := True\<rparr>))) = (r, e')"
    by (metis surj_pair)
  have "frugal_result D gas (r, e')" unfolding r [symmetric] by (rule run) (simp_all add: n(2))
  then have "frugal_result D gas (r, e'\<lparr>readOnly := b\<rparr>)" for b by (auto simp: frugal_result_def)
  then show "frugal_result D gas (EVM_StaticCall n cx K caller addr input gas e)"
    using \<open>frugal_result D gas (r, e')\<close>
    by (auto simp: EVM_StaticCall_def Let_def n(2) db r intro!: stop)
qed

lemma finish_create_frugal:
  assumes "frugal_run D gas r"
  shows "frugal_create D gas (finish_create cx snap a r)"
proof -
  obtain ret err0 c1 e1 where r: "r = ((ret, err0), c1, e1)" by (metis prod_cases3 surj_pair)
  have zero: "Gas (snd (UseGas (Gas c) c)) = 0" for c by (simp add: UseGas_def)
  have old: "Gas c1 \<le> gas" "depth e1 = D" "err0 \<noteq> Some VmUnresolved" using assms by (auto simp: r frugal_run_def)
  obtain err c2 e2 where s: "store_code cx a ret c1 e1 = (err, c2, e2)" by (metis prod_cases3)
  have new: "Gas c2 \<le> gas" "depth e2 = D" "err \<noteq> Some VmUnresolved"
    using s old by (auto simp: store_code_def dest!: UseGas_le split: prod.splits bool.splits)
  show ?thesis
    using old new
    by (auto simp: finish_create_def r s Let_def zero frugal_create_def fatal_def split: option.split)
qed

lemma create_call_frugal:
  assumes K: "frugal_calls n (Suc D) K" "n \<le> 2 ^ 64" and on: "\<not> DisableGasMetering cx" and n: "unat gas < n" "depth e = D"
  shows "frugal_create D gas (EVM_Create n cx K caller code gas v e)"
proof -
  have run: "frugal_create D gas (finish_create cx snap a (vm_run n cx K c [] e'))" if "Gas c = gas" "depth e' = D" for c e' snap a
    using finish_create_frugal [OF vm_run_frugal [OF K on, where c = c and e = e']] that n by simp
  have stop: "frugal_create D gas ((ret, a, left, err), e')" if "err \<noteq> Some VmUnresolved" "depth e' = D" "left \<le> gas" for ret a left err e'
    using that by (simp add: frugal_create_def)
  show ?thesis
    unfolding EVM_Create_def Let_def n(2)
    by (simp split: prod.split, intro conjI impI allI; rule run stop; simp add: n(2))
qed

text \<open>The recursion: \<open>d\<close> levels are enough from a depth \<open>D\<close> on with \<open>D + d > 1025\<close>, since a call at depth 1025 is refused.\<close>

lemma calls_at_frugal:
  assumes on: "\<not> DisableGasMetering cx" and n: "n \<le> 2 ^ 64"
  shows "D + d \<ge> 1026 \<Longrightarrow> D \<le> 1025 \<Longrightarrow> frugal_calls n D (vm_calls_at n d cx)"
proof (induction d arbitrary: D)
  case (Suc d)
  show ?case
  proof (cases "D \<le> 1024")
    case True
    have K: "frugal_calls n (Suc D) (vm_calls_at n d cx)" using Suc.IH [of "Suc D"] Suc.prems True by simp
    show ?thesis
      using calls_frugal [OF K n on] create_call_frugal [OF K n on]
      by (simp add: frugal_calls_def calls_over_def)
  next
    case False
    then have D: "D = 1025" using Suc.prems by simp
    have deep: "frugal_result D gas (([], gas, None), e)" "frugal_result D gas (([], gas, Some ErrDepth), e)"
      "frugal_create D gas (([], 0, gas, Some ErrDepth), e)" if "depth e = D" for gas and e :: "'a EVM"
      using that by (simp_all add: frugal_result_def frugal_create_def)
    show ?thesis
      unfolding frugal_calls_def calls_over_def vm_calls_at.simps
      using deep [unfolded D]
      by (simp add: EVM_Call_def EVM_CallCode_def EVM_DelegateCall_def EVM_StaticCall_def EVM_Create_def CallCreateDepth_def D)
  qed
qed simp

section \<open>Results\<close>

text \<open>
  C3.  With gas metering, every message call and every contract creation from a fresh virtual machine ends:
  a number of turns of the interpreter's loop above the gas given, and 1026 levels of calls, are enough, so
  that no result is cut short.  The gas that comes back never exceeds the gas given, and the call depth is
  back at zero.
\<close>

theorem calls_terminate_within_gas:
  assumes "\<not> DisableGasMetering cx" "unat gas < n" "n \<le> 2 ^ 64"
  shows "(case EVM_Call n cx (vm_calls_at n 1025 cx) caller addr input gas amount (NewEVM db) of
      ((ret, left, err), e) \<Rightarrow> left \<le> gas \<and> err \<noteq> Some VmUnresolved \<and> depth e = 0)
    \<and> (case EVM_Create n cx (vm_calls_at n 1025 cx) caller input gas amount (NewEVM db) of
      ((ret, a, left, err), e) \<Rightarrow> left \<le> gas \<and> err \<noteq> Some VmUnresolved \<and> depth e = 0)"
proof -
  have K: "frugal_calls n (Suc 0) (vm_calls_at n 1025 cx)" using calls_at_frugal [OF assms(1,3)] by simp
  have d: "depth (NewEVM db) = 0" by (simp add: NewEVM_def)
  show ?thesis
    using calls_frugal(1) [OF K assms(3,1,2) d] create_call_frugal [OF K assms(3,1,2) d]
    unfolding frugal_result_def frugal_create_def by (rule conjI)
qed

theorem calls_terminate_within_gas_witness:
  "\<not> DisableGasMetering sample_context \<and> db_GetCode (sdb sample_context) () 9 = [0x5B, 0x60, 0x00, 0x56]
   \<and> (case EVM_Call 41 sample_context (vm_calls_at 41 1025 sample_context) (AccountRef 1) 9 [] 40 0 (NewEVM ()) of
        ((ret, left, err), e) \<Rightarrow> left \<le> 40 \<and> err \<noteq> Some VmUnresolved \<and> depth e = 0)"
proof -
  have on: "\<not> DisableGasMetering sample_context" and code: "db_GetCode (sdb sample_context) () 9 = [0x5B, 0x60, 0x00, 0x56]"
    by (simp_all add: sample_context_def sample_db_def loop_code_def)
  have "unat (40 :: u64) < 41" "(41 :: nat) \<le> 2 ^ 64" by simp_all
  from on code conjunct1 [OF calls_terminate_within_gas [OF on this]] show ?thesis by (intro conjI)
qed

end
