(* ===== verification/Evm_Arith.thy ===== *)
theory Evm_Arith
  imports Evm_Sample
begin

text \<open>
  The arithmetic instructions against a reference on 256-bit words: the stack of arbitrary integers behaves
  as a stack of machine words.
\<close>

section \<open>Reference\<close>

type_synonym word256 = "256 word"

definition flag :: "bool \<Rightarrow> word256" where
  "flag b = (if b then 1 else 0)"

text \<open>Division and remainder of signed words round towards zero.\<close>

definition word_sdivide :: "word256 \<Rightarrow> word256 \<Rightarrow> word256" where
  "word_sdivide x y = word_of_int (sgn (sint x * sint y) * (\<bar>sint x\<bar> div \<bar>sint y\<bar>))"

definition word_smodulo :: "word256 \<Rightarrow> word256 \<Rightarrow> word256" where
  "word_smodulo x y = (if y = 0 then 0 else word_of_int (sgn (sint x) * (\<bar>sint x\<bar> mod \<bar>sint y\<bar>)))"

text \<open>The byte at index \<open>k\<close> counted from the most significant one; the extension of the sign of byte \<open>k\<close> counted
  from the least significant one.\<close>

definition word_byte :: "word256 \<Rightarrow> word256 \<Rightarrow> word256" where
  "word_byte k x = (if k < 32 then take_bit 8 (drop_bit (8 * (31 - unat k)) x) else 0)"

definition word_sign_extend :: "word256 \<Rightarrow> word256 \<Rightarrow> word256" where
  "word_sign_extend k x = (if k < 31 then word_of_int (signed_take_bit (8 * unat k + 7) (uint x)) else x)"

definition unary_reference :: "('db op \<times> (word256 \<Rightarrow> word256)) list" where
  "unary_reference = [(opNot, NOT), (opIszero, \<lambda>x. flag (x = 0))]"

definition binary_reference :: "('db op \<times> (word256 \<Rightarrow> word256 \<Rightarrow> word256)) list" where
  "binary_reference =
     [(opAdd, (+)), (opSub, (-)), (opMul, (*)), (opDiv, (div)), (opSdiv, word_sdivide),
      (opMod, \<lambda>x y. if y = 0 then 0 else x mod y), (opSmod, word_smodulo), (opExp, \<lambda>x y. x ^ unat y),
      (opSignExtend, word_sign_extend), (opLt, \<lambda>x y. flag (x < y)), (opGt, \<lambda>x y. flag (y < x)),
      (opSlt, \<lambda>x y. flag (sint x < sint y)), (opSgt, \<lambda>x y. flag (sint y < sint x)), (opEq, \<lambda>x y. flag (x = y)),
      (opAnd, (AND)), (opOr, (OR)), (opXor, (XOR)), (opByte, word_byte)]"

definition ternary_reference :: "('db op \<times> (word256 \<Rightarrow> word256 \<Rightarrow> word256 \<Rightarrow> word256)) list" where
  "ternary_reference =
     [(opAddmod, \<lambda>x y z. if z = 0 then 0 else word_of_int ((uint x + uint y) mod uint z)),
      (opMulmod, \<lambda>x y z. if z = 0 then 0 else word_of_int ((uint x * uint y) mod uint z))]"

section \<open>Equivalence\<close>

definition implements2 :: "'db op \<Rightarrow> (word256 \<Rightarrow> word256 \<Rightarrow> word256) \<Rightarrow> bool" where
  "implements2 op g \<longleftrightarrow> (\<forall>f x y st. stk f = uint x # uint y # st \<longrightarrow> op f = (Inr [], f\<lparr>stk := uint (g x y) # st\<rparr>))"

lemma pop2_simp [simp]: "stk f = a # b # st \<Longrightarrow> pop2 k f = k a b (f\<lparr>stk := st\<rparr>)"
  by (simp add: pop2_def pop1_def)

lemma pop3_simp [simp]: "stk f = a # b # c # st \<Longrightarrow> pop3 k f = k a b c (f\<lparr>stk := st\<rparr>)"
  by (simp add: pop3_def pop1_def)

lemma implements2I:
  assumes "\<And>x y. h (uint x) (uint y) = push (uint (g x y))"
  shows "implements2 (pop2 h) g"
  using assms by (simp add: implements2_def push_def)

lemma uint_bounds256: "0 \<le> uint (x :: word256)" "uint (x :: word256) < 2 ^ 256"
  using uint_ge_0 uint_bounded [of x] by simp_all

lemma S256_uint [simp]: "S256 (uint (x :: word256)) = sint x"
  using S256_word [OF uint_bounds256] by simp

lemma sint_S256 [simp]: "S256 (sint (x :: word256)) = sint x"
proof -
  have "sint x < 2 ^ 255" using sint_lt [of x] by simp
  then show ?thesis by (simp add: S256_def)
qed

lemma uint_flag: "(if b then 1 else 0) = uint (flag b)"
  by (simp add: flag_def)

lemma implements_ring: "implements2 opAdd (+)" "implements2 opSub (-)" "implements2 opMul (*)"
  unfolding opAdd_def opSub_def opMul_def by (rule implements2I; simp add: U256_word)+

lemma implements_division:
  "implements2 opDiv (div)" "implements2 opMod (\<lambda>x y. if y = 0 then 0 else x mod y)"
proof -
  show "implements2 opDiv (div)"
    unfolding opDiv_def
    by (rule implements2I) (auto simp: U256_word big_Div_def uint_0_iff not_less [THEN iffD2, OF uint_ge_0] simp flip: uint_div_distrib)
  show "implements2 opMod (\<lambda>x y. if y = 0 then 0 else x mod y)"
    unfolding opMod_def
    by (rule implements2I) (auto simp: U256_word big_Mod_def uint_0_iff simp flip: uint_mod_distrib)
qed

lemma implements_signed: "implements2 opSdiv word_sdivide" "implements2 opSmod word_smodulo"
proof -
  have z: "sint y = 0 \<longleftrightarrow> y = 0" for y :: word256 by (metis signed_0 signed_word_eqI)
  show "implements2 opSdiv word_sdivide"
    unfolding opSdiv_def
  proof (rule implements2I, unfold Let_def S256_uint)
    fix x y :: word256
    show "(if sint y = 0 then push 0 else push (U256 (big_Div \<bar>sint x\<bar> \<bar>sint y\<bar> * (if sint x * sint y < 0 then - 1 else 1))))
        = push (uint (word_sdivide x y))"
    proof (cases "sint x = 0 \<or> sint y = 0")
      case True
      then show ?thesis by (auto simp: word_sdivide_def U256_word big_Div_def)
    next
      case False
      then have "sgn (sint x * sint y) = (if sint x * sint y < 0 then - 1 else 1)"
        by (simp add: sgn_if)
      with False show ?thesis by (simp add: word_sdivide_def U256_word big_Div_def mult.commute)
    qed
  qed
  show "implements2 opSmod word_smodulo"
    unfolding opSmod_def
  proof (rule implements2I, unfold Let_def S256_uint)
    fix x y :: word256
    show "(if sint y = 0 then push 0 else push (U256 (big_Mod \<bar>sint x\<bar> \<bar>sint y\<bar> * (if sint x < 0 then - 1 else 1))))
        = push (uint (word_smodulo x y))"
      by (cases "sint x = 0"; cases "sint y = 0") (auto simp: word_smodulo_def U256_word big_Mod_def z sgn_if)
  qed
qed

lemma implements_exp: "implements2 opExp (\<lambda>x y. x ^ unat y)"
  unfolding opExp_def
proof (rule implements2I)
  fix x y :: word256
  have "fst (math_Exp (uint x) (uint y)) = U256 (uint x ^ unat y)"
    using math_Exp_correct [OF uint_bounds256 [of x] uint_bounds256(1) [of y]] by (simp only: unat_eq_nat_uint)
  also have "\<dots> = uint (x ^ unat y)"
    by (simp only: U256_word of_int_power word_of_int_uint)
  finally show "push (fst (math_Exp (uint x) (uint y))) = push (uint (x ^ unat y))" by (simp only:)
qed

lemma implements_comparison:
  "implements2 opLt (\<lambda>x y. flag (x < y))" "implements2 opGt (\<lambda>x y. flag (y < x))"
  "implements2 opSlt (\<lambda>x y. flag (sint x < sint y))" "implements2 opSgt (\<lambda>x y. flag (sint y < sint x))"
  "implements2 opEq (\<lambda>x y. flag (x = y))"
  unfolding opLt_def opGt_def opSlt_def opSgt_def opEq_def
  by (rule implements2I; simp add: flag_def word_less_def word_uint_eq_iff)+

lemma implements_bitwise: "implements2 opAnd (AND)" "implements2 opOr (OR)" "implements2 opXor (XOR)"
  unfolding opAnd_def opOr_def opXor_def
  by (rule implements2I; simp add: unsigned_and_eq unsigned_or_eq unsigned_xor_eq)+

lemma sign_extend_bits:
  "signed_take_bit n (a :: int) = (if bit a n then a OR NOT (push_bit n 1 - 1) else a AND (push_bit n 1 - 1))"
proof -
  have m: "push_bit n 1 - 1 = (mask n :: int)" by (simp add: mask_eq_exp_minus_1 push_bit_eq_mult)
  show ?thesis unfolding m
    by (rule bit_eqI) (auto simp: bit_signed_take_bit_iff bit_or_iff bit_and_iff bit_not_iff bit_mask_iff min_def not_less le_less)
qed

lemma implements_sign_extend: "implements2 opSignExtend word_sign_extend"
  unfolding implements2_def
proof (intro allI impI)
  fix f :: "'a frame" and k x :: word256 and st
  assume f: "stk f = uint k # uint x # st"
  show "opSignExtend f = (Inr [], f\<lparr>stk := uint (word_sign_extend k x) # st\<rparr>)"
  proof (cases "k < 31")
    case True
    then have "unat k < 31" unfolding word_less_nat_alt by simp
    with True have k: "uint k < 31" "unat k < 31" by (simp_all add: word_less_def)
    have "unat (big_Uint64 (uint k)) = unat k"
      using k by (simp add: big_Uint64_def unsigned_ucast_eq take_bit_nat_eq_self)
    then have "unat (big_Uint64 (uint k) * 8 + 7) = 8 * unat k + 7"
      using k by (simp add: unat_word_ariths)
    with f k True show ?thesis
      by (simp add: opSignExtend_def pop1_def push_def Let_def word_sign_extend_def U256_word sign_extend_bits)
  next
    case False
    then have "\<not> uint k < 31" by (simp add: word_less_def)
    with f False show ?thesis
      by (simp add: opSignExtend_def pop1_def returnS_def word_sign_extend_def)
  qed
qed

lemma unat_drop_bit_256: "unat (drop_bit k (x :: word256)) = unat x div 2 ^ k"
  unfolding unsigned_drop_bit_eq
  using unsigned_less [of x, where ?'a = nat] by (simp add: drop_bit_eq_div take_bit_nat_eq_self)

lemma implements_byte: "implements2 opByte word_byte"
  unfolding opByte_def
proof (rule implements2I)
  fix k x :: word256
  show "push (if uint k < 32 then uint (math_Byte (uint x) 32 (nat (big_Int64 (uint k)))) else 0) = push (uint (word_byte k x))"
  proof (cases "k < 32")
    case True
    then have "unat k < 32" unfolding word_less_nat_alt by simp
    with True have k: "uint k < 32" "unat k < 32" by (simp_all add: word_less_def)
    have "big_Int64 (uint k) = uint k" using k(1) by (intro big_Int64_id) simp_all
    then have "nat (big_Int64 (uint k)) = unat k" by (simp only: unat_eq_nat_uint)
    with k have "uint (math_Byte (uint x) 32 (nat (big_Int64 (uint k)))) = uint (of_nat (unat x div 256 ^ (31 - unat k)) :: byte)"
      by (simp add: math_Byte_def bigEndianByteAt_eq)
    also have "\<dots> = int (unat x div 256 ^ (31 - unat k) mod 256)"
      by (simp only: uint_nat unat_of_nat) simp
    also have "\<dots> = int (unat (take_bit 8 (drop_bit (8 * (31 - unat k)) x)))"
      by (simp only: unsigned_take_bit_eq unat_drop_bit_256) (simp add: take_bit_eq_mod power_mult)
    also have "\<dots> = uint (take_bit 8 (drop_bit (8 * (31 - unat k)) x))" by (simp only: uint_nat)
    finally show ?thesis using True k by (simp add: word_byte_def)
  next
    case False
    then have "\<not> uint k < 32" by (simp add: word_less_def)
    with False show ?thesis by (simp add: word_byte_def)
  qed
qed

lemma implements_binary: "list_all (\<lambda>(op, g). implements2 op g) binary_reference"
  by (simp add: binary_reference_def implements_ring implements_division implements_signed implements_exp
      implements_sign_extend implements_comparison implements_bitwise implements_byte)

lemma implements_unary:
  assumes "(op, g) \<in> set unary_reference" "stk f = uint x # st"
  shows "op f = (Inr [], f\<lparr>stk := uint (g x) # st\<rparr>)"
proof -
  have "U256 (NOT (uint x)) = uint (NOT x)" by (simp add: U256_word of_int_not_eq)
  moreover have "uint x > 0 \<longleftrightarrow> x \<noteq> 0" by (metis uint_0_iff uint_ge_0 less_le)
  ultimately show ?thesis
    using assms by (auto simp: unary_reference_def opNot_def opIszero_def pop1_def push_def flag_def)
qed

lemma implements_ternary:
  assumes "(op, g) \<in> set ternary_reference" "stk f = uint x # uint y # uint z # st"
  shows "op f = (Inr [], f\<lparr>stk := uint (g x y z) # st\<rparr>)"
proof -
  have "uint z > 0 \<longleftrightarrow> z \<noteq> 0" by (metis uint_0_iff uint_ge_0 less_le)
  then show ?thesis
    using assms by (auto simp: ternary_reference_def opAddmod_def opMulmod_def push_def big_Mod_def U256_word)
qed

section \<open>Result\<close>

text \<open>
  C9.  On a stack whose values are 256-bit words, every arithmetic, comparison and bitwise instruction does
  what the reference does on words: it takes its operands and leaves one word, everything else of the frame
  is unchanged, and it never fails.  The reference includes signed division and remainder with rounding
  towards zero, exponentiation modulo \<open>2\<^sup>2\<^sup>5\<^sup>6\<close>, sign extension, and sums and products modulo a third operand
  without intermediate wrap-around.
\<close>

theorem arithmetic_is_word_arithmetic:
  assumes "stk f = uint x # uint y # uint z # st"
  shows "(\<forall>(op, g) \<in> set unary_reference. op f = (Inr [], f\<lparr>stk := uint (g x) # uint y # uint z # st\<rparr>))
    \<and> (\<forall>(op, g) \<in> set binary_reference. op f = (Inr [], f\<lparr>stk := uint (g x y) # uint z # st\<rparr>))
    \<and> (\<forall>(op, g) \<in> set ternary_reference. op f = (Inr [], f\<lparr>stk := uint (g x y z) # st\<rparr>))"
  using implements_unary [OF _ assms] implements_binary implements_ternary [OF _ assms] assms
  unfolding list_all_iff implements2_def by blast

definition sample_frame :: "int list \<Rightarrow> unit frame" where
  "sample_frame st = \<lparr>pc = 0, stk = st, memory = NewMemory, contract = NewContract (AccountRef 1) 2 0 1000, evm = NewEVM ()\<rparr>"

theorem arithmetic_is_word_arithmetic_witness:
  "opSdiv (sample_frame [2 ^ 256 - 7, 2, 5]) = (Inr [], sample_frame [2 ^ 256 - 3, 5])
   \<and> opMulmod (sample_frame [2 ^ 256 - 1, 2, 10]) = (Inr [], sample_frame [0])"
proof -
  have st: "stk (sample_frame [2 ^ 256 - 7, 2, 5]) = uint (- 7 :: word256) # uint (2 :: word256) # uint (5 :: word256) # []"
    "stk (sample_frame [2 ^ 256 - 1, 2, 10]) = uint (- 1 :: word256) # uint (2 :: word256) # uint (10 :: word256) # []"
    by (simp_all add: sample_frame_def unsigned_minus_1_eq_mask mask_eq_exp_minus_1)
  have m1: "(opSdiv, word_sdivide) \<in> set binary_reference" by (simp add: binary_reference_def)
  have m2: "(opMulmod, \<lambda>x y z. if z = 0 then 0 else word_of_int ((uint x * uint y) mod uint z)) \<in> set ternary_reference"
    by (simp add: ternary_reference_def)
  note r1 = bspec [OF conjunct1 [OF conjunct2 [OF arithmetic_is_word_arithmetic [OF st(1)]]] m1, unfolded prod.case]
  note r2 = bspec [OF conjunct2 [OF conjunct2 [OF arithmetic_is_word_arithmetic [OF st(2)]]] m2, unfolded prod.case]
  have "uint (word_sdivide (- 7) 2) = 2 ^ 256 - 3" by (simp add: word_sdivide_def)
  moreover have "uint (word_of_int (uint (- 1 :: word256) * uint (2 :: word256) mod uint (10 :: word256)) :: word256) = 0"
    by (simp add: unsigned_minus_1_eq_mask mask_eq_exp_minus_1)
  ultimately show ?thesis unfolding r1 r2 by (simp add: sample_frame_def)
qed

end
