(* ===== verification/Evm_Memory_Gas.thy ===== *)
theory Evm_Memory_Gas
  imports Evm_Gas
begin

text \<open>
  The price of memory.  A memory of \<open>w\<close> words costs \<open>3 w + w\<^sup>2 / 512\<close> in total; an expansion costs the difference.
  Up to \<open>2\<^sup>3\<^sup>2 - 1\<close> words the 64-bit computation is exact; the code allows sizes up to \<open>2\<^sup>3\<^sup>5 - 1\<close> words, for which
  the square wraps around.
\<close>

definition memory_fee :: "nat \<Rightarrow> nat" where
  "memory_fee w = 3 * w + w * w div 512"

text \<open>A memory of \<open>w\<close> words whose price has been charged.\<close>

definition memory_paid :: "nat \<Rightarrow> Memory \<Rightarrow> bool" where
  "memory_paid w m \<longleftrightarrow> w < 2 ^ 32 \<and> length (store m) = 32 * w \<and> unat (lastGasCost m) = memory_fee w"

lemma memory_fee_mono: "v \<le> w \<Longrightarrow> memory_fee v \<le> memory_fee w"
  unfolding memory_fee_def by (intro add_mono mult_mono div_le_mono) simp_all

lemma memory_fee_bound: "w < 2 ^ 32 \<Longrightarrow> memory_fee w < 2 ^ 64"
proof -
  assume w: "w < 2 ^ 32"
  then have "w * w \<le> 2 ^ 32 * 2 ^ 32" by (intro mult_mono) simp_all
  then have "w * w div 512 \<le> 2 ^ 64 div 512" by (intro div_le_mono) simp
  with w show ?thesis by (simp add: memory_fee_def)
qed

lemma toWordSize_nat:
  assumes "unat sz \<le> 2 ^ 40"
  shows "unat (toWordSize sz) = (unat sz + 31) div 32"
proof -
  have "\<not> sz > MaxUint64 - 31" using assms by (simp add: word_less_nat_alt MaxUint64_def)
  moreover have "unat (sz + 31) = unat sz + 31" using assms by (simp add: unat_word_ariths)
  ultimately show ?thesis by (simp add: toWordSize_def unat_div)
qed

lemma word_fee:
  assumes "unat w = n" "n < 2 ^ 32"
  shows "unat (w * MemoryGas + w * w div QuadCoeffDiv) = memory_fee n"
proof -
  have nn: "n * n < 2 ^ 64"
  proof -
    have "n * n \<le> (2 ^ 32 - 1) * (2 ^ 32 - 1)" using assms(2) by (intro mult_mono) simp_all
    then show ?thesis by simp
  qed
  then have "unat (w * w) = n * n" using assms by (simp add: unat_word_ariths)
  moreover have "unat (w * MemoryGas) = 3 * n" using assms by (simp add: unat_word_ariths MemoryGas_def)
  ultimately show ?thesis
    using memory_fee_bound [OF assms(2)] by (simp add: unat_word_ariths QuadCoeffDiv_def unat_div memory_fee_def)
qed

text \<open>
  C10.  Memory is paid for exactly: as long as the requested size is at most \<open>0x1FFFFFFFE0\<close> bytes, the gas
  charged for an expansion is the difference between the price of the new and of the old number of words,
  without wrap-around, and the memory that \<open>Resize\<close> then makes is one whose price has been charged.
\<close>

theorem memory_expansion_exact:
  assumes "memory_paid w m" "0 < sz" "unat sz \<le> 0x1FFFFFFFE0"
  shows "\<exists>fee m'. memoryGasCost sz m = (Inr fee, m')
    \<and> unat fee + memory_fee w = memory_fee (max w ((unat sz + 31) div 32))
    \<and> memory_paid (max w ((unat sz + 31) div 32)) (Memory_Resize (toWordSize sz * 32) m')"
proof -
  define v where "v = (unat sz + 31) div 32"
  have v: "v < 2 ^ 32" "unat (toWordSize sz) = v" using assms(3) toWordSize_nat [of sz] by (simp_all add: v_def)
  then have bytes: "unat (toWordSize sz * 32) = 32 * v" by (simp add: unat_word_ariths)
  have w: "w < 2 ^ 32" "length (store m) = 32 * w" "unat (lastGasCost m) = memory_fee w"
    using assms(1) by (simp_all add: memory_paid_def)
  have small: "sz \<noteq> 0" "\<not> sz > 0xffffffffe0" using assms(2,3) by (auto simp: word_less_nat_alt)
  have grows: "toWordSize sz * 32 > of_nat (length (store m)) \<longleftrightarrow> v > w"
    unfolding word_less_nat_alt bytes w(2) unat_of_nat using w(1) by (simp del: of_nat_mult)
  show ?thesis
  proof (cases "v > w")
    case True
    define total where "total = toWordSize sz * MemoryGas + toWordSize sz * toWordSize sz div QuadCoeffDiv"
    have t: "unat total = memory_fee v" unfolding total_def by (rule word_fee [OF v(2,1)])
    have le: "memory_fee w \<le> memory_fee v" using True by (simp add: memory_fee_mono)
    then have "unat (total - lastGasCost m) + memory_fee w = memory_fee v"
      using t w(3) by (simp add: unat_sub word_le_nat_alt)
    moreover have "memoryGasCost sz m = (Inr (total - lastGasCost m), m\<lparr>lastGasCost := total\<rparr>)"
      using small grows True by (simp add: memoryGasCost_def Let_def total_def)
    moreover have "memory_paid v (Memory_Resize (toWordSize sz * 32) (m\<lparr>lastGasCost := total\<rparr>))"
      using True v t w by (simp add: memory_paid_def Memory_Resize_def bytes)
    ultimately show ?thesis using True by (simp add: v_def [symmetric] max_def)
  next
    case False
    then have "memoryGasCost sz m = (Inr 0, m)" using small grows by (simp add: memoryGasCost_def Let_def)
    moreover have "memory_paid w (Memory_Resize (toWordSize sz * 32) m)"
      using False assms(1) w(2) by (simp add: Memory_Resize_def bytes)
    ultimately show ?thesis using False by (simp add: v_def [symmetric] max_def)
  qed
qed

theorem memory_expansion_exact_witness:
  "memory_paid 0 NewMemory \<and> (\<exists>fee m'. memoryGasCost 100 NewMemory = (Inr fee, m') \<and> unat fee = 12 \<and> length (store (Memory_Resize 128 m')) = 128)"
proof -
  have p: "memory_paid 0 NewMemory" by (simp add: memory_paid_def NewMemory_def memory_fee_def)
  moreover have t: "toWordSize 100 * 32 = (128 :: u64)" by (simp add: toWordSize_def MaxUint64_def)
  ultimately show ?thesis
    using memory_expansion_exact [OF p, of 100] by (auto simp: memory_fee_def memory_paid_def)
qed

lemma word_fee_wrapped:
  fixes v :: u64
  assumes "unat v = w" "w < 2 ^ 35"
  shows "unat (v * MemoryGas + v * v div QuadCoeffDiv) + 2 ^ 55 * (w * w div 2 ^ 64) = memory_fee w"
proof -
  have sq: "unat (v * v) = w * w mod 2 ^ 64" using assms(1) by (simp add: unat_word_ariths)
  have lin: "unat (v * MemoryGas) = 3 * w" using assms by (simp add: unat_word_ariths MemoryGas_def)
  have quad: "unat (v * v div QuadCoeffDiv) = w * w mod 2 ^ 64 div 512" by (simp add: unat_div sq QuadCoeffDiv_def)
  have "w * w mod 2 ^ 64 div 512 < 2 ^ 55"
    by (rule less_mult_imp_div_less) simp
  then have "unat (v * MemoryGas + v * v div QuadCoeffDiv) = 3 * w + w * w mod 2 ^ 64 div 512"
    using assms(2) unfolding unat_word_ariths(1) lin quad by simp
  moreover have "w * w div 512 = 2 ^ 55 * (w * w div 2 ^ 64) + w * w mod 2 ^ 64 div 512"
  proof -
    have "w * w = w * w mod 2 ^ 64 + (2 ^ 55 * (w * w div 2 ^ 64)) * 512"
      using mult_div_mod_eq [of "2 ^ 64" "w * w"] by simp
    then have "w * w div 512 = (w * w mod 2 ^ 64 + (2 ^ 55 * (w * w div 2 ^ 64)) * 512) div 512" by (rule arg_cong)
    also have "\<dots> = 2 ^ 55 * (w * w div 2 ^ 64) + w * w mod 2 ^ 64 div 512" by (rule div_mult_self1) simp
    finally show ?thesis .
  qed
  ultimately show ?thesis by (simp add: memory_fee_def)
qed

lemma square_wraps: "0 < w * w div 2 ^ 64 \<longleftrightarrow> 2 ^ 32 \<le> (w :: nat)"
proof -
  have "0 < w * w div 2 ^ 64 \<longleftrightarrow> 2 ^ 64 \<le> w * w" by (simp add: div_greater_zero_iff)
  also have "\<dots> \<longleftrightarrow> (2 ^ 32) ^ 2 \<le> w ^ 2" by (simp add: power2_eq_square)
  also have "\<dots> \<longleftrightarrow> 2 ^ 32 \<le> w" by (rule power2_nat_le_eq_le)
  finally show ?thesis .
qed

text \<open>
  C11. Above that size the price is wrong. For every size that \<open>memoryGasCost\<close> accepts, the price of a fresh memory of
  \<open>w\<close> words falls short of the yellow paper's by \<open>2 ^ 55\<close> for each time the square of \<open>w\<close> passes
  \<open>2 ^ 64\<close>: it is too low exactly from \<open>2 ^ 32\<close> words on. The comment in the code says that no size up to
  \<open>0xffffffffe0\<close> overflows.
\<close>

theorem memory_price_wraps:
  assumes "0 < sz" "unat sz \<le> 0xffffffffe0" "w = (unat sz + 31) div 32"
  shows "\<exists>fee. fst (memoryGasCost sz NewMemory) = Inr fee
    \<and> unat fee + 2 ^ 55 * (w * w div 2 ^ 64) = memory_fee w \<and> (unat fee < memory_fee w \<longleftrightarrow> 2 ^ 32 \<le> w)"
proof -
  have w: "unat (toWordSize sz) = w" "w < 2 ^ 35" "0 < w"
    using assms toWordSize_nat [of sz] by (auto simp: word_less_nat_alt)
  have "sz \<noteq> 0" "\<not> sz > 0xffffffffe0" using assms(1,2) by (auto simp: word_less_nat_alt)
  moreover have "toWordSize sz * 32 > 0" using w by (simp add: word_less_nat_alt unat_word_ariths)
  ultimately have "fst (memoryGasCost sz NewMemory) = Inr (toWordSize sz * MemoryGas + toWordSize sz * toWordSize sz div QuadCoeffDiv)"
    by (simp add: memoryGasCost_def NewMemory_def Let_def)
  with word_fee_wrapped [OF w(1,2)] square_wraps [of w] show ?thesis by fastforce
qed

theorem memory_price_wraps_witness:
  "\<exists>fee. fst (memoryGasCost (2 ^ 37) NewMemory) = Inr fee \<and> unat fee = 12884901888 \<and> memory_fee (2 ^ 32) = 36028809903865856"
  using memory_price_wraps [of "2 ^ 37" "2 ^ 32"] by (auto simp: memory_fee_def)

end
