(* ===== verification/Spec2Isabelle.thy ===== *)
theory Spec2Isabelle
  imports Rlp_Codec Clique_Agreement Evm_Jumps Evm_Terminates Evm_Arith Evm_Memory_Gas
begin

text \<open>
  A verification of the core of the Indigo node (a fork of go-ethereum with proof-of-authority consensus).

  \<^bold>\<open>The program and its parts.\<close>  A node serialises everything it hashes, stores or sends with RLP (src/rlp).  Blocks
  (src/core/types) are headers with a hash and a signature; the engine (src/consensus/clique) decides who may sign
  the next one, by replaying the votes in the headers onto snapshots of the membership, and verifies, prepares
  and seals headers.  Transactions run on the virtual machine (src/core/vm), whose rules depend on the block number
  through the chain configuration (src/params).  The parts interact as in the code: the hashes of headers are taken of RLP
  encodings, the engine calls them and recovers signers from them, contract addresses are hashes of RLP
  encodings too.

  \<^bold>\<open>Theories and sources.\<close>
  \<^item> \<open>Go_Prelude\<close>: bytes, big-endian integers, results of fallible calls, the state-and-error monad, Go maps as
    association lists, and the shared interfaces (locales \<open>codec\<close>, \<open>canonical_codec\<close>, \<open>preserving_loop\<close>).
    \<open>Common_Types\<close>: hashes and addresses (common/types.go).  \<open>Big_Math\<close>: common/math, common/bytes.go.
  \<^item> \<open>Rlp_Encode\<close> (rlp/encode.go): the pooled \<open>encbuf\<close> with string data and list heads, \<open>writer\<close>, \<open>EncodeToBytes\<close>, \<open>Encode\<close>.
    \<open>Rlp_Raw\<close> (rlp/raw.go): \<open>Split\<close>, \<open>CountValues\<close>.  \<open>Rlp_Stream\<close> (rlp/decode.go): the \<open>Stream\<close> and its decoders.  \<open>Rlp_Reference\<close>,
    \<open>Rlp_Stream_Correct\<close>, \<open>Rlp_Codec\<close>: the reference encoding, and that encoder and decoder implement it.
  \<^item> \<open>Block_Header\<close> (core/types/block.go and \<open>sigHash\<close> of clique.go): the header, its RLP forms and hashes.  \<open>Chain_Config\<close>
    (params/config.go): forks and the compatibility check.
  \<^item> \<open>Clique_Snapshot\<close> (consensus/clique/snapshot.go): votes, tallies, \<open>Snapshot_apply\<close>.  \<open>Clique_Difficulty\<close>: \<open>CalcDifficulty\<close>.
    \<open>Clique_Engine\<close> (clique.go, api.go): the record \<open>Clique\<close> is the engine's state; \<open>VerifyHeader\<close>, \<open>VerifyHeaders\<close>,
    \<open>Clique_snapshot\<close>, \<open>Clique_Prepare\<close>, \<open>Clique_Seal\<close> and the RPC operations are its methods.  \<open>Clique_Votes\<close>, \<open>Clique_Reach\<close>,
    \<open>Clique_Safety\<close>: invariants of snapshots.  \<open>Clique_Engine_Correct\<close>, \<open>Clique_Consensus\<close>, \<open>Clique_Runs\<close>, \<open>Clique_Agreement\<close>: the
    engine against the snapshots the headers determine (\<open>snap_at\<close>), from one call to whole runs and two nodes.
  \<^item> \<open>Evm_Machine\<close> (stack, memory, contract, analysis), \<open>Evm_Instr\<close> (instructions.go), \<open>Evm_Gas\<close> (gas.go, gas_table.go,
    memory_table.go), \<open>Evm_Table\<close> (jump_table.go), \<open>Evm_Precompiled\<close> (contracts.go), \<open>Evm_Run\<close> (interpreter.go, evm.go): the virtual
    machine on frames; \<open>Evm_Frames\<close>, \<open>Evm_Terminates\<close>, \<open>Evm_Jumps\<close>, \<open>Evm_Arith\<close>, \<open>Evm_Memory_Gas\<close>: its properties.  \<open>Evm_Sample\<close> is a
    context on which they are exercised.

  \<^bold>\<open>What the theorems show.\<close>
  \<^item> RLP (C1, C2, C4 to C7): the encoder computes the reference encoding and fails exactly where there is none; the decoder
    accepts exactly the encodings, inverts the encoder in both directions and always returns; \<open>Split\<close> and \<open>CountValues\<close> are
    exact.  Header hashes commit to the header (C12).
  \<^item> Virtual machine: every call ends within its gas (C3); jumps land on instructions (C8); the arithmetic
    instructions compute on 256-bit words (C9); the memory price is exact below \<open>2 ^ 32\<close> words (C10) and wraps from there
    on (C11).
  \<^item> Clique snapshots: well-formedness (C13), changes of the membership as majority decisions (C14) and the
    case in which they are not (C20), the pause between two blocks of a signer (C15), difficulties
    (C16, C17), determinism of the member lists (C18), votes in the extra data (C19).
  \<^item> Clique engine: \<open>snapshot\<close> returns the snapshot the headers determine (C23) and does return it (C24), in every state the engine reaches
    (C28); accepted headers are signed by eligible signers (C22), prepared and sealed blocks are accepted
    elsewhere (C21), verification ends (C25), and two checks do less than they say (C26, C29).
  \<^item> Chain configuration: the rewind loop of \<open>CheckCompatible\<close> ends, with what it reports (C27).

  \<^bold>\<open>How it is modelled.\<close>  Fixed-width integers are words, so that wrap-around is that of the code; a \<open>*big.Int\<close> is an \<open>int\<close>,
  an \<open>int option\<close> where it may be nil.  Errors and panics are values of an error type per component (\<open>Panic\<close>, \<open>VmPanic\<close>
  for run-time panics).  State is passed explicitly; maps are association lists, and what must not depend on their
  order is proved not to.

  \<^bold>\<open>Parameters.\<close>  Code outside the repository or behind an interface is an argument: Keccak, \<open>Ecrecover\<close>, the eviction of the
  caches (record \<open>crypto\<close> and \<open>engine_env\<close>), the clock, JSON, failures of the database, the chain (\<open>ChainReader\<close>), the
  signing function, the random choice, the state database (\<open>vm_db\<close>), the hash functions and the curve of the native
  contracts.  The laws relied on are named: \<open>trusted\<close> and \<open>env_ok\<close> (no collisions on the headers in play, caches only forget,
  decoding inverts encoding), \<open>chain_ok\<close>, \<open>chain_closed\<close>, \<open>genesis_verified\<close>, \<open>storage_ok\<close>, \<open>signs_as\<close>.

  \<^bold>\<open>Fuel and bounds.\<close>  \<open>DecodeBytes\<close> runs with fuel above the input length, and C5 shows that it is enough.  \<open>VerifyHeader\<close> and
  \<open>snapshot\<close> call each other; the fuel of \<open>VerifyHeader\<close> counts the rounds and C25 shows that two suffice.  The interpreter's loop
  and the nesting of calls run with fuel, and C3 shows that the gas and the depth limit of 1024 bound them.  All
  other recursions are structural or have a termination proof.

  \<^bold>\<open>Not modelled.\<close>  Reflection-driven decoders of structs, block bodies and their storage, the state trie and the journal
  behind \<open>StateDB\<close>, the block chain and the transaction pool, networking, accounts, the RPC server, mining threads, tracing: they
  are input and output, concurrency, or reached only through the interfaces above.  Locks are left out: each operation is one
  step.
\<close>

end
